(* ===== verification/Prelude.thy ===== *)
theory Prelude
  imports Main "HOL-Library.Word" "HOL-Library.Char_ord" "HOL-Library.List_Lexorder"
begin

text \<open>
  What every theory of the development shares.

  \<^item> The exceptions the package raises or lets through, as a datatype, and computations that
    may raise as values of a sum type: \<open>Inl\<close> the exception, \<open>Inr\<close> the result.
  \<^item> Python's \<open>bytes\<close> as lists of 8-bit words and Python's \<open>str\<close> as a HOL \<open>string\<close>. A \<open>str\<close>
    is a sequence of code points; the model keeps its UTF-8 form, in which a lone surrogate
    has the three bytes that the \<open>surrogatepass\<close> handler writes. Every \<open>str\<close> has
    exactly one such form, concatenation is concatenation, and the order of code points is the
    order of the bytes, so comparisons, dictionary keys and sorting agree with Python's.
    What differs is \<open>len\<close>, which the package never takes of a \<open>str\<close>.
  \<^item> \<open>bytes.hex\<close>, \<open>bytes.fromhex\<close>, the decimal form of integers, \<open>str.strip\<close>, \<open>str.lower\<close>.
\<close>

section \<open>Exceptions and results\<close>

text \<open>
  One constructor per exception class that can leave a function of the package. Messages that
  the package writes are kept; messages of the standard library are abbreviated to the name of
  the function that raises, since no code of the package looks at them.
\<close>

datatype exn =
    ValueError string
  | UnicodeEncodeError
  | UnicodeDecodeError
  | JSONDecodeError
  | TypeError string
  | KeyError string
  | ImportError string
  | IndexError string
  | AttributeError string
  | OverflowError
  | RuntimeError string
  | OSError string
  | SignatureError string
  | SignatureUnavailableError
  | BackendError string
  | LogCorruptedError string
  | IntegrityError string
  | LockTimeout string
  | LockError string

type_synonym 'a result = "exn + 'a"

text \<open>\<open>except ValueError\<close> also catches the subclasses of \<open>ValueError\<close> modelled here.\<close>

fun is_value_error :: "exn \<Rightarrow> bool" where
  "is_value_error (ValueError _) = True"
| "is_value_error UnicodeEncodeError = True"
| "is_value_error UnicodeDecodeError = True"
| "is_value_error JSONDecodeError = True"
| "is_value_error _ = False"

named_theorems result_simps \<open>how results are sequenced\<close>

fun bindE :: "'e + 'a \<Rightarrow> ('a \<Rightarrow> 'e + 'b) \<Rightarrow> 'e + 'b" where
  "bindE (Inl e) f = Inl e"
| "bindE (Inr x) f = f x"

fun mapE :: "('a \<Rightarrow> 'e + 'b) \<Rightarrow> 'a list \<Rightarrow> 'e + 'b list" where
  "mapE f [] = Inr []"
| "mapE f (x # xs) = bindE (f x) (\<lambda>y. bindE (mapE f xs) (\<lambda>ys. Inr (y # ys)))"

lemma bindE_Inr_iff [result_simps]: "bindE m f = Inr y \<longleftrightarrow> (\<exists>x. m = Inr x \<and> f x = Inr y)"
  by (cases m) auto

lemma bindE_Inl_iff [result_simps]:
  "bindE m f = Inl e \<longleftrightarrow> m = Inl e \<or> (\<exists>x. m = Inr x \<and> f x = Inl e)"
  by (cases m) auto

lemma bindE_cong [fundef_cong]:
  "m = m' \<Longrightarrow> (\<And>x. m' = Inr x \<Longrightarrow> f x = f' x) \<Longrightarrow> bindE m f = bindE m' f'"
  by (cases m') auto

lemma mapE_cong [fundef_cong]:
  "xs = ys \<Longrightarrow> (\<And>x. x \<in> set ys \<Longrightarrow> f x = g x) \<Longrightarrow> mapE f xs = mapE g ys"
  by (induction ys arbitrary: xs) auto

lemma mapE_Inr: "(\<And>x. x \<in> set xs \<Longrightarrow> f x = Inr (g x)) \<Longrightarrow> mapE f xs = Inr (map g xs)"
  by (induction xs) auto

lemma mapE_Inr_iff: "mapE f xs = Inr ys \<longleftrightarrow> map f xs = map Inr ys"
proof (induction xs arbitrary: ys)
  case (Cons x xs)
  show ?case by (cases ys) (auto simp: bindE_Inr_iff Cons.IH)
qed auto

lemma mapE_length: "mapE f xs = Inr ys \<Longrightarrow> length ys = length xs"
  by (auto simp: mapE_Inr_iff dest: map_eq_imp_length_eq)

lemma mapE_nth: "mapE f xs = Inr ys \<Longrightarrow> i < length xs \<Longrightarrow> f (xs ! i) = Inr (ys ! i)"
proof (induction xs arbitrary: ys i)
  case (Cons x xs)
  from Cons.prems(1) obtain z zs where "f x = Inr z" "mapE f xs = Inr zs" "ys = z # zs"
    by (auto simp: bindE_Inr_iff)
  with Cons.IH [of zs "i - 1"] Cons.prems(2) show ?case by (cases i) auto
qed simp

section \<open>Bytes and text\<close>

type_synonym bytes = "8 word list"

text \<open>The bytes of the model's form of a string.\<close>

definition raw_bytes :: "string \<Rightarrow> bytes" where
  "raw_bytes s = map of_char s"

lemma of_char_word_inject: "(of_char c :: 8 word) = of_char d \<longleftrightarrow> c = d"
proof
  assume "(of_char c :: 8 word) = of_char d"
  then have "unat (of_char c :: 8 word) = unat (of_char d :: 8 word)" by simp
  moreover have "unat (of_char x :: 8 word) = of_char x" for x
  proof -
    have "(of_char x :: 8 word) = of_nat (of_char x)" by (simp only: of_nat_of_char)
    moreover have "(of_char x :: nat) < 256" by simp
    ultimately show ?thesis by (simp add: unat_of_nat take_bit_nat_def)
  qed
  ultimately have "(of_char c :: nat) = of_char d" by simp
  then show "c = d" by simp
qed simp

lemma raw_bytes_inject [simp]: "raw_bytes s = raw_bytes t \<longleftrightarrow> s = t"
  unfolding raw_bytes_def by (rule inj_map_eq_map) (simp add: inj_def of_char_word_inject)

lemma raw_bytes_append [simp]: "raw_bytes (s @ t) = raw_bytes s @ raw_bytes t"
  by (simp add: raw_bytes_def)

lemma length_raw_bytes [simp]: "length (raw_bytes s) = length s"
  by (simp add: raw_bytes_def)

text \<open>\<open>s.encode("ascii")\<close> raises outside ASCII; \<open>s.encode()\<close>, which is UTF-8, raises on a
  surrogate, whose form starts with the bytes ED and A0..BF.\<close>

definition is_ascii :: "string \<Rightarrow> bool" where
  "is_ascii s = list_all (\<lambda>c. of_char c < (128 :: nat)) s"

fun has_surrogate :: "string \<Rightarrow> bool" where
  "has_surrogate (c # d # s) =
     ((of_char c = (237 :: nat) \<and> 160 \<le> (of_char d :: nat)) \<or> has_surrogate (d # s))"
| "has_surrogate _ = False"

definition encode_ascii :: "string \<Rightarrow> bytes result" where
  "encode_ascii s = (if is_ascii s then Inr (raw_bytes s) else Inl UnicodeEncodeError)"

definition encode_utf8 :: "string \<Rightarrow> bytes result" where
  "encode_utf8 s = (if has_surrogate s then Inl UnicodeEncodeError else Inr (raw_bytes s))"

lemma is_ascii_Nil [simp]: "is_ascii []"
  by (simp add: is_ascii_def)

lemma is_ascii_Cons [simp]: "is_ascii (c # s) \<longleftrightarrow> of_char c < (128 :: nat) \<and> is_ascii s"
  by (simp add: is_ascii_def)

lemma is_ascii_append [simp]: "is_ascii (s @ t) \<longleftrightarrow> is_ascii s \<and> is_ascii t"
  by (simp add: is_ascii_def)

lemma is_ascii_no_surrogate: "is_ascii s \<Longrightarrow> \<not> has_surrogate s"
  by (induction s rule: has_surrogate.induct) (auto simp: is_ascii_def)

lemma encode_utf8_ascii: "is_ascii s \<Longrightarrow> encode_utf8 s = Inr (raw_bytes s)"
  by (simp add: encode_utf8_def is_ascii_no_surrogate)

section \<open>Hexadecimal\<close>

text \<open>\<open>bytes.hex()\<close> writes two lower-case digits per byte.\<close>

definition hex_digit :: "nat \<Rightarrow> char" where
  "hex_digit n = ''0123456789abcdef'' ! n"

definition hex_byte :: "8 word \<Rightarrow> string" where
  "hex_byte b = [hex_digit (unat b div 16), hex_digit (unat b mod 16)]"

definition hex :: "bytes \<Rightarrow> string" where
  "hex bs = concat (map hex_byte bs)"

text \<open>\<open>bytes.fromhex\<close> takes digits of either case and skips ASCII white space between two
  bytes, but not inside one; anything else, or an odd digit, is a \<open>ValueError\<close>.\<close>

definition hex_value :: "char \<Rightarrow> nat option" where
  "hex_value c =
     (let n = of_char c in
      if 48 \<le> n \<and> n \<le> 57 then Some (n - 48)
      else if 97 \<le> n \<and> n \<le> 102 then Some (n - 87)
      else if 65 \<le> n \<and> n \<le> 70 then Some (n - 55)
      else None)"

definition is_ascii_space :: "char \<Rightarrow> bool" where
  "is_ascii_space c = (of_char c \<in> {32 :: nat, 9, 10, 11, 12, 13})"

fun fromhex_opt :: "string \<Rightarrow> bytes option" where
  "fromhex_opt [] = Some []"
| "fromhex_opt [c] = (if is_ascii_space c then Some [] else None)"
| "fromhex_opt (c # d # s) =
     (if is_ascii_space c then fromhex_opt (d # s)
      else case (hex_value c, hex_value d) of
             (Some a, Some b) \<Rightarrow> map_option ((#) (of_nat (16 * a + b))) (fromhex_opt s)
           | _ \<Rightarrow> None)"

definition fromhex :: "string \<Rightarrow> bytes result" where
  "fromhex s = (case fromhex_opt s of None \<Rightarrow> Inl (ValueError ''fromhex'') | Some b \<Rightarrow> Inr b)"

lemma hex_Nil [simp]: "hex [] = []"
  by (simp add: hex_def)

lemma hex_Cons: "hex (b # bs) = hex_digit (unat b div 16) # hex_digit (unat b mod 16) # hex bs"
  by (simp add: hex_def hex_byte_def)

lemma length_hex [simp]: "length (hex bs) = 2 * length bs"
  by (induction bs) (auto simp: hex_Cons)

lemma hex_empty [simp]: "hex bs = [] \<longleftrightarrow> bs = []"
  by (cases bs) (simp_all add: hex_Cons)

lemma less_16_cases:
  fixes n :: nat
  assumes "n < 16"
  shows "n \<in> {0, 1, 2, 3, 4, 5, 6, 7, 8, 9, 10, 11, 12, 13, 14, 15}"
  using assms by (simp add: less_Suc_eq numeral_eq_Suc)

lemma hex_value_digit: "n < 16 \<Longrightarrow> hex_value (hex_digit n) = Some n"
  by (drule less_16_cases) (auto simp: hex_value_def hex_digit_def)

lemma hex_digit_not_space: "n < 16 \<Longrightarrow> \<not> is_ascii_space (hex_digit n)"
  by (drule less_16_cases) (auto simp: is_ascii_space_def hex_digit_def)

lemma hex_digit_ascii: "n < 16 \<Longrightarrow> of_char (hex_digit n) < (128 :: nat)"
  by (drule less_16_cases) (auto simp: hex_digit_def)

lemma unat_byte: "unat (b :: 8 word) < 256"
proof -
  have "unat b < 2 ^ LENGTH(8)" by (rule unsigned_less)
  then show ?thesis by simp
qed

lemma unat_byte_div_16: "unat (b :: 8 word) div 16 < 16"
  using unat_byte [of b] by (simp add: less_mult_imp_div_less)

lemma fromhex_opt_hex [simp]: "fromhex_opt (hex bs) = Some bs"
proof (induction bs)
  case (Cons b bs)
  have "of_nat (16 * (unat b div 16) + unat b mod 16) = b"
    by (simp only: mult_div_mod_eq) simp
  with Cons show ?case
    by (simp add: hex_Cons hex_value_digit hex_digit_not_space unat_byte_div_16 del: of_nat_add)
qed simp

lemma fromhex_hex [simp]: "fromhex (hex bs) = Inr bs"
  by (simp add: fromhex_def)

lemma hex_inject [simp]: "hex a = hex b \<longleftrightarrow> a = b"
  by (metis fromhex_opt_hex option.inject)

lemma hex_ascii: "c \<in> set (hex bs) \<Longrightarrow> of_char c < (128 :: nat)"
  by (induction bs) (auto simp: hex_Cons hex_digit_ascii unat_byte_div_16)

lemma is_ascii_hex [simp]: "is_ascii (hex bs)"
  by (auto simp: is_ascii_def list_all_iff hex_ascii)

lemma fromhex_error: "fromhex s = Inl e \<Longrightarrow> is_value_error e"
  by (auto simp: fromhex_def split: option.splits)

section \<open>Decimal integers\<close>

text \<open>\<open>str(n)\<close> and \<open>f"{n}"\<close> of an integer.\<close>

definition dec_digit :: "nat \<Rightarrow> char" where
  "dec_digit n = ''0123456789'' ! n"

fun dec_nat :: "nat \<Rightarrow> string" where
  "dec_nat n = (if n < 10 then [dec_digit n] else dec_nat (n div 10) @ [dec_digit (n mod 10)])"

declare dec_nat.simps [simp del]

definition dec_int :: "int \<Rightarrow> string" where
  "dec_int i = (if i < 0 then CHR ''-'' # dec_nat (nat (- i)) else dec_nat (nat i))"

definition is_digit :: "char \<Rightarrow> bool" where
  "is_digit c = (48 \<le> (of_char c :: nat) \<and> (of_char c :: nat) \<le> 57)"

definition digit_value :: "char \<Rightarrow> nat" where
  "digit_value c = of_char c - 48"

definition nat_of_digits :: "string \<Rightarrow> nat" where
  "nat_of_digits s = foldl (\<lambda>n c. 10 * n + digit_value c) 0 s"

lemma less_10_cases:
  fixes n :: nat
  assumes "n < 10"
  shows "n \<in> {0, 1, 2, 3, 4, 5, 6, 7, 8, 9}"
  using assms by (simp add: less_Suc_eq numeral_eq_Suc)

lemma dec_digit_facts:
  assumes "n < 10"
  shows "is_digit (dec_digit n)" "digit_value (dec_digit n) = n"
    and "dec_digit n = CHR ''0'' \<longleftrightarrow> n = 0"
  using less_10_cases [OF assms] by (auto simp: is_digit_def digit_value_def dec_digit_def)

lemma nat_of_digits_snoc [simp]:
  "nat_of_digits (s @ [c]) = 10 * nat_of_digits s + digit_value c"
  by (simp add: nat_of_digits_def)

lemma nat_of_digits_dec_nat [simp]: "nat_of_digits (dec_nat n) = n"
proof (induction n rule: dec_nat.induct)
  case (1 n)
  show ?case
  proof (cases "n < 10")
    case True
    then show ?thesis by (simp add: dec_nat.simps [of n] nat_of_digits_def dec_digit_facts)
  next
    case False
    with 1 show ?thesis by (simp add: dec_nat.simps [of n] dec_digit_facts)
  qed
qed

lemma dec_nat_digits: "list_all is_digit (dec_nat n) \<and> dec_nat n \<noteq> []"
proof (induction n rule: dec_nat.induct)
  case (1 n)
  then show ?case by (simp add: dec_nat.simps [of n] dec_digit_facts)
qed

lemma dec_nat_inject [simp]: "dec_nat m = dec_nat n \<longleftrightarrow> m = n"
  by (metis nat_of_digits_dec_nat)

lemma dec_nat_leading:
  "hd (dec_nat n) = CHR ''0'' \<longleftrightarrow> n = 0"
proof (induction n rule: dec_nat.induct)
  case (1 n)
  show ?case
  proof (cases "n < 10")
    case True
    then show ?thesis by (simp add: dec_nat.simps [of n] dec_digit_facts)
  next
    case False
    with 1 dec_nat_digits [of "n div 10"] show ?thesis
      by (simp add: dec_nat.simps [of n] hd_append)
  qed
qed

lemma dec_nat_0 [simp]: "dec_nat 0 = ''0''"
  by (simp add: dec_nat.simps dec_digit_def)

lemma is_digit_minus: "\<not> is_digit CHR ''-''"
  by (simp add: is_digit_def)

lemma hd_dec_nat_digit: "is_digit (hd (dec_nat n))"
  using dec_nat_digits [of n] by (cases "dec_nat n") auto

lemma dec_int_inject [simp]: "dec_int i = dec_int j \<longleftrightarrow> i = j"
proof
  assume eq: "dec_int i = dec_int j"
  have "CHR ''-'' # dec_nat m \<noteq> dec_nat n" for m n
    using hd_dec_nat_digit [of n] is_digit_minus by (metis list.sel(1))
  with eq show "i = j"
    unfolding dec_int_def by (auto split: if_splits dest: sym)
qed simp

definition is_dec_char :: "char \<Rightarrow> bool" where
  "is_dec_char c = (is_digit c \<or> c = CHR ''-'')"

lemma dec_int_chars: "list_all is_dec_char (dec_int i)"
  using dec_nat_digits by (auto simp: dec_int_def is_dec_char_def list_all_iff)

lemma is_ascii_dec_int [simp]: "is_ascii (dec_int i)"
  using dec_int_chars [of i]
  by (auto simp: is_ascii_def list_all_iff is_dec_char_def is_digit_def)

text \<open>Two strings with a separator that the left parts do not hold.\<close>

lemma split_at_separator:
  assumes "a @ x # b = a' @ x # b'" and "x \<notin> set a" and "x \<notin> set a'"
  shows "a = a' \<and> b = b'"
  using assms
proof (induction a arbitrary: a')
  case Nil
  then show ?case by (cases a') auto
next
  case (Cons y ys)
  then show ?case by (cases a') auto
qed

lemma colon_not_in_dec_int: "CHR '':'' \<notin> set (dec_int i)"
  using dec_int_chars [of i] by (auto simp: list_all_iff is_dec_char_def is_digit_def)

lemma colon_not_in_hex: "CHR '':'' \<notin> set (hex bs)"
proof -
  have "n < 16 \<Longrightarrow> CHR '':'' \<noteq> hex_digit n" for n
    by (drule less_16_cases) (auto simp: hex_digit_def)
  then show ?thesis by (induction bs) (auto simp: hex_Cons unat_byte_div_16)
qed

section \<open>Case and white space\<close>

text \<open>\<open>str.lower()\<close>, on ASCII letters. The package compares the result with hexadecimal
  digests only, and no character outside ASCII lowers to a hexadecimal digit, so the
  comparison has Python's value for every string.\<close>

definition lower_char :: "char \<Rightarrow> char" where
  "lower_char c =
     (if 65 \<le> (of_char c :: nat) \<and> (of_char c :: nat) \<le> 90 then char_of ((of_char c :: nat) + 32) else c)"

definition lower :: "string \<Rightarrow> string" where
  "lower s = map lower_char s"

lemma lower_hex_digit: "n < 16 \<Longrightarrow> lower_char (hex_digit n) = hex_digit n"
  by (drule less_16_cases) (auto simp: lower_char_def hex_digit_def)

lemma lower_hex [simp]: "lower (hex bs) = hex bs"
  by (induction bs) (auto simp: lower_def hex_Cons lower_hex_digit unat_byte_div_16)

text \<open>
  \<open>str.strip()\<close> removes white space at both ends: the ASCII white space, the four
  separators 28 to 31, and the code points U+0085, U+00A0, U+1680, U+2000 to U+200A,
  U+2028, U+2029, U+202F, U+205F and U+3000, here in their UTF-8 form.
\<close>

definition wide_spaces :: "string list" where
  "wide_spaces =
     map (map (char_of :: nat \<Rightarrow> char))
       ([[194, 133], [194, 160], [225, 154, 128], [226, 128, 168], [226, 128, 169],
         [226, 128, 175], [226, 129, 159], [227, 128, 128]]
        @ map (\<lambda>n. [226, 128, n]) [128..<139])"

definition is_str_space :: "char \<Rightarrow> bool" where
  "is_str_space c = (is_ascii_space c \<or> of_char c \<in> {28 :: nat, 29, 30, 31})"

fun strip_prefix :: "string \<Rightarrow> string \<Rightarrow> string option" where
  "strip_prefix [] s = Some s"
| "strip_prefix (c # p) [] = None"
| "strip_prefix (c # p) (d # s) = (if c = d then strip_prefix p s else None)"

fun first_prefix :: "string list \<Rightarrow> string \<Rightarrow> string option" where
  "first_prefix [] s = None"
| "first_prefix (p # ps) s = (case strip_prefix p s of Some r \<Rightarrow> Some r | None \<Rightarrow> first_prefix ps s)"

lemma strip_prefix_Some: "strip_prefix p s = Some r \<longleftrightarrow> s = p @ r"
  by (induction p s rule: strip_prefix.induct) auto

lemma first_prefix_Some: "first_prefix ps s = Some r \<Longrightarrow> \<exists>p \<in> set ps. s = p @ r"
  by (induction ps) (auto simp: strip_prefix_Some split: option.splits)

text \<open>The wide characters to drop are an argument, since the right end is stripped on the
  reversed string; an empty entry would not shorten the string and is skipped.\<close>

function drop_spaces :: "string list \<Rightarrow> string \<Rightarrow> string" where
  "drop_spaces wide [] = []"
| "drop_spaces wide (c # s) =
     (if is_str_space c then drop_spaces wide s
      else case first_prefix (filter (\<lambda>p. p \<noteq> []) wide) (c # s) of
             Some r \<Rightarrow> drop_spaces wide r
           | None \<Rightarrow> c # s)"
  by pat_completeness auto
termination
proof (relation "measure (\<lambda>(wide, s). length s)")
  fix wide c s r
  assume "first_prefix (filter (\<lambda>p. p \<noteq> []) wide) (c # s) = Some r"
  then obtain p where "p \<noteq> []" "c # s = p @ r" by (auto dest!: first_prefix_Some)
  then have "length r < length (c # s)" by (cases p) auto
  then show "((wide, r), wide, c # s) \<in> measure (\<lambda>(wide, s). length s)" by simp
qed auto

definition strip :: "string \<Rightarrow> string" where
  "strip s = rev (drop_spaces (map rev wide_spaces) (rev (drop_spaces wide_spaces s)))"

end
