(* ===== verification/Sha256.thy ===== *)
theory Sha256
  imports Prelude
begin

unbundle bit_operations_syntax

text \<open>
  The digests of Python's standard library that the package uses: \<open>hashlib.sha256\<close> (FIPS
  180-4) and \<open>hmac.new(key, data, hashlib.sha256)\<close> (RFC 2104), on \<open>bytes\<close>. The words are
  32-bit machine words, so \<open>+\<close> is addition modulo \<open>2 ^ 32\<close>.

  No theorem of the development assumes that SHA-256 has no collisions, which is false. A
  security property says instead that the forged value equals the real one or that two
  given inputs, computable from the data at hand, collide: predicate \<open>collides\<close>.
\<close>

section \<open>SHA-256\<close>

type_synonym u32 = "32 word"

definition sha_k :: "u32 list" where
  "sha_k =
  [1116352408, 1899447441, 3049323471, 3921009573, 961987163, 1508970993,
   2453635748, 2870763221, 3624381080, 310598401, 607225278, 1426881987,
   1925078388, 2162078206, 2614888103, 3248222580, 3835390401, 4022224774,
   264347078, 604807628, 770255983, 1249150122, 1555081692, 1996064986,
   2554220882, 2821834349, 2952996808, 3210313671, 3336571891, 3584528711,
   113926993, 338241895, 666307205, 773529912, 1294757372, 1396182291,
   1695183700, 1986661051, 2177026350, 2456956037, 2730485921, 2820302411,
   3259730800, 3345764771, 3516065817, 3600352804, 4094571909, 275423344,
   430227734, 506948616, 659060556, 883997877, 958139571, 1322822218,
   1537002063, 1747873779, 1955562222, 2024104815, 2227730452, 2361852424,
   2428436474, 2756734187, 3204031479, 3329325298]"

definition rotr :: "nat \<Rightarrow> u32 \<Rightarrow> u32" where
  "rotr n x = drop_bit n x OR push_bit (32 - n) x"

definition big_sigma0 :: "u32 \<Rightarrow> u32" where
  "big_sigma0 x = rotr 2 x XOR rotr 13 x XOR rotr 22 x"

definition big_sigma1 :: "u32 \<Rightarrow> u32" where
  "big_sigma1 x = rotr 6 x XOR rotr 11 x XOR rotr 25 x"

definition small_sigma0 :: "u32 \<Rightarrow> u32" where
  "small_sigma0 x = rotr 7 x XOR rotr 18 x XOR drop_bit 3 x"

definition small_sigma1 :: "u32 \<Rightarrow> u32" where
  "small_sigma1 x = rotr 17 x XOR rotr 19 x XOR drop_bit 10 x"

definition sha_ch :: "u32 \<Rightarrow> u32 \<Rightarrow> u32 \<Rightarrow> u32" where
  "sha_ch x y z = (x AND y) XOR (NOT x AND z)"

definition sha_maj :: "u32 \<Rightarrow> u32 \<Rightarrow> u32 \<Rightarrow> u32" where
  "sha_maj x y z = (x AND y) XOR (x AND z) XOR (y AND z)"

text \<open>The eight working variables.\<close>

datatype regs = Regs u32 u32 u32 u32 u32 u32 u32 u32

definition sha_init :: regs where
  "sha_init = Regs 1779033703 3144134277 1013904242 2773480762
     1359893119 2600822924 528734635 1541459225"

text \<open>The message schedule is kept as a window of its last sixteen words, oldest first.\<close>

fun next_word :: "u32 list \<Rightarrow> u32" where
  "next_word w = small_sigma1 (w ! 14) + w ! 9 + small_sigma0 (w ! 1) + w ! 0"

fun sha_round :: "u32 \<Rightarrow> u32 \<Rightarrow> regs \<Rightarrow> regs" where
  "sha_round k w (Regs a b c d e f g h) =
     (let t1 = h + big_sigma1 e + sha_ch e f g + k + w;
          t2 = big_sigma0 a + sha_maj a b c
      in Regs (t1 + t2) a b c (d + t1) e f g)"

fun sha_rounds :: "u32 list \<Rightarrow> u32 list \<Rightarrow> regs \<Rightarrow> regs" where
  "sha_rounds [] w r = r"
| "sha_rounds (k # ks) w r = sha_rounds ks (tl w @ [next_word w]) (sha_round k (hd w) r)"

fun add_regs :: "regs \<Rightarrow> regs \<Rightarrow> regs" where
  "add_regs (Regs a b c d e f g h) (Regs a' b' c' d' e' f' g' h') =
     Regs (a + a') (b + b') (c + c') (d + d') (e + e') (f + f') (g + g') (h + h')"

definition compress :: "regs \<Rightarrow> u32 list \<Rightarrow> regs" where
  "compress r w = add_regs r (sha_rounds sha_k w r)"

fun compress_all :: "nat \<Rightarrow> u32 list \<Rightarrow> regs \<Rightarrow> regs" where
  "compress_all 0 w r = r"
| "compress_all (Suc n) w r = compress_all n (drop 16 w) (compress r (take 16 w))"

text \<open>Big-endian words, and the padding to a multiple of 64 bytes.\<close>

fun words_of :: "bytes \<Rightarrow> u32 list" where
  "words_of (a # b # c # d # bs) =
     of_nat (unat a * 16777216 + unat b * 65536 + unat c * 256 + unat d) # words_of bs"
| "words_of _ = []"

definition be_bytes :: "nat \<Rightarrow> nat \<Rightarrow> bytes" where
  "be_bytes n x = map (\<lambda>i. of_nat (x div 256 ^ i)) (rev [0..<n])"

definition sha_pad :: "bytes \<Rightarrow> bytes" where
  "sha_pad m = m @ [128] @ replicate ((119 - length m mod 64) mod 64) 0 @ be_bytes 8 (8 * length m)"

fun regs_bytes :: "regs \<Rightarrow> bytes" where
  "regs_bytes (Regs a b c d e f g h) =
     be_bytes 4 (unat a) @ be_bytes 4 (unat b) @ be_bytes 4 (unat c) @ be_bytes 4 (unat d) @
     be_bytes 4 (unat e) @ be_bytes 4 (unat f) @ be_bytes 4 (unat g) @ be_bytes 4 (unat h)"

definition sha256 :: "bytes \<Rightarrow> bytes" where
  "sha256 m =
     (let p = sha_pad m in regs_bytes (compress_all (length p div 64) (words_of p) sha_init))"

lemma length_be_bytes [simp]: "length (be_bytes n x) = n"
  by (simp add: be_bytes_def)

lemma length_regs_bytes: "length (regs_bytes r) = 32"
  by (cases r) simp

lemma length_sha256 [simp]: "length (sha256 m) = 32"
  by (simp add: sha256_def Let_def length_regs_bytes)

section \<open>Collisions and the digest interface\<close>

definition collides :: "(bytes \<Rightarrow> bytes) \<Rightarrow> bytes \<Rightarrow> bytes \<Rightarrow> bool" where
  "collides H x y = (x \<noteq> y \<and> H x = H y)"

lemma collidesI: "H x = H y \<Longrightarrow> x = y \<or> collides H x y"
  by (auto simp: collides_def)

lemma collides_irrefl [simp]: "\<not> collides H x x"
  by (simp add: collides_def)

section \<open>HMAC\<close>

text \<open>The key, hashed when it is longer than the block of 64 bytes, filled up with zeros.\<close>

definition hmac_key :: "(bytes \<Rightarrow> bytes) \<Rightarrow> bytes \<Rightarrow> bytes" where
  "hmac_key H key =
     (let k = (if 64 < length key then H key else key) in k @ replicate (64 - length k) 0)"

definition hmac_inner :: "(bytes \<Rightarrow> bytes) \<Rightarrow> bytes \<Rightarrow> bytes \<Rightarrow> bytes" where
  "hmac_inner H key data = map (\<lambda>b. b XOR 54) (hmac_key H key) @ data"

definition hmac_outer :: "(bytes \<Rightarrow> bytes) \<Rightarrow> bytes \<Rightarrow> bytes \<Rightarrow> bytes" where
  "hmac_outer H key data = map (\<lambda>b. b XOR 92) (hmac_key H key) @ H (hmac_inner H key data)"

definition hmac_new :: "(bytes \<Rightarrow> bytes) \<Rightarrow> bytes \<Rightarrow> bytes \<Rightarrow> bytes" where
  "hmac_new H key data = H (hmac_outer H key data)"

text \<open>What a digest promises to its clients: its length.\<close>

locale digest32 =
  fixes H :: "bytes \<Rightarrow> bytes"
  assumes digest_length: "length (H m) = 32"
begin

lemma length_hmac_key: "length (hmac_key H key) = 64"
  by (simp add: hmac_key_def Let_def digest_length)

lemma length_hmac_outer: "length (hmac_outer H key data) = 96"
  by (simp add: hmac_outer_def length_hmac_key digest_length)

lemma length_hmac: "length (hmac_new H key data) = 32"
  by (simp add: hmac_new_def digest_length)

text \<open>Equal MACs, under any two keys, mean equal messages or a collision of the inner or the
  outer hash.\<close>

lemma hmac_binds:
  assumes "hmac_new H k d = hmac_new H k' d'"
  shows "d = d' \<or> collides H (hmac_outer H k d) (hmac_outer H k' d')
               \<or> collides H (hmac_inner H k d) (hmac_inner H k' d')"
proof (cases "hmac_outer H k d = hmac_outer H k' d'")
  case True
  then have "H (hmac_inner H k d) = H (hmac_inner H k' d')"
    by (simp add: hmac_outer_def length_hmac_key)
  then consider "hmac_inner H k d = hmac_inner H k' d'"
    | "collides H (hmac_inner H k d) (hmac_inner H k' d')"
    using collidesI by blast
  then show ?thesis
    by cases (simp_all add: hmac_inner_def length_hmac_key)
next
  case False
  with assms show ?thesis by (simp add: hmac_new_def collides_def)
qed

end

interpretation sha: digest32 sha256
  by unfold_locales simp

end
