(* ===== verification/Sha256_Vector.thy ===== *)
theory Sha256_Vector
  imports Sha256
begin

unbundle bit_operations_syntax

text \<open>
  The model of SHA-256 run by the simplifier on the empty message. The simplifier does not
  reduce word numerals modulo \<open>2 ^ 32\<close>, so the words are held as \<open>w32 n\<close> with
  \<open>n < 2 ^ 32\<close> while it runs.
\<close>

definition w32 :: "nat \<Rightarrow> u32" where "w32 n = of_nat n"

lemma w32_add: "w32 a + w32 b = w32 ((a + b) mod 4294967296)"
  by (simp add: w32_def word_of_nat_eq_iff take_bit_nat_def flip: of_nat_add)

lemma w32_xor: "w32 a XOR w32 b = w32 (a XOR b)"
  by (rule bit_word_eqI) (simp add: w32_def bit_simps)

lemma w32_and: "w32 a AND w32 b = w32 (a AND b)"
  by (rule bit_word_eqI) (simp add: w32_def bit_simps)


lemma w32_not: "NOT (w32 a) = w32 (4294967295 XOR a)"
proof (rule bit_word_eqI)
  fix n assume n: "n < LENGTH(32)"
  have "(4294967295 :: nat) = mask 32" by (simp add: mask_eq_exp_minus_1)
  moreover have "bit (mask 32 :: nat) n" using n by (simp add: bit_mask_iff)
  ultimately have "bit (4294967295 :: nat) n" by (simp only:)
  then show "bit (NOT (w32 a)) n = bit (w32 (4294967295 XOR a)) n"
    using n by (simp add: w32_def bit_simps)
qed

lemma bit_small: "a < 4294967296 \<Longrightarrow> bit (a :: nat) k \<Longrightarrow> k < 32"
proof (rule ccontr)
  assume "a < 4294967296" "bit a k" "\<not> k < 32"
  then have "(2 :: nat) ^ 32 \<le> 2 ^ k" by (intro power_increasing) auto
  then have "a < 2 ^ k" using \<open>a < 4294967296\<close> by simp
  with \<open>bit a k\<close> show False by (simp add: bit_iff_odd)
qed

lemma w32_drop: "a < 4294967296 \<Longrightarrow> drop_bit n (w32 a) = w32 (a div 2 ^ n)"
proof (rule bit_word_eqI)
  fix i assume a: "a < 4294967296" and i: "i < LENGTH(32)"
  show "bit (drop_bit n (w32 a)) i = bit (w32 (a div 2 ^ n)) i"
    using bit_small [OF a, of "i + n"] i
    by (auto simp add: w32_def bit_simps add.commute simp flip: drop_bit_eq_div)
qed

lemma w32_rotr:
  assumes a: "a < 4294967296" and n: "n \<le> 32"
  shows "rotr n (w32 a) = w32 ((a div 2 ^ n) OR ((a mod 2 ^ n) * 2 ^ (32 - n)))"
proof (rule bit_word_eqI)
  fix i assume i: "i < LENGTH(32)"
  have "bit (rotr n (w32 a)) i \<longleftrightarrow> bit a (i + n) \<or> (32 - n \<le> i \<and> bit a (i - (32 - n)))"
    using bit_small [OF a, of "i + n"] i n
    by (auto simp add: rotr_def w32_def bit_simps add.commute)
  moreover have "bit (w32 ((a div 2 ^ n) OR ((a mod 2 ^ n) * 2 ^ (32 - n)))) i \<longleftrightarrow>
      bit a (i + n) \<or> (32 - n \<le> i \<and> i - (32 - n) < n \<and> bit a (i - (32 - n)))"
    using i unfolding w32_def
    by (auto simp add: bit_simps add.commute simp flip: drop_bit_eq_div take_bit_eq_mod push_bit_eq_mult)
  ultimately show "bit (rotr n (w32 a)) i = bit (w32 ((a div 2 ^ n) OR ((a mod 2 ^ n) * 2 ^ (32 - n)))) i"
    using i n by auto
qed

lemma numeral_w32: "(numeral k :: u32) = w32 (numeral k)" "(0 :: u32) = w32 0"
  by (simp_all add: w32_def)

lemma unat_w32: "unat (w32 a) = a mod 4294967296"
  by (simp add: w32_def unat_of_nat take_bit_nat_def)

lemmas w32_eval = w32_add w32_xor w32_and w32_not w32_drop w32_rotr unat_w32
  big_sigma0_def big_sigma1_def small_sigma0_def small_sigma1_def sha_ch_def sha_maj_def Let_def

lemmas sha_tables = sha_k_def [unfolded numeral_w32] sha_init_def [unfolded numeral_w32]

lemma replicate_unroll: "replicate (numeral k) x = x # replicate (pred_numeral k) x"
  by (simp add: numeral_eq_Suc)

lemma sha256_empty:
  "sha256 [] =
    [227, 176, 196, 66, 152, 252, 28, 20, 154, 251, 244, 200, 153, 111, 185, 36,
     39, 174, 65, 228, 100, 155, 147, 76, 164, 149, 153, 27, 120, 82, 184, 85]"
proof -
  have pad: "sha_pad [] = 128 # replicate 63 0"
    by (simp add: sha_pad_def be_bytes_def upt_rec replicate_unroll)
  have "words_of (128 # replicate 63 0) = w32 2147483648 # replicate 15 (w32 0)"
    by (simp add: replicate_unroll w32_def)
  moreover have "length (sha_pad []) div 64 = Suc 0" by (simp add: pad)
  ultimately have "sha256 [] = regs_bytes (add_regs sha_init
      (sha_rounds sha_k (w32 2147483648 # replicate 15 (w32 0)) sha_init))"
    by (simp add: sha256_def pad compress_def replicate_unroll)
  also have "sha_rounds sha_k (w32 2147483648 # replicate 15 (w32 0)) sha_init =
      Regs (w32 2040978907) (w32 3717492111) (w32 1586299222) (w32 4095722474)
        (w32 3600805733) (w32 3382061760) (w32 2232532848) (w32 477227836)"
    by (simp add: sha_tables replicate_unroll w32_eval)
  finally show ?thesis
    by (simp add: sha_tables w32_eval be_bytes_def upt_rec)
qed

end
