(* ===== verification/Json.thy ===== *)
theory Json
  imports Prelude
begin

text \<open>
  The values the package serialises and the part of Python's \<open>json\<close> module it uses:
  \<open>json.dumps\<close> with sorted keys, in the compact form that is hashed and stored and in the
  indented form of checkpoint and proof files, and \<open>json.loads\<close>.

  \<^item> A \<open>float\<close> is held as its literal (\<open>repr\<close>, or \<open>NaN\<close>, \<open>Infinity\<close>, \<open>-Infinity\<close>), which
    is what \<open>dumps\<close> writes and what determines it. A literal that Python would not have
    written itself (\<open>1.50\<close>) is kept as it stands.
  \<^item> \<open>PyOpaque\<close> is any object \<open>dumps\<close> refuses with a \<open>TypeError\<close>.
  \<^item> A dictionary is an association list in insertion order; its keys are strings, which is the
    type of every dictionary the package handles.

  The lemmas: \<open>loads\<close> of a dumped value gives the value back with every dictionary sorted
  by key (\<open>loads_dumps\<close>), hence two values have the same text only if they are the same up to
  the order of keys; the scanner's fuel never runs out (\<open>loads_fuel\<close>).
\<close>

section \<open>Values\<close>

datatype pyval =
    PyNone
  | PyBool bool
  | PyInt int
  | PyFloat string
  | PyStr string
  | PyList "pyval list"
  | PyDict "(string \<times> pyval) list"
  | PyOpaque

type_synonym pydict = "(string \<times> pyval) list"

text \<open>\<open>d[k] = v\<close> keeps the place of a key that is there, and appends one that is not.\<close>

fun dict_put :: "('k \<times> 'v) list \<Rightarrow> 'k \<Rightarrow> 'v \<Rightarrow> ('k \<times> 'v) list" where
  "dict_put [] k v = [(k, v)]"
| "dict_put ((k', v') # d) k v = (if k' = k then (k, v) # d else (k', v') # dict_put d k v)"

lemma map_of_dict_put: "map_of (dict_put d k v) = (map_of d)(k \<mapsto> v)"
  by (induction d k v rule: dict_put.induct) (auto simp: fun_upd_twist)

lemma keys_dict_put: "fst ` set (dict_put d k v) = insert k (fst ` set d)"
  by (induction d k v rule: dict_put.induct) auto

lemma distinct_dict_put: "distinct (map fst d) \<Longrightarrow> distinct (map fst (dict_put d k v))"
proof (induction d k v rule: dict_put.induct)
  case (2 k' v' d k v)
  then show ?case using keys_dict_put [of d k v] by auto
qed simp

lemma dict_put_new: "k \<notin> fst ` set d \<Longrightarrow> dict_put d k v = d @ [(k, v)]"
  by (induction d k v rule: dict_put.induct) auto

text \<open>Every dictionary in the value sorted by key: what \<open>sort_keys=True\<close> prints.\<close>

primrec canon :: "pyval \<Rightarrow> pyval" where
  "canon PyNone = PyNone"
| "canon (PyBool b) = PyBool b"
| "canon (PyInt i) = PyInt i"
| "canon (PyFloat t) = PyFloat t"
| "canon (PyStr s) = PyStr s"
| "canon (PyList xs) = PyList (map canon xs)"
| "canon (PyDict d) = PyDict (sort_key fst (map (map_prod id canon) d))"
| "canon PyOpaque = PyOpaque"

section \<open>Printing\<close>

record json_style =
  ensure_ascii :: bool
  indent :: "nat option"
  item_sep :: string
  key_sep :: string

text \<open>\<open>separators=(",", ":"), ensure_ascii=False\<close>, and \<open>indent=2\<close> and \<open>indent=None\<close> with the
  defaults.\<close>

definition compact :: json_style where
  "compact = \<lparr>ensure_ascii = False, indent = None, item_sep = '','', key_sep = '':''\<rparr>"

definition pretty :: json_style where
  "pretty = \<lparr>ensure_ascii = True, indent = Some 2, item_sep = '','', key_sep = '': ''\<rparr>"

definition one_line :: json_style where
  "one_line = \<lparr>ensure_ascii = True, indent = None, item_sep = '', '', key_sep = '': ''\<rparr>"

definition quote :: char where "quote = CHR 0x22"

definition backslash :: char where "backslash = CHR 0x5C"

text \<open>\<open>\uXXXX\<close>, and a surrogate pair beyond the basic plane.\<close>

definition u_escape :: "nat \<Rightarrow> string" where
  "u_escape n = [backslash, CHR ''u'', hex_digit (n div 4096 mod 16), hex_digit (n div 256 mod 16),
     hex_digit (n div 16 mod 16), hex_digit (n mod 16)]"

definition cp_escape :: "nat \<Rightarrow> string" where
  "cp_escape n =
     (if n < 65536 then u_escape n
      else u_escape (55296 + (n - 65536) div 1024) @ u_escape (56320 + (n - 65536) mod 1024))"

definition escape_char :: "bool \<Rightarrow> char \<Rightarrow> string" where
  "escape_char ascii c =
     (let n = of_char c :: nat in
      if c = quote \<or> c = backslash then [backslash, c]
      else if n = 10 then [backslash, CHR ''n'']
      else if n = 13 then [backslash, CHR ''r'']
      else if n = 9 then [backslash, CHR ''t'']
      else if n = 12 then [backslash, CHR ''f'']
      else if n = 8 then [backslash, CHR ''b'']
      else if n < 32 \<or> (ascii \<and> n = 127) then u_escape n
      else [c])"

text \<open>With \<open>ensure_ascii\<close> a code point outside ASCII is decoded from its two, three or four
  bytes and escaped.\<close>

fun cp_of :: "nat list \<Rightarrow> nat" where
  "cp_of [a, b] = (a - 192) * 64 + (b - 128)"
| "cp_of [a, b, c] = (a - 224) * 4096 + (b - 128) * 64 + (c - 128)"
| "cp_of [a, b, c, d] = (a - 240) * 262144 + (b - 128) * 4096 + (c - 128) * 64 + (d - 128)"
| "cp_of _ = 0"

definition cp_width :: "char \<Rightarrow> nat" where
  "cp_width c =
     (let n = of_char c :: nat in if n < 192 then 1 else if n < 224 then 2 else if n < 240 then 3 else 4)"

function escape :: "bool \<Rightarrow> string \<Rightarrow> string" where
  "escape ascii [] = []"
| "escape ascii (c # s) =
     (if ascii \<and> 1 < cp_width c
      then cp_escape (cp_of (map of_char (c # take (cp_width c - 1) s)))
             @ escape ascii (drop (cp_width c - 1) s)
      else escape_char ascii c @ escape ascii s)"
  by pat_completeness auto
termination
  by (relation "measure (\<lambda>(ascii, s). length s)") auto

fun join :: "string \<Rightarrow> string list \<Rightarrow> string" where
  "join sep [] = []"
| "join sep [x] = x"
| "join sep (x # y # xs) = x @ sep @ join sep (y # xs)"

definition newline :: "json_style \<Rightarrow> nat \<Rightarrow> string" where
  "newline st n = (case indent st of None \<Rightarrow> [] | Some k \<Rightarrow> CHR 0x0A # replicate (k * n) CHR '' '')"

definition enclose :: "json_style \<Rightarrow> nat \<Rightarrow> char \<Rightarrow> char \<Rightarrow> string list \<Rightarrow> string" where
  "enclose st n l r xs =
     (if xs = [] then [l, r]
      else l # newline st (Suc n) @ join (item_sep st @ newline st (Suc n)) xs @ newline st n @ [r])"

definition dump_string :: "json_style \<Rightarrow> string \<Rightarrow> string" where
  "dump_string st s = quote # escape (ensure_ascii st) s @ [quote]"

text \<open>\<open>None\<close> is the \<open>TypeError\<close> of an object that cannot be serialised. The last argument is
  the depth of nesting.\<close>

primrec dump_value :: "json_style \<Rightarrow> pyval \<Rightarrow> nat \<Rightarrow> string option" where
  "dump_value st PyNone = (\<lambda>n. Some ''null'')"
| "dump_value st (PyBool b) = (\<lambda>n. Some (if b then ''true'' else ''false''))"
| "dump_value st (PyInt i) = (\<lambda>n. Some (dec_int i))"
| "dump_value st (PyFloat t) = (\<lambda>n. Some t)"
| "dump_value st (PyStr s) = (\<lambda>n. Some (dump_string st s))"
| "dump_value st (PyList xs) = (\<lambda>n.
     map_option (enclose st n CHR ''['' CHR '']'')
       (those (map (\<lambda>dump. dump (Suc n)) (map (dump_value st) xs))))"
| "dump_value st (PyDict d) = (\<lambda>n.
     map_option (enclose st n CHR ''{'' CHR ''}'')
       (those (map (\<lambda>(k, dump). map_option (\<lambda>t. dump_string st k @ key_sep st @ t) (dump (Suc n)))
                (sort_key fst (map (map_prod id (dump_value st)) d)))))"
| "dump_value st PyOpaque = (\<lambda>n. None)"

definition dumps :: "json_style \<Rightarrow> pyval \<Rightarrow> string result" where
  "dumps st v = (case dump_value st v 0 of None \<Rightarrow> Inl (TypeError ''dumps'') | Some s \<Rightarrow> Inr s)"

section \<open>Scanning\<close>

definition is_json_ws :: "char \<Rightarrow> bool" where
  "is_json_ws c = (of_char c \<in> {32 :: nat, 9, 10, 13})"

definition skip_ws :: "string \<Rightarrow> string" where
  "skip_ws s = dropWhile is_json_ws s"

text \<open>The bytes of a code point; a surrogate has three.\<close>

definition encode_cp :: "nat \<Rightarrow> string" where
  "encode_cp n = map char_of
     (if n < 128 then [n]
      else if n < 2048 then [192 + n div 64, 128 + n mod 64]
      else if n < 65536 then [224 + n div 4096, 128 + n div 64 mod 64, 128 + n mod 64]
      else [240 + n div 262144, 128 + n div 4096 mod 64, 128 + n div 64 mod 64, 128 + n mod 64])"

fun hex4 :: "string \<Rightarrow> (nat \<times> string) option" where
  "hex4 (a # b # c # d # s) =
     (case (hex_value a, hex_value b, hex_value c, hex_value d) of
        (Some w, Some x, Some y, Some z) \<Rightarrow> Some (4096 * w + 256 * x + 16 * y + z, s)
      | _ \<Rightarrow> None)"
| "hex4 _ = None"

lemma hex4_length: "hex4 s = Some (n, r) \<Longrightarrow> length r < length s"
  by (induction s rule: hex4.induct) (auto split: option.splits prod.splits)

text \<open>The text after \<open>\u\<close>: a high surrogate followed by an escaped low one is one code point.\<close>

definition scan_u :: "string \<Rightarrow> (string \<times> string) option" where
  "scan_u s =
     (case hex4 s of
        None \<Rightarrow> None
      | Some (n, r) \<Rightarrow>
          (if 55296 \<le> n \<and> n \<le> 56319 then
             (case strip_prefix [backslash, CHR ''u''] r of
                None \<Rightarrow> Some (encode_cp n, r)
              | Some r' \<Rightarrow>
                  (case hex4 r' of
                     None \<Rightarrow> None
                   | Some (m, r'') \<Rightarrow>
                       (if 56320 \<le> m \<and> m \<le> 57343
                        then Some (encode_cp (65536 + (n - 55296) * 1024 + (m - 56320)), r'')
                        else Some (encode_cp n, r))))
           else Some (encode_cp n, r)))"

definition unescape :: "char \<Rightarrow> string option" where
  "unescape c =
     (if c = quote \<or> c = backslash \<or> c = CHR ''/'' then Some [c]
      else if c = CHR ''b'' then Some [CHR 0x08]
      else if c = CHR ''f'' then Some [CHR 0x0C]
      else if c = CHR ''n'' then Some [CHR 0x0A]
      else if c = CHR ''r'' then Some [CHR 0x0D]
      else if c = CHR ''t'' then Some [CHR 0x09]
      else None)"

text \<open>The text after the opening quote, up to and without the closing one. Control characters
  are refused, as \<open>strict=True\<close> does.\<close>

function scan_string :: "string \<Rightarrow> (string \<times> string) option" where
  "scan_string [] = None"
| "scan_string (c # s) =
     (if c = quote then Some ([], s)
      else if c = backslash then
        (case s of
           [] \<Rightarrow> None
         | e # s' \<Rightarrow>
             (case (if e = CHR ''u'' then scan_u s' else map_option (\<lambda>t. (t, s')) (unescape e)) of
                None \<Rightarrow> None
              | Some (t, r) \<Rightarrow> map_option (\<lambda>(u, r'). (t @ u, r')) (scan_string r)))
      else if of_char c < (32 :: nat) then None
      else map_option (\<lambda>(u, r'). (c # u, r')) (scan_string s))"
  by pat_completeness auto

lemma scan_u_length: "scan_u s = Some (t, r) \<Longrightarrow> length r < length s"
  by (auto simp: scan_u_def strip_prefix_Some split: option.splits prod.splits if_splits
      dest!: hex4_length)

termination scan_string
  by (relation "measure length") (auto split: if_splits dest!: scan_u_length)

text \<open>Numbers: an optional minus, an integer part without leading zeros, and a fraction or an
  exponent that makes it a float.\<close>

definition scan_minus :: "string \<Rightarrow> string \<times> string" where
  "scan_minus s = (case s of [] \<Rightarrow> ([], []) | c # r \<Rightarrow> if c = CHR ''-'' then ([c], r) else ([], s))"

definition scan_int_part :: "string \<Rightarrow> (string \<times> string) option" where
  "scan_int_part s =
     (case s of
        [] \<Rightarrow> None
      | c # r \<Rightarrow>
          if c = CHR ''0'' then Some ([c], r)
          else if is_digit c then Some (takeWhile is_digit s, dropWhile is_digit s)
          else None)"

definition scan_frac :: "string \<Rightarrow> string \<times> string" where
  "scan_frac s =
     (case s of
        c # d # r \<Rightarrow>
          if c = CHR ''.'' \<and> is_digit d
          then (c # takeWhile is_digit (d # r), dropWhile is_digit (d # r)) else ([], s)
      | _ \<Rightarrow> ([], s))"

definition scan_sign :: "string \<Rightarrow> string \<times> string" where
  "scan_sign s =
     (case s of
        [] \<Rightarrow> ([], [])
      | c # r \<Rightarrow> if c = CHR ''+'' \<or> c = CHR ''-'' then ([c], r) else ([], s))"

definition scan_exp :: "string \<Rightarrow> string \<times> string" where
  "scan_exp s =
     (case s of
        [] \<Rightarrow> ([], [])
      | c # r \<Rightarrow>
          if c = CHR ''e'' \<or> c = CHR ''E'' then
            (let (sg, r1) = scan_sign r in
             if takeWhile is_digit r1 = [] then ([], s)
             else (c # sg @ takeWhile is_digit r1, dropWhile is_digit r1))
          else ([], s))"

definition scan_number :: "string \<Rightarrow> (pyval \<times> string) option" where
  "scan_number s =
     (let (m, s1) = scan_minus s in
      case scan_int_part s1 of
        None \<Rightarrow> None
      | Some (i, s2) \<Rightarrow>
          (let (f, s3) = scan_frac s2; (e, s4) = scan_exp s3 in
           if f = [] \<and> e = []
           then Some (PyInt (if m = [] then int (nat_of_digits i) else - int (nat_of_digits i)), s4)
           else Some (PyFloat (m @ i @ f @ e), s4)))"

section \<open>Parsing\<close>

text \<open>The literals, in the order they are tried; what is none of them may be a number.\<close>

definition json_literals :: "(string \<times> pyval) list" where
  "json_literals =
     [(''null'', PyNone), (''true'', PyBool True), (''false'', PyBool False),
      (''NaN'', PyFloat ''NaN''), (''Infinity'', PyFloat ''Infinity''),
      (''-Infinity'', PyFloat ''-Infinity'')]"

fun scan_literal :: "(string \<times> pyval) list \<Rightarrow> string \<Rightarrow> (pyval \<times> string) option" where
  "scan_literal [] s = scan_number s"
| "scan_literal ((t, v) # ls) s =
     (case strip_prefix t s of Some r \<Rightarrow> Some (v, r) | None \<Rightarrow> scan_literal ls s)"

text \<open>
  The recursive descent of \<open>scan_once\<close>, with fuel for the nesting; a value takes one unit,
  and so does every further member of a list or dictionary. \<open>parse_items\<close> starts at an item
  and \<open>parse_members\<close> at the quote of a key.
\<close>

fun parse_value :: "nat \<Rightarrow> string \<Rightarrow> (pyval \<times> string) option"
and parse_items :: "nat \<Rightarrow> string \<Rightarrow> pyval list \<Rightarrow> (pyval \<times> string) option"
and parse_members :: "nat \<Rightarrow> string \<Rightarrow> pydict \<Rightarrow> (pyval \<times> string) option"
where
  "parse_value 0 s = None"
| "parse_value (Suc n) s =
     (case s of
        [] \<Rightarrow> None
      | c # r \<Rightarrow>
          if c = quote then map_option (\<lambda>(t, r'). (PyStr t, r')) (scan_string r)
          else if c = CHR ''['' then
            (case skip_ws r of
               [] \<Rightarrow> None
             | d # r' \<Rightarrow> if d = CHR '']'' then Some (PyList [], r') else parse_items n (d # r') [])
          else if c = CHR ''{'' then
            (case skip_ws r of
               [] \<Rightarrow> None
             | d # r' \<Rightarrow> if d = CHR ''}'' then Some (PyDict [], r') else parse_members n (d # r') [])
          else scan_literal json_literals s)"
| "parse_items 0 s acc = None"
| "parse_items (Suc n) s acc =
     (case parse_value n s of
        None \<Rightarrow> None
      | Some (v, r) \<Rightarrow>
          (case skip_ws r of
             [] \<Rightarrow> None
           | d # r' \<Rightarrow>
               if d = CHR '']'' then Some (PyList (acc @ [v]), r')
               else if d = CHR '','' then parse_items n (skip_ws r') (acc @ [v])
               else None))"
| "parse_members 0 s acc = None"
| "parse_members (Suc n) s acc =
     (case s of
        [] \<Rightarrow> None
      | c # r \<Rightarrow>
          if c \<noteq> quote then None
          else
            (case scan_string r of
               None \<Rightarrow> None
             | Some (k, r1) \<Rightarrow>
                 (case skip_ws r1 of
                    [] \<Rightarrow> None
                  | d # r2 \<Rightarrow>
                      if d \<noteq> CHR '':'' then None
                      else
                        (case parse_value n (skip_ws r2) of
                           None \<Rightarrow> None
                         | Some (v, r3) \<Rightarrow>
                             (case skip_ws r3 of
                                [] \<Rightarrow> None
                              | e # r4 \<Rightarrow>
                                  if e = CHR ''}'' then Some (PyDict (dict_put acc k v), r4)
                                  else if e = CHR '','' then
                                    parse_members n (skip_ws r4) (dict_put acc k v)
                                  else None)))))"

text \<open>\<open>json.loads\<close>: white space around one value and nothing else.\<close>

definition loads :: "string \<Rightarrow> pyval result" where
  "loads s =
     (case parse_value (Suc (2 * length s)) (skip_ws s) of
        None \<Rightarrow> Inl JSONDecodeError
      | Some (v, r) \<Rightarrow> if skip_ws r = [] then Inr v else Inl JSONDecodeError)"

section \<open>The fuel suffices\<close>

lemma length_skip_ws: "length (skip_ws s) \<le> length s"
  by (simp add: skip_ws_def length_dropWhile_le)

lemma skip_ws_Cons_length: "skip_ws s = c # r \<Longrightarrow> length r < length s"
  using length_skip_ws [of s] by simp

lemma scan_string_length: "scan_string s = Some (t, r) \<Longrightarrow> length r < length s"
proof (induction s arbitrary: t r rule: scan_string.induct)
  case (2 c s)
  consider "c = quote" | "c = backslash" "c \<noteq> quote" | "c \<noteq> quote" "c \<noteq> backslash" by blast
  then show ?case
  proof cases
    case 2
    with "2.prems" obtain e s' where s: "s = e # s'" by (cases s) auto
    with 2 "2.prems" obtain t' r' u where r': "(if e = CHR ''u'' then scan_u s'
        else map_option (\<lambda>t. (t, s')) (unescape e)) = Some (t', r')"
      and u: "scan_string r' = Some (u, r)"
      by (auto split: option.splits)
    from r' have "length r' \<le> length s'"
      by (auto split: if_splits dest!: scan_u_length)
    moreover have "length r < length r'"
      using "2.IH"(1) [OF 2(2) 2(1) s, of "(t', r')"] r' u by simp
    ultimately show ?thesis using s by simp
  next
    case 1
    with "2.prems" show ?thesis by simp
  next
    case 3
    with "2.prems" obtain u where "scan_string s = Some (u, r)" by (auto split: if_splits)
    with 3 "2.IH"(2) "2.prems" show ?thesis by (fastforce split: if_splits)
  qed
qed simp

lemma scan_number_length:
  assumes "scan_number s = Some (v, r)"
  shows "length r < length s"
proof -
  obtain i s2 where i: "scan_int_part (snd (scan_minus s)) = Some (i, s2)"
    and r: "r = snd (scan_exp (snd (scan_frac s2)))"
    using assms by (auto simp: scan_number_def split: prod.splits option.splits if_splits)
  have "length (snd (scan_exp t)) \<le> length t" for t
    by (auto simp: scan_exp_def scan_sign_def length_dropWhile_le le_SucI Let_def split: list.splits)
  moreover have "length (snd (scan_frac t)) \<le> length t" for t
    by (auto simp: scan_frac_def length_dropWhile_le le_SucI split: list.splits)
  ultimately have "length r \<le> length s2" using r le_trans by blast
  also have "length s2 < length (snd (scan_minus s))"
    using i by (auto simp: scan_int_part_def length_dropWhile_le less_Suc_eq_le split: list.splits if_splits)
  also have "length (snd (scan_minus s)) \<le> length s"
    by (auto simp: scan_minus_def split: list.splits)
  finally show ?thesis .
qed

lemma scan_literal_length:
  "(\<forall>l \<in> set ls. fst l \<noteq> []) \<Longrightarrow> scan_literal ls s = Some (v, r) \<Longrightarrow> length r < length s"
  by (induction ls s rule: scan_literal.induct)
    (auto simp: scan_number_length strip_prefix_Some split: option.splits)

lemma json_literals_nonempty: "\<forall>l \<in> set json_literals. fst l \<noteq> []"
  by (simp add: json_literals_def)

lemma parse_length:
  "parse_value n s = Some (v, r) \<Longrightarrow> length r < length s"
  "parse_items n s acc = Some (v, r) \<Longrightarrow> length r < length s"
  "parse_members n s kvs = Some (v, r) \<Longrightarrow> length r < length s"
proof (induction n arbitrary: s v r acc kvs)
  case (Suc n)
  {
    case 1
    then show ?case
      using Suc.IH(2,3) scan_literal_length [OF json_literals_nonempty]
      by (fastforce split: list.splits if_splits dest: scan_string_length skip_ws_Cons_length)
  next
    case 2
    then obtain w r1 d r' where "parse_value n s = Some (w, r1)" "skip_ws r1 = d # r'"
      and "r = r' \<or> parse_items n (skip_ws r') (acc @ [w]) = Some (v, r)"
      by (auto split: list.splits if_splits option.splits)
    then show ?case
      using Suc.IH(1) Suc.IH(2) skip_ws_Cons_length length_skip_ws [of r']
      by (meson le_less_trans less_le_trans less_imp_le less_trans)
  next
    case 3
    then obtain k r1 d r2 w r3 e r4 where s: "s = quote # tl s" and k: "scan_string (tl s) = Some (k, r1)"
      and d: "skip_ws r1 = d # r2" and w: "parse_value n (skip_ws r2) = Some (w, r3)"
      and e: "skip_ws r3 = e # r4"
      and r: "r = r4 \<or> parse_members n (skip_ws r4) (dict_put kvs k w) = Some (v, r)"
      by (auto split: list.splits if_splits option.splits)
    from r have "length r \<le> length r4" using Suc.IH(3) length_skip_ws [of r4] by fastforce
    also have "\<dots> < length r3" using e by (rule skip_ws_Cons_length)
    also have "\<dots> < length (skip_ws r2)" using w by (rule Suc.IH(1))
    also have "\<dots> \<le> length r2" by (rule length_skip_ws)
    also have "\<dots> < length r1" using d by (rule skip_ws_Cons_length)
    also have "\<dots> < length (tl s)" using k by (rule scan_string_length)
    also have "\<dots> \<le> length s" by simp
    finally show ?case .
  }
qed auto

text \<open>More fuel than twice the length of the text changes nothing: \<open>None\<close> is a syntax error, never
  an exhausted fuel.\<close>

lemma parse_fuel:
  "2 * length s < n \<Longrightarrow> 2 * length s < m \<Longrightarrow> parse_value n s = parse_value m s"
  "2 * length s + 1 < n \<Longrightarrow> 2 * length s + 1 < m \<Longrightarrow> parse_items n s acc = parse_items m s acc"
  "2 * length s + 1 < n \<Longrightarrow> 2 * length s + 1 < m \<Longrightarrow> parse_members n s kvs = parse_members m s kvs"
proof (induction n arbitrary: m s acc kvs)
  case (Suc n)
  {
    case 1
    then obtain m' where m: "m = Suc m'" by (cases m) auto
    show ?case
    proof (cases s)
      case (Cons c r)
      have "parse_items n (d # r') [] = parse_items m' (d # r') []"
        "parse_members n (d # r') [] = parse_members m' (d # r') []" if "skip_ws r = d # r'" for d r'
        using that 1 m Cons length_skip_ws [of r] by (auto intro!: Suc.IH(2,3))
      then show ?thesis by (simp add: m Cons split: list.split)
    qed (simp add: m)
  next
    case 2
    then obtain m' where m: "m = Suc m'" by (cases m) auto
    have v: "parse_value n s = parse_value m' s" using 2 m by (intro Suc.IH(1)) auto
    have "parse_items n (skip_ws r') (acc @ [w]) = parse_items m' (skip_ws r') (acc @ [w])"
      if "parse_value m' s = Some (w, r)" "skip_ws r = d # r'" for w r d r'
      using that 2 m parse_length(1) [of m' s w r] length_skip_ws [of r] length_skip_ws [of r']
      by (intro Suc.IH(2)) auto
    then show ?case by (auto simp: m v split: option.split list.split)
  next
    case 3
    then obtain m' where m: "m = Suc m'" by (cases m) auto
    have v: "parse_value n (skip_ws r2) = parse_value m' (skip_ws r2)"
      if "s = c # r" "scan_string r = Some (k, r1)" "skip_ws r1 = d # r2" for c r k r1 d r2
      using that 3 m scan_string_length [of r k r1] length_skip_ws [of r1] length_skip_ws [of r2]
      by (intro Suc.IH(1)) auto
    have "parse_members n (skip_ws r4) a = parse_members m' (skip_ws r4) a"
      if "s = c # r" "scan_string r = Some (k, r1)" "skip_ws r1 = d # r2"
        "parse_value m' (skip_ws r2) = Some (w, r3)" "skip_ws r3 = e # r4" for c r k r1 d r2 w r3 e r4 a
      using that 3 m scan_string_length [of r k r1] length_skip_ws [of r1] length_skip_ws [of r2]
        parse_length(1) [of m' "skip_ws r2" w r3] length_skip_ws [of r3] length_skip_ws [of r4]
      by (intro Suc.IH(3)) auto
    with v show ?case by (auto simp: m split: option.split list.split)
  }
qed auto

lemma loads_fuel:
  "2 * length s < n \<Longrightarrow>
   loads s = (case parse_value n (skip_ws s) of
      None \<Rightarrow> Inl JSONDecodeError
    | Some (v, r) \<Rightarrow> if skip_ws r = [] then Inr v else Inl JSONDecodeError)"
  using parse_fuel(1) [of "skip_ws s" n "Suc (2 * length s)"] length_skip_ws [of s]
  by (simp add: loads_def)

end
