(* ===== verification/Json_Roundtrip.thy ===== *)
theory Json_Roundtrip
  imports Json
begin

text \<open>
  Parsing what was printed. \<open>wf_value\<close> says what a Python value satisfies by itself: a float's
  literal is one, the keys of a dictionary are distinct. With \<open>ensure_ascii\<close> the round trip is
  stated for ASCII strings, which is what the package's indented files hold but for names
  chosen by the caller.
\<close>

section \<open>Well-formed values\<close>

definition float_text :: "string \<Rightarrow> bool" where
  "float_text t =
     (t \<in> {''NaN'', ''Infinity'', ''-Infinity''} \<or> scan_number t = Some (PyFloat t, []))"

definition text_ok :: "bool \<Rightarrow> string \<Rightarrow> bool" where
  "text_ok ascii s = (ascii \<longrightarrow> is_ascii s)"

primrec wf_value :: "bool \<Rightarrow> pyval \<Rightarrow> bool" where
  "wf_value a PyNone = True"
| "wf_value a (PyBool b) = True"
| "wf_value a (PyInt i) = True"
| "wf_value a (PyFloat t) = float_text t"
| "wf_value a (PyStr s) = text_ok a s"
| "wf_value a (PyList xs) = list_all id (map (wf_value a) xs)"
| "wf_value a (PyDict d) =
     (distinct (map fst d) \<and> list_all (text_ok a) (map fst d) \<and>
      list_all snd (map (map_prod id (wf_value a)) d))"
| "wf_value a PyOpaque = True"

definition wf_style :: "json_style \<Rightarrow> bool" where
  "wf_style st =
     ((\<exists>w. item_sep st = CHR '','' # w \<and> list_all is_json_ws w) \<and>
      (\<exists>w. key_sep st = CHR '':'' # w \<and> list_all is_json_ws w))"

lemma wf_styles [simp]: "wf_style compact" "wf_style pretty" "wf_style one_line"
  by (auto simp: wf_style_def compact_def pretty_def one_line_def is_json_ws_def)

lemma ensure_ascii_compact [simp]: "ensure_ascii compact = False"
  by (simp add: compact_def)

lemma ensure_ascii_pretty: "ensure_ascii pretty = True"
  by (simp add: pretty_def)

lemma newline_ws: "list_all is_json_ws (newline st n)"
  by (auto simp: newline_def is_json_ws_def list_all_iff split: option.splits)

text \<open>What may follow a value.\<close>

definition value_end :: "string \<Rightarrow> bool" where
  "value_end s = (case s of [] \<Rightarrow> True | c # _ \<Rightarrow> is_json_ws c \<or> c \<in> {CHR '','', CHR '']'', CHR ''}''})"

lemma value_end_Nil [simp]: "value_end []"
  by (simp add: value_end_def)

lemma value_end_ws: "list_all is_json_ws w \<Longrightarrow> value_end (c # s) \<Longrightarrow> value_end (w @ c # s)"
  by (cases w) (auto simp: value_end_def)

lemma skip_ws_append: "list_all is_json_ws w \<Longrightarrow> \<not> is_json_ws c \<Longrightarrow> skip_ws (w @ c # s) = c # s"
  by (induction w) (auto simp: skip_ws_def)

lemma skip_ws_all: "list_all is_json_ws w \<Longrightarrow> skip_ws w = []"
  by (induction w) (auto simp: skip_ws_def)

lemma skip_ws_id: "s \<noteq> [] \<Longrightarrow> \<not> is_json_ws (hd s) \<Longrightarrow> skip_ws (s @ t) = s @ t"
  by (cases s) (auto simp: skip_ws_def)

lemma skip_ws_head:
  "list_all is_json_ws w \<Longrightarrow> s \<noteq> [] \<Longrightarrow> \<not> is_json_ws (hd s) \<Longrightarrow> skip_ws (w @ s @ t) = s @ t"
  by (cases s) (auto simp: skip_ws_append)

section \<open>Numbers\<close>

definition numeric :: "char \<Rightarrow> bool" where
  "numeric c = (is_digit c \<or> c \<in> set ''.eE+-'')"

lemma value_end_not_numeric: "value_end (c # s) \<Longrightarrow> \<not> numeric c"
  by (auto simp: value_end_def numeric_def is_digit_def is_json_ws_def)

lemma scan_digits_append:
  assumes "value_end rest"
  shows "takeWhile is_digit (t @ rest) = takeWhile is_digit t"
    and "dropWhile is_digit (t @ rest) = dropWhile is_digit t @ rest"
  using assms value_end_not_numeric
  by (induction t; cases rest; force simp: numeric_def)+

lemma scan_minus_append:
  "value_end rest \<Longrightarrow> scan_minus (t @ rest) = (fst (scan_minus t), snd (scan_minus t) @ rest)"
  using value_end_not_numeric
  by (cases t; cases rest) (force simp: scan_minus_def numeric_def)+

lemma scan_int_part_append:
  "value_end rest \<Longrightarrow>
   scan_int_part (t @ rest) = map_option (\<lambda>(v, r). (v, r @ rest)) (scan_int_part t)"
  using value_end_not_numeric scan_digits_append [of rest t]
  by (cases t; cases rest) (force simp: scan_int_part_def numeric_def is_digit_def)+

lemma scan_frac_append:
  assumes "value_end rest"
  shows "scan_frac (t @ rest) = (fst (scan_frac t), snd (scan_frac t) @ rest)"
proof (cases t)
  case Nil
  with assms show ?thesis
    using value_end_not_numeric
    by (cases rest) (force simp: scan_frac_def numeric_def split: list.splits)+
next
  case (Cons c t')
  show ?thesis
  proof (cases t')
    case Nil
    with assms Cons show ?thesis
      using value_end_not_numeric
      by (cases rest) (force simp: scan_frac_def numeric_def)+
  next
    case (Cons d t'')
    with \<open>t = c # t'\<close> scan_digits_append [OF assms, of t''] show ?thesis
      by (simp add: scan_frac_def)
  qed
qed

lemma scan_sign_append:
  "value_end rest \<Longrightarrow> scan_sign (t @ rest) = (fst (scan_sign t), snd (scan_sign t) @ rest)"
  using value_end_not_numeric
  by (cases t; cases rest) (force simp: scan_sign_def numeric_def)+

lemma scan_exp_append:
  assumes "value_end rest"
  shows "scan_exp (t @ rest) = (fst (scan_exp t), snd (scan_exp t) @ rest)"
proof (cases t)
  case Nil
  with assms show ?thesis
    using value_end_not_numeric
    by (cases rest) (force simp: scan_exp_def numeric_def)+
next
  case (Cons c t')
  obtain sg r where sg: "scan_sign t' = (sg, r)" by fastforce
  with scan_sign_append [OF assms, of t'] have "scan_sign (t' @ rest) = (sg, r @ rest)" by simp
  with Cons sg scan_digits_append [OF assms, of r] show ?thesis
    by (simp add: scan_exp_def)
qed

lemma scan_number_append:
  assumes "value_end rest"
  shows "scan_number (t @ rest) = map_option (\<lambda>(v, r). (v, r @ rest)) (scan_number t)"
proof -
  obtain m s1 where m: "scan_minus t = (m, s1)" by fastforce
  with scan_minus_append [OF assms, of t] have m': "scan_minus (t @ rest) = (m, s1 @ rest)" by simp
  show ?thesis
  proof (cases "scan_int_part s1")
    case None
    with m m' scan_int_part_append [OF assms, of s1] show ?thesis by (simp add: scan_number_def)
  next
    case (Some p)
    obtain i s2 where p: "p = (i, s2)" by fastforce
    obtain f s3 where f: "scan_frac s2 = (f, s3)" by fastforce
    obtain e s4 where e: "scan_exp s3 = (e, s4)" by fastforce
    from scan_frac_append [OF assms, of s2] scan_exp_append [OF assms, of s3] f e
    have "scan_frac (s2 @ rest) = (f, s3 @ rest)" "scan_exp (s3 @ rest) = (e, s4 @ rest)" by auto
    with m m' Some p f e scan_int_part_append [OF assms, of s1] show ?thesis
      by (simp add: scan_number_def)
  qed
qed

lemma takeWhile_dec_nat [simp]: "takeWhile is_digit (dec_nat n) = dec_nat n"
  using dec_nat_digits [of n] by (simp add: takeWhile_eq_all_conv list_all_iff)

lemma dropWhile_dec_nat [simp]: "dropWhile is_digit (dec_nat n) = []"
  using dec_nat_digits [of n] by (simp add: dropWhile_eq_Nil_conv list_all_iff)

lemma scan_int_part_dec_nat: "scan_int_part (dec_nat n) = Some (dec_nat n, [])"
proof (cases "n = 0")
  case True
  then show ?thesis by (simp add: scan_int_part_def)
next
  case False
  obtain c r where cr: "dec_nat n = c # r" using dec_nat_digits [of n] by (cases "dec_nat n") auto
  from False dec_nat_leading [of n] cr have "c \<noteq> CHR ''0''" by simp
  moreover have "is_digit c" using hd_dec_nat_digit [of n] cr by simp
  moreover have "takeWhile is_digit (c # r) = c # r" "dropWhile is_digit (c # r) = []"
    using takeWhile_dec_nat [of n] dropWhile_dec_nat [of n] cr by auto
  ultimately show ?thesis by (simp add: scan_int_part_def cr)
qed

lemma scan_number_dec_int: "scan_number (dec_int i) = Some (PyInt i, [])"
proof -
  have minus: "scan_minus (dec_nat n) = ([], dec_nat n)" for n
    using hd_dec_nat_digit [of n] is_digit_minus dec_nat_digits [of n]
    by (cases "dec_nat n") (auto simp: scan_minus_def)
  show ?thesis
  proof (cases "i < 0")
    case True
    then show ?thesis
      by (simp add: dec_int_def scan_number_def scan_minus_def scan_int_part_dec_nat
          scan_frac_def scan_exp_def)
  next
    case False
    with minus [of "nat i"] show ?thesis
      by (simp add: dec_int_def scan_number_def scan_int_part_dec_nat scan_frac_def scan_exp_def)
  qed
qed

section \<open>Strings\<close>

lemma hex4_digits:
  assumes "a < 16" "b < 16" "c < 16" "d < 16"
  shows "hex4 (hex_digit a # hex_digit b # hex_digit c # hex_digit d # s) =
    Some (4096 * a + 256 * b + 16 * c + d, s)"
  using assms by (simp add: hex_value_digit)

lemma scan_u_low:
  assumes "n < 128"
  shows "scan_u (drop 2 (u_escape n) @ s) = Some ([char_of n], s)"
proof -
  have "n div 4096 = 0" "n div 256 = 0" "16 * (n div 16 mod 16) + n mod 16 = n"
    using assms by auto
  moreover have "n div 16 < 16" using assms by simp
  ultimately show ?thesis using assms
    by (simp add: u_escape_def scan_u_def hex_value_digit encode_cp_def)
qed

lemma u_escape_head: "u_escape n = backslash # CHR ''u'' # drop 2 (u_escape n)"
  by (simp add: u_escape_def)

lemma scan_string_u:
  assumes "n < 128"
  shows "scan_string (u_escape n @ s) = map_option (\<lambda>(u, r). (char_of n # u, r)) (scan_string s)"
proof -
  have "scan_string (backslash # CHR ''u'' # drop 2 (u_escape n) @ s) =
      map_option (\<lambda>(u, r). (char_of n # u, r)) (scan_string s)"
    using scan_u_low [OF assms, of s] by (simp add: quote_def backslash_def)
  then show ?thesis by (subst u_escape_head) simp
qed

lemma quote_backslash [simp]: "backslash \<noteq> quote" "quote \<noteq> backslash"
  by (simp_all add: quote_def backslash_def)

lemma char_eq_of_nat: "(of_char c :: nat) = of_char d \<Longrightarrow> c = d"
  by simp

lemma scan_string_escaped:
  assumes "unescape e = Some [c]" and "e \<noteq> CHR ''u''"
  shows "scan_string (backslash # e # s) = map_option (\<lambda>(u, r). (c # u, r)) (scan_string s)"
  using assms by (simp add: option.map_comp)

lemma scan_string_escape_char:
  assumes "a \<longrightarrow> of_char c < (128 :: nat)"
  shows "scan_string (escape_char a c @ s) = map_option (\<lambda>(u, r). (c # u, r)) (scan_string s)"
proof -
  let ?n = "of_char c :: nat"
  consider "c = quote \<or> c = backslash" | "?n = 10" | "?n = 13" | "?n = 9" | "?n = 12" | "?n = 8"
    | "c \<noteq> quote" "c \<noteq> backslash" "?n \<notin> {10, 13, 9, 12, 8}" "?n < 32 \<or> (a \<and> ?n = 127)"
    | "c \<noteq> quote" "c \<noteq> backslash" "\<not> ?n < 32" "\<not> (a \<and> ?n = 127)"
    by blast
  then show ?thesis
  proof cases
    case 1
    then have "escape_char a c = [backslash, c]" "unescape c = Some [c]" "c \<noteq> CHR ''u''"
      by (auto simp: escape_char_def unescape_def quote_def backslash_def)
    then show ?thesis using scan_string_escaped by simp
  next
    case 7
    then have "escape_char a c = u_escape ?n" "?n < 128" by (auto simp: escape_char_def)
    then show ?thesis using scan_string_u [of ?n s] by simp
  next
    case 8
    then have "escape_char a c = [c]" by (auto simp: escape_char_def Let_def)
    with 8 show ?thesis by simp
  next
    case 2
    then have "c = CHR 0x0A" by (intro char_eq_of_nat) simp
    then show ?thesis using scan_string_escaped [of "CHR ''n''" c s]
      by (simp add: escape_char_def unescape_def quote_def backslash_def)
  next
    case 3
    then have "c = CHR 0x0D" by (intro char_eq_of_nat) simp
    then show ?thesis using scan_string_escaped [of "CHR ''r''" c s]
      by (simp add: escape_char_def unescape_def quote_def backslash_def)
  next
    case 4
    then have "c = CHR 0x09" by (intro char_eq_of_nat) simp
    then show ?thesis using scan_string_escaped [of "CHR ''t''" c s]
      by (simp add: escape_char_def unescape_def quote_def backslash_def)
  next
    case 5
    then have "c = CHR 0x0C" by (intro char_eq_of_nat) simp
    then show ?thesis using scan_string_escaped [of "CHR ''f''" c s]
      by (simp add: escape_char_def unescape_def quote_def backslash_def)
  next
    case 6
    then have "c = CHR 0x08" by (intro char_eq_of_nat) simp
    then show ?thesis using scan_string_escaped [of "CHR ''b''" c s]
      by (simp add: escape_char_def unescape_def quote_def backslash_def)
  qed
qed

lemma scan_string_escape:
  "text_ok a s \<Longrightarrow> scan_string (escape a s @ quote # rest) = Some (s, rest)"
proof (induction s)
  case (Cons c s)
  then have c: "a \<longrightarrow> of_char c < (128 :: nat)" and s: "text_ok a s"
    by (auto simp: text_ok_def is_ascii_def)
  from c have "\<not> (a \<and> 1 < cp_width c)" by (auto simp: cp_width_def)
  then have "escape a (c # s) = escape_char a c @ escape a s" by (simp only: escape.simps if_False)
  with Cons.IH [OF s] scan_string_escape_char [OF c, of "escape a s @ quote # rest"] show ?case
    by (simp del: escape.simps)
qed simp

lemma dump_string_Cons: "dump_string st s @ rest = quote # escape (ensure_ascii st) s @ quote # rest"
  by (simp add: dump_string_def)

lemma quote_neq [simp]:
  "quote \<noteq> CHR ''[''" "quote \<noteq> CHR ''{''" "quote \<noteq> CHR '']''" "quote \<noteq> CHR ''}''" "quote \<noteq> CHR '':''"
  by (simp_all add: quote_def)

lemma not_json_ws [simp]:
  "\<not> is_json_ws quote" "\<not> is_json_ws CHR '','' " "\<not> is_json_ws CHR '':''"
  "\<not> is_json_ws CHR ''['' " "\<not> is_json_ws CHR '']''" "\<not> is_json_ws CHR ''{''"
  "\<not> is_json_ws CHR ''}''" "\<not> is_json_ws CHR ''n''" "\<not> is_json_ws CHR ''t''"
  "\<not> is_json_ws CHR ''f''"
  by (simp_all add: quote_def is_json_ws_def)

section \<open>Literals\<close>

lemma strip_prefix_append [simp]: "strip_prefix p (p @ r) = Some r"
  by (simp add: strip_prefix_Some)

lemma strip_prefix_head: "p \<noteq> [] \<Longrightarrow> s \<noteq> [] \<Longrightarrow> hd p \<noteq> hd s \<Longrightarrow> strip_prefix p s = None"
  by (cases p; cases s) auto

lemma scan_int_part_head: "scan_int_part s = Some (i, r) \<Longrightarrow> s \<noteq> [] \<and> is_digit (hd s)"
  by (cases s) (auto simp: scan_int_part_def is_digit_def split: if_splits)

lemma scan_number_int_part:
  "scan_number t = Some (v, r) \<Longrightarrow> \<exists>i s. scan_int_part (snd (scan_minus t)) = Some (i, s)"
  by (auto simp: scan_number_def split: prod.splits option.splits)

lemma scan_number_head:
  assumes "scan_number t = Some (v, r)"
  shows "t \<noteq> [] \<and> (is_digit (hd t) \<or> hd t = CHR ''-'')"
  using scan_number_int_part [OF assms] scan_int_part_head
  by (cases t) (fastforce simp: scan_minus_def split: if_splits)+

lemma scan_number_second:
  assumes "scan_number (CHR ''-'' # t) = Some (v, r)"
  shows "t \<noteq> [] \<and> is_digit (hd t)"
  using scan_number_int_part [OF assms] scan_int_part_head by (auto simp: scan_minus_def)

lemma json_literal_heads:
  "p \<in> fst ` set json_literals \<Longrightarrow> p \<noteq> [] \<and> \<not> is_digit (hd p) \<and>
     (hd p = CHR ''-'' \<longrightarrow> (\<exists>q. p = CHR ''-'' # CHR ''I'' # q))"
  by (auto simp: json_literals_def is_digit_def)

lemma scan_literal_none:
  "(\<And>p. p \<in> fst ` set ls \<Longrightarrow> strip_prefix p s = None) \<Longrightarrow> scan_literal ls s = scan_number s"
  by (induction ls) auto

lemma scan_number_not_literal:
  assumes num: "scan_number t = Some (v, r)" and p: "p \<in> fst ` set json_literals"
  shows "strip_prefix p (t @ rest) = None"
proof -
  note head = scan_number_head [OF num] and lit = json_literal_heads [OF p]
  show ?thesis
  proof (cases "hd t = CHR ''-'' \<and> hd p = CHR ''-''")
    case False
    with head lit have "hd p \<noteq> hd (t @ rest)" by auto
    with head lit show ?thesis by (intro strip_prefix_head) auto
  next
    case True
    with head lit obtain t' q where "t = CHR ''-'' # t'" and q: "p = CHR ''-'' # CHR ''I'' # q"
      by (cases t) auto
    with num have "t' \<noteq> []" "is_digit (hd t')" using scan_number_second by blast+
    moreover have "\<not> is_digit CHR ''I''" by (simp add: is_digit_def)
    ultimately have "hd (CHR ''I'' # q) \<noteq> hd (t' @ rest)" by auto
    then have "strip_prefix (CHR ''I'' # q) (t' @ rest) = None"
      using \<open>t' \<noteq> []\<close> by (intro strip_prefix_head) auto
    then show ?thesis by (simp add: \<open>t = CHR ''-'' # t'\<close> q)
  qed
qed

lemma scan_literal_number:
  assumes "scan_number t = Some (v, r)" and "value_end rest"
  shows "scan_literal json_literals (t @ rest) = Some (v, r @ rest)"
  using assms scan_literal_none [OF scan_number_not_literal [OF assms(1)], of json_literals]
    scan_number_append [OF assms(2), of t]
  by simp

lemma scan_literal_words:
  "scan_literal json_literals (''null'' @ rest) = Some (PyNone, rest)"
  "scan_literal json_literals (''true'' @ rest) = Some (PyBool True, rest)"
  "scan_literal json_literals (''false'' @ rest) = Some (PyBool False, rest)"
  "scan_literal json_literals (''NaN'' @ rest) = Some (PyFloat ''NaN'', rest)"
  "scan_literal json_literals (''Infinity'' @ rest) = Some (PyFloat ''Infinity'', rest)"
  "scan_literal json_literals (''-Infinity'' @ rest) = Some (PyFloat ''-Infinity'', rest)"
  by (simp_all add: json_literals_def)

lemma scan_literal_float:
  "float_text t \<Longrightarrow> value_end rest \<Longrightarrow>
   scan_literal json_literals (t @ rest) = Some (PyFloat t, rest)"
  using scan_literal_number [of t "PyFloat t" "[]" rest] scan_literal_words [of rest]
  unfolding float_text_def by auto

lemma float_text_head:
  "float_text t \<Longrightarrow>
   t \<noteq> [] \<and> hd t \<notin> {quote, CHR ''['', CHR '']'', CHR ''{'', CHR ''}''} \<and> \<not> is_json_ws (hd t)"
  by (auto simp: float_text_def is_digit_def quote_def is_json_ws_def dest!: scan_number_head)

lemma dec_int_head:
  "dec_int i \<noteq> [] \<and> hd (dec_int i) \<notin> {quote, CHR ''['', CHR '']'', CHR ''{'', CHR ''}''}
     \<and> \<not> is_json_ws (hd (dec_int i))"
  using scan_number_head [OF scan_number_dec_int [of i]]
  by (auto simp: is_digit_def quote_def is_json_ws_def)

lemma parse_value_scalar:
  assumes "s \<noteq> []" "hd s \<notin> {quote, CHR ''['', CHR ''{''}"
    and "scan_literal json_literals (s @ rest) = Some (v, rest)" and "0 < n"
  shows "parse_value n (s @ rest) = Some (v, rest)"
  using assms by (cases s; cases n) auto

section \<open>Values\<close>

text \<open>Sorting commutes with a map that keeps the keys.\<close>

lemma insort_map_prod:
  "insort_key fst (map_prod id f x) (map (map_prod id f) xs) =
   map (map_prod id f) (insort_key fst x xs)"
  by (induction xs) (auto simp: map_prod_def split: prod.splits)

lemma sort_map_prod: "sort_key fst (map (map_prod id f) xs) = map (map_prod id f) (sort_key fst xs)"
  by (induction xs) (simp_all add: insort_map_prod [unfolded id_def] id_def)

lemma those_Some: "those xs = Some ys \<longleftrightarrow> xs = map Some ys"
proof (induction xs arbitrary: ys)
  case (Cons x xs)
  then show ?case by (cases ys; cases x) auto
qed auto

definition member_text :: "json_style \<Rightarrow> nat \<Rightarrow> string \<times> pyval \<Rightarrow> string option" where
  "member_text st n kv =
     map_option (\<lambda>t. dump_string st (fst kv) @ key_sep st @ t) (dump_value st (snd kv) n)"

lemma dump_list:
  "dump_value st (PyList xs) n =
   map_option (enclose st n CHR ''['' CHR '']'') (those (map (\<lambda>x. dump_value st x (Suc n)) xs))"
  by (simp add: comp_def)

lemma dump_dict:
  "dump_value st (PyDict d) n =
   map_option (enclose st n CHR ''{'' CHR ''}'')
     (those (map (member_text st (Suc n)) (sort_key fst d)))"
  by (simp add: sort_map_prod comp_def case_prod_beta member_text_def [abs_def])

lemma canon_dict: "canon (PyDict d) = PyDict (map (map_prod id canon) (sort_key fst d))"
  by (simp add: sort_map_prod)

lemma wf_list: "wf_value a (PyList xs) \<longleftrightarrow> (\<forall>x \<in> set xs. wf_value a x)"
  by (auto simp: list_all_iff)

lemma wf_dict:
  "wf_value a (PyDict d) \<longleftrightarrow>
     distinct (map fst d) \<and> (\<forall>kv \<in> set d. text_ok a (fst kv) \<and> wf_value a (snd kv))"
  by (auto simp: list_all_iff)

lemmas dump_nested = dump_list dump_dict
declare dump_value.simps(6,7) [simp del] canon.simps(7) [simp del] wf_value.simps(6,7) [simp del]

lemma dump_head:
  assumes "dump_value st v n = Some s" and "wf_value a v"
  shows "s \<noteq> [] \<and> \<not> is_json_ws (hd s) \<and> hd s \<noteq> CHR '']''"
  using assms dec_int_head float_text_head
  by (cases v)
    (auto simp: dump_nested enclose_def dump_string_def split: if_splits)

lemma wf_style_seps:
  assumes "wf_style st"
  obtains w w' where "item_sep st = CHR '','' # w" "list_all is_json_ws w"
    "key_sep st = CHR '':'' # w'" "list_all is_json_ws w'"
  using assms by (auto simp: wf_style_def)

text \<open>What a value's text parses to, at any depth and before any text that ends it.\<close>

definition parses :: "json_style \<Rightarrow> pyval \<Rightarrow> bool" where
  "parses st v \<longleftrightarrow>
     (\<forall>n s f rest. dump_value st v n = Some s \<longrightarrow> value_end rest \<longrightarrow> length s \<le> f \<longrightarrow>
        parse_value f (s @ rest) = Some (canon v, rest))"

lemma parsesD:
  "parses st v \<Longrightarrow> dump_value st v n = Some s \<Longrightarrow> value_end rest \<Longrightarrow> length s \<le> f \<Longrightarrow>
   parse_value f (s @ rest) = Some (canon v, rest)"
  by (auto simp: parses_def)

lemma parse_items_join:
  assumes "\<forall>x \<in> set xs. parses st x \<and> wf_value a x" and "xs \<noteq> []"
    and "map (\<lambda>x. dump_value st x n) xs = map Some ts"
    and "list_all is_json_ws w" and "list_all is_json_ws nl"
    and "Suc (length (join (CHR '','' # w) ts)) \<le> f"
  shows "parse_items f (join (CHR '','' # w) ts @ nl @ CHR '']'' # rest) acc =
    Some (PyList (acc @ map canon xs), rest)"
  using assms
proof (induction xs arbitrary: ts acc f)
  case (Cons x xs)
  then obtain t ts' where ts: "ts = t # ts'" and t: "dump_value st x n = Some t"
    and ts': "map (\<lambda>x. dump_value st x n) xs = map Some ts'"
    by (cases ts) auto
  from Cons.prems have x: "parses st x" "wf_value a x" by auto
  obtain f' where f: "f = Suc f'" using Cons.prems(6) by (cases f) auto
  show ?case
  proof (cases xs)
    case Nil
    with ts' ts have "ts = [t]" by simp
    with f Cons.prems(6) have "length t \<le> f'" by simp
    then have "parse_value f' (t @ nl @ CHR '']'' # rest) = Some (canon x, nl @ CHR '']'' # rest)"
      using Cons.prems(5) by (intro parsesD [OF x(1) t] value_end_ws) (auto simp: value_end_def)
    with Cons.prems(5) Nil \<open>ts = [t]\<close> f show ?thesis
      by (simp add: skip_ws_append)
  next
    case (Cons y ys)
    with ts' obtain u us where us: "ts' = u # us" by (cases ts') auto
    let ?more = "join (CHR '','' # w) ts' @ nl @ CHR '']'' # rest"
    from ts us f Cons.prems(6) have len: "length t \<le> f'"
      "Suc (length (join (CHR '','' # w) ts')) \<le> f'" by auto
    have "parse_value f' (t @ CHR '','' # w @ ?more) = Some (canon x, CHR '','' # w @ ?more)"
      using len by (intro parsesD [OF x(1) t]) (auto simp: value_end_def)
    moreover have "skip_ws (w @ ?more) = ?more"
    proof -
      from ts' us Cons have "dump_value st y n = Some u" by simp
      then have "u \<noteq> []" "\<not> is_json_ws (hd u)"
        using dump_head Cons Cons.prems(1) by (metis list.set_intros)+
      then have "join (CHR '','' # w) ts' \<noteq> []" "\<not> is_json_ws (hd (join (CHR '','' # w) ts'))"
        using us by (cases us; simp)+
      with Cons.prems(4) show ?thesis by (intro skip_ws_head) auto
    qed
    moreover have "parse_items f' ?more (acc @ [canon x]) =
        Some (PyList ((acc @ [canon x]) @ map canon xs), rest)"
      using Cons.prems ts' len Cons by (intro Cons.IH) auto
    ultimately show ?thesis
      using ts us f by (simp add: skip_ws_def)
  qed
qed simp

text \<open>One member: its key, the colon, its value, and what follows.\<close>

lemma parse_members_step:
  assumes "text_ok (ensure_ascii st) k" and "key_sep st = CHR '':'' # w'" and "list_all is_json_ws w'"
    and "parses st v" and "wf_value a v" and "dump_value st v n = Some u"
    and "value_end rest" and "length u \<le> f"
  shows "parse_members (Suc f) (dump_string st k @ key_sep st @ u @ rest) acc =
    (case skip_ws rest of
       [] \<Rightarrow> None
     | e # r4 \<Rightarrow>
         if e = CHR ''}'' then Some (PyDict (dict_put acc k (canon v)), r4)
         else if e = CHR '','' then parse_members f (skip_ws r4) (dict_put acc k (canon v))
         else None)"
proof -
  have "parse_value f (u @ rest) = Some (canon v, rest)"
    using assms(4,6-8) by (rule parsesD)
  moreover have "skip_ws (w' @ u @ rest) = u @ rest"
    using dump_head [OF assms(6,5)] assms(3) by (intro skip_ws_head) auto
  ultimately show ?thesis
    using scan_string_escape [OF assms(1), of "CHR '':'' # w' @ u @ rest"] assms(2)
    by (simp add: dump_string_Cons skip_ws_def)
qed

lemma parse_members_join:
  assumes "\<forall>kv \<in> set d. parses st (snd kv) \<and> wf_value a (snd kv) \<and> text_ok (ensure_ascii st) (fst kv)"
    and "distinct (map fst acc @ map fst d)" and "d \<noteq> []"
    and "map (member_text st n) d = map Some ts"
    and "key_sep st = CHR '':'' # w'" and "list_all is_json_ws w'"
    and "list_all is_json_ws w" and "list_all is_json_ws nl"
    and "Suc (length (join (CHR '','' # w) ts)) \<le> f"
  shows "parse_members f (join (CHR '','' # w) ts @ nl @ CHR ''}'' # rest) acc =
    Some (PyDict (acc @ map (map_prod id canon) d), rest)"
  using assms
proof (induction d arbitrary: ts acc f)
  case (Cons kv d)
  obtain k v where kv: "kv = (k, v)" by fastforce
  from Cons.prems(4) obtain t ts' where ts: "ts = t # ts'" and t: "member_text st n (k, v) = Some t"
    and ts': "map (member_text st n) d = map Some ts'"
    by (cases ts) (auto simp: kv)
  from t obtain u where u: "dump_value st v n = Some u" and t_def: "t = dump_string st k @ key_sep st @ u"
    by (auto simp: member_text_def)
  from Cons.prems kv have v: "parses st v" "wf_value a v" "text_ok (ensure_ascii st) k" by auto
  from Cons.prems(2) kv have put: "dict_put acc k (canon v) = acc @ [(k, canon v)]"
    by (intro dict_put_new) auto
  obtain f' where f: "f = Suc f'" using Cons.prems(9) by (cases f) auto
  note step = parse_members_step [OF v(3) Cons.prems(5,6) v(1,2) u]
  show ?case
  proof (cases d)
    case Nil
    with ts' ts have ts1: "ts = [t]" by simp
    with f Cons.prems(9) t_def have "length u \<le> f'" by simp
    moreover have "value_end (nl @ CHR ''}'' # rest)"
      using Cons.prems(8) by (intro value_end_ws) (auto simp: value_end_def)
    ultimately show ?thesis
      using step [of "nl @ CHR ''}'' # rest" f' acc] Cons.prems(8) Nil kv f
      by (simp add: ts1 t_def put skip_ws_append del: parse_members.simps)
  next
    case (Cons y ys)
    with ts' obtain z zs where us: "ts' = z # zs" by (cases ts') auto
    let ?more = "join (CHR '','' # w) ts' @ nl @ CHR ''}'' # rest"
    from ts us f Cons.prems(9) t_def have len: "length u \<le> f'"
      "Suc (length (join (CHR '','' # w) ts')) \<le> f'" by auto
    have "skip_ws (w @ ?more) = ?more"
    proof -
      from ts' us Cons obtain z' where "z = quote # z'"
        by (auto simp: member_text_def dump_string_def)
      then have "join (CHR '','' # w) ts' \<noteq> []" "\<not> is_json_ws (hd (join (CHR '','' # w) ts'))"
        using us by (cases zs; simp)+
      with Cons.prems(7) show ?thesis by (intro skip_ws_head) auto
    qed
    moreover have "parse_members f' ?more (acc @ [(k, canon v)]) =
        Some (PyDict ((acc @ [(k, canon v)]) @ map (map_prod id canon) d), rest)"
      using Cons.prems ts' len Cons kv by (intro Cons.IH) auto
    moreover have "join (CHR '','' # w) ts = t @ CHR '','' # w @ join (CHR '','' # w) ts'"
      using ts us by simp
    ultimately show ?thesis
      using step [of "CHR '','' # w @ ?more" f' acc] len f kv
      by (simp add: t_def put skip_ws_def value_end_def id_def del: parse_members.simps)
  qed
qed simp

lemma length_enclose: "xs \<noteq> [] \<Longrightarrow> length (join (item_sep st @ newline st (Suc n)) xs) + 2 \<le>
   length (enclose st n l r xs)"
  by (simp add: enclose_def)

lemma parses_list:
  assumes "wf_style st" and "\<forall>x \<in> set xs. parses st x \<and> wf_value a x"
  shows "parses st (PyList xs)"
  unfolding parses_def
proof (intro allI impI)
  fix n s f rest
  assume s: "dump_value st (PyList xs) n = Some s" and "value_end rest" and f: "length s \<le> f"
  from s obtain ts where ts: "map (\<lambda>x. dump_value st x (Suc n)) xs = map Some ts"
    and s_def: "s = enclose st n CHR ''['' CHR '']'' ts"
    by (auto simp: dump_list those_Some)
  obtain w where w: "item_sep st = CHR '','' # w" "list_all is_json_ws w"
    using wf_style_seps [OF assms(1)] .
  show "parse_value f (s @ rest) = Some (canon (PyList xs), rest)"
  proof (cases "xs = []")
    case True
    with ts s_def f show ?thesis by (cases f) (auto simp: enclose_def skip_ws_def quote_def)
  next
    case False
    with ts have ne: "ts \<noteq> []" by auto
    let ?sep = "CHR '','' # w @ newline st (Suc n)"
    let ?body = "join ?sep ts @ newline st n @ CHR '']'' # rest"
    have s': "s @ rest = CHR ''['' # newline st (Suc n) @ ?body"
      using ne by (simp add: s_def enclose_def w(1))
    have "Suc (length (join ?sep ts)) \<le> f - 1"
      using length_enclose [OF ne, of st n "CHR ''[''" "CHR '']''"] f by (simp add: s_def w(1))
    then have body: "parse_items (f - 1) ?body [] = Some (PyList ([] @ map canon xs), rest)"
      using w(2) newline_ws by (intro parse_items_join [OF assms(2) False ts]) auto
    obtain x xs' where "xs = x # xs'" using False by (cases xs) auto
    with ts obtain t ts' where t: "ts = t # ts'" "dump_value st x (Suc n) = Some t" by (cases ts) auto
    have "t \<noteq> []" "\<not> is_json_ws (hd t)" "hd t \<noteq> CHR '']''"
      using dump_head [OF t(2)] assms(2) \<open>xs = x # xs'\<close> by auto
    then obtain c b where cb: "?body = c # b" "\<not> is_json_ws c" "c \<noteq> CHR '']''"
      using t(1) by (cases ts'; cases t) auto
    have "skip_ws (newline st (Suc n) @ ?body) = ?body"
      unfolding cb(1) using cb(2) by (intro skip_ws_append newline_ws)
    moreover obtain f' where "f = Suc f'" using f s_def ne by (cases f) (auto simp: enclose_def)
    ultimately show ?thesis
      using body cb unfolding s' by (simp add: quote_def)
  qed
qed

lemma parses_dict:
  assumes "wf_style st"
    and "\<forall>kv \<in> set d. parses st (snd kv) \<and> wf_value a (snd kv) \<and> text_ok (ensure_ascii st) (fst kv)"
    and "distinct (map fst d)"
  shows "parses st (PyDict d)"
  unfolding parses_def
proof (intro allI impI)
  fix n s f rest
  let ?d = "sort_key fst d"
  assume s: "dump_value st (PyDict d) n = Some s" and "value_end rest" and f: "length s \<le> f"
  from s obtain ts where ts: "map (member_text st (Suc n)) ?d = map Some ts"
    and s_def: "s = enclose st n CHR ''{'' CHR ''}'' ts"
    by (auto simp: dump_dict those_Some)
  obtain w w' where w: "item_sep st = CHR '','' # w" "list_all is_json_ws w"
    and w': "key_sep st = CHR '':'' # w'" "list_all is_json_ws w'"
    using wf_style_seps [OF assms(1)] by blast
  show "parse_value f (s @ rest) = Some (canon (PyDict d), rest)"
  proof (cases "d = []")
    case True
    with ts s_def f show ?thesis
      by (cases f) (auto simp: enclose_def skip_ws_def canon_dict quote_def)
  next
    case False
    then have "?d \<noteq> []" by (metis set_empty set_sort)
    with ts have ne: "ts \<noteq> []" by auto
    let ?sep = "CHR '','' # w @ newline st (Suc n)"
    let ?body = "join ?sep ts @ newline st n @ CHR ''}'' # rest"
    have s': "s @ rest = CHR ''{'' # newline st (Suc n) @ ?body"
      using ne by (simp add: s_def enclose_def w(1))
    have "Suc (length (join ?sep ts)) \<le> f - 1"
      using length_enclose [OF ne, of st n "CHR ''{''" "CHR ''}''"] f by (simp add: s_def w(1))
    then have body: "parse_members (f - 1) ?body [] = Some (PyDict ([] @ map (map_prod id canon) ?d), rest)"
      using w(2) w' newline_ws assms(2,3) \<open>?d \<noteq> []\<close> ts
      by (intro parse_members_join [OF _ _ _ _ w'(1)]) (auto simp: distinct_map)
    obtain c b where cb: "?body = c # b" "c = quote"
    proof -
      obtain x xs' where "?d = x # xs'" using \<open>?d \<noteq> []\<close> by (cases ?d) auto
      with ts have "\<exists>t ts'. ts = (quote # t) # ts'"
        by (cases ts) (auto simp: member_text_def dump_string_def)
      then obtain t ts' where "ts = (quote # t) # ts'" by blast
      then have "\<exists>b. ?body = quote # b" by (cases ts') auto
      then show ?thesis using that by blast
    qed
    have "skip_ws (newline st (Suc n) @ ?body) = ?body"
      unfolding cb by (intro skip_ws_append newline_ws) simp
    moreover obtain f' where "f = Suc f'" using f s_def ne by (cases f) (auto simp: enclose_def)
    ultimately show ?thesis
      using body cb unfolding s' by (simp add: quote_def canon_dict)
  qed
qed

lemma dump_value_nonempty: "dump_value st v n = Some s \<Longrightarrow> wf_value a v \<Longrightarrow> s \<noteq> []"
  using dump_head by blast

lemma wf_value_parses:
  assumes st: "wf_style st"
  shows "wf_value (ensure_ascii st) v \<Longrightarrow> parses st v"
proof (induction v)
  case PyNone
  show ?case using parse_value_scalar [of "''null''"] scan_literal_words
    by (auto simp: parses_def quote_def)
next
  case (PyBool b)
  show ?case using parse_value_scalar [of "''true''"] parse_value_scalar [of "''false''"] scan_literal_words
    by (auto simp: parses_def quote_def)
next
  case (PyInt i)
  show ?case
    using dec_int_head [of i] scan_literal_number [OF scan_number_dec_int]
    by (auto simp: parses_def intro!: parse_value_scalar) (metis le_zero_eq length_0_conv not_gr_zero)
next
  case (PyFloat t)
  then show ?case
    using float_text_head [of t] scan_literal_float [of t]
    by (auto simp: parses_def intro!: parse_value_scalar) (metis le_zero_eq length_0_conv not_gr_zero)
next
  case (PyStr s)
  show ?case unfolding parses_def
  proof (intro allI impI)
    fix n t f rest
    assume t: "dump_value st (PyStr s) n = Some t" and f: "length t \<le> f"
    then obtain f' where "f = Suc f'" by (cases f) (auto simp: dump_string_def)
    with t PyStr scan_string_escape [of "ensure_ascii st" s rest]
    show "parse_value f (t @ rest) = Some (canon (PyStr s), rest)"
      by (auto simp: dump_string_Cons)
  qed
next
  case (PyList xs)
  then show ?case using st by (intro parses_list) (auto simp: wf_list)
next
  case (PyDict d)
  then have "\<forall>kv \<in> set d. parses st (snd kv) \<and> wf_value (ensure_ascii st) (snd kv)
      \<and> text_ok (ensure_ascii st) (fst kv)"
    by (auto simp: wf_dict)
  with PyDict.prems st show ?case by (intro parses_dict) (auto simp: wf_dict)
next
  case PyOpaque
  show ?case by (simp add: parses_def)
qed

theorem loads_dumps_ws:
  assumes "wf_style st" and "wf_value (ensure_ascii st) v" and "dumps st v = Inr s"
    and "list_all is_json_ws w"
  shows "loads (s @ w) = Inr (canon v)"
proof -
  from assms(3) have s: "dump_value st v 0 = Some s" by (auto simp: dumps_def split: option.splits)
  have "skip_ws (s @ w) = s @ w" using dump_head [OF s assms(2)] skip_ws_id [of s w] by simp
  moreover have "value_end w" using assms(4) by (cases w) (auto simp: value_end_def)
  then have "parse_value (Suc (2 * length (s @ w))) (s @ w) = Some (canon v, w)"
    by (intro parsesD [OF wf_value_parses [OF assms(1,2)] s]) auto
  ultimately show ?thesis using assms(4) by (simp add: loads_def skip_ws_all del: parse_value.simps)
qed

lemmas loads_dumps = loads_dumps_ws [where w = "[]", simplified]

text \<open>The values that \<open>dumps\<close> does not refuse.\<close>

primrec dumpable :: "pyval \<Rightarrow> bool" where
  "dumpable PyNone = True"
| "dumpable (PyBool b) = True"
| "dumpable (PyInt i) = True"
| "dumpable (PyFloat t) = True"
| "dumpable (PyStr s) = True"
| "dumpable (PyList xs) = list_all id (map dumpable xs)"
| "dumpable (PyDict d) = list_all snd (map (map_prod id dumpable) d)"
| "dumpable PyOpaque = False"

lemma dumpable_list: "dumpable (PyList xs) \<longleftrightarrow> (\<forall>x \<in> set xs. dumpable x)"
  by (auto simp: list_all_iff)

lemma dumpable_dict: "dumpable (PyDict d) \<longleftrightarrow> (\<forall>kv \<in> set d. dumpable (snd kv))"
  by (auto simp: list_all_iff)

lemma those_None: "those (map f xs) = None \<longleftrightarrow> (\<exists>x \<in> set xs. f x = None)"
  by (induction xs) (auto split: option.splits)

lemma dump_value_None: "dump_value st v n = None \<longleftrightarrow> \<not> dumpable v"
proof (induction v arbitrary: n)
  case (PyList xs)
  then show ?case by (auto simp: dump_list dumpable_list those_None simp del: dumpable.simps)
next
  case (PyDict d)
  have "member_text st m kv = None \<longleftrightarrow> \<not> dumpable (snd kv)" if "kv \<in> set d" for kv m
    using PyDict that by (cases kv) (auto simp: member_text_def)
  then show ?case by (simp add: dump_dict dumpable_dict those_None del: dumpable.simps cong: bex_cong)
qed auto

lemma dumps_Inl: "dumps st v = Inl e \<longleftrightarrow> \<not> dumpable v \<and> e = TypeError ''dumps''"
  using dump_value_None [of st v 0] by (auto simp: dumps_def split: option.splits)

lemma dumps_Inr: "(\<exists>s. dumps st v = Inr s) \<longleftrightarrow> dumpable v"
  using dumps_Inl [of st v] by (cases "dumps st v") auto

declare dumpable.simps(6,7) [simp del]
corollary dumps_canon_inject:
  assumes "dumps compact v = Inr s" and "dumps compact w = Inr s"
    and "wf_value False v" and "wf_value False w"
  shows "canon v = canon w"
  using assms loads_dumps [of compact v s] loads_dumps [of compact w s] by simp

section \<open>Parsed values are well formed\<close>

definition no_digit :: "string \<Rightarrow> bool" where
  "no_digit s = (s = [] \<or> \<not> is_digit (hd s))"

lemma span_digits_append:
  "list_all is_digit i \<Longrightarrow> no_digit x \<Longrightarrow>
   takeWhile is_digit (i @ x) = i \<and> dropWhile is_digit (i @ x) = x"
  by (induction i) (cases x; auto simp: no_digit_def)+

lemma takeWhile_digits: "list_all is_digit (takeWhile is_digit s)"
  by (auto simp: list_all_iff dest: set_takeWhileD)

lemma dropWhile_no_digit: "no_digit (dropWhile is_digit s)"
  using hd_dropWhile [of is_digit s] by (auto simp: no_digit_def)

lemma scan_int_part_again:
  assumes "scan_int_part s = Some (i, r)" and "no_digit x"
  shows "scan_int_part (i @ x) = Some (i, x) \<and> i \<noteq> [] \<and> is_digit (hd i)"
proof (cases s)
  case (Cons c s')
  show ?thesis
  proof (cases "c = CHR ''0''")
    case True
    with assms Cons show ?thesis by (auto simp: scan_int_part_def is_digit_def)
  next
    case False
    with assms Cons have c: "is_digit c" and i: "i = c # takeWhile is_digit s'"
      by (auto simp: scan_int_part_def split: if_splits)
    with False assms(2) span_digits_append [of i x] takeWhile_digits [of s'] show ?thesis
      by (simp add: scan_int_part_def)
  qed
qed (use assms in \<open>simp add: scan_int_part_def\<close>)

lemma scan_frac_again:
  assumes "scan_frac s = (f, r)" and "no_digit x" and "x = [] \<or> hd x \<noteq> CHR ''.''"
  shows "scan_frac (f @ x) = (f, x) \<and> no_digit (f @ x)"
proof (cases "f = []")
  case True
  with assms(2,3) show ?thesis by (auto simp: scan_frac_def split: list.splits)
next
  case False
  with assms(1) obtain d ds where f: "f = CHR ''.'' # d # ds" "is_digit d" "list_all is_digit (d # ds)"
    by (auto simp: scan_frac_def takeWhile_digits split: list.splits if_splits)
  with assms(2) span_digits_append [of "d # ds" x] show ?thesis
    by (simp add: scan_frac_def no_digit_def is_digit_def)
qed

lemma scan_exp_again:
  assumes "scan_exp s = (e, r)"
  shows "scan_exp e = (e, []) \<and> no_digit e \<and> (e = [] \<or> hd e \<noteq> CHR ''.'')"
proof (cases "e = []")
  case True
  then show ?thesis by (simp add: scan_exp_def no_digit_def)
next
  case False
  with assms obtain c s' sg r1 where s: "s = c # s'" "c = CHR ''e'' \<or> c = CHR ''E''"
    and sg: "scan_sign s' = (sg, r1)" and e: "e = c # sg @ takeWhile is_digit r1"
    and ne: "takeWhile is_digit r1 \<noteq> []"
    by (auto simp: scan_exp_def split: list.splits if_splits prod.splits)
  let ?d = "takeWhile is_digit r1"
  have d: "takeWhile is_digit ?d = ?d" "dropWhile is_digit ?d = []"
    using span_digits_append [of ?d "[]"] takeWhile_digits by (auto simp: no_digit_def)
  have "is_digit (hd ?d)" using ne takeWhile_digits [of r1] by (cases ?d) auto
  then have "scan_sign (sg @ ?d) = (sg, ?d)"
    using sg ne by (cases ?d) (auto simp: scan_sign_def is_digit_def split: list.splits if_splits)
  with d ne s(2) show ?thesis
    by (auto simp: e scan_exp_def no_digit_def is_digit_def)
qed

lemma scan_number_float:
  assumes "scan_number s = Some (PyFloat t, r)"
  shows "float_text t"
proof -
  obtain m s1 i s2 f s3 e s4 where m: "scan_minus s = (m, s1)" and i: "scan_int_part s1 = Some (i, s2)"
    and f: "scan_frac s2 = (f, s3)" and e: "scan_exp s3 = (e, s4)"
    and ne: "\<not> (f = [] \<and> e = [])" and t: "t = m @ i @ f @ e"
    using assms by (auto simp: scan_number_def split: prod.splits option.splits if_splits)
  note e' = scan_exp_again [OF e]
  then have f': "scan_frac (f @ e) = (f, e)" "no_digit (f @ e)" using scan_frac_again [OF f] by auto
  then have i': "scan_int_part (i @ f @ e) = Some (i, f @ e)" "i \<noteq> []" "is_digit (hd i)"
    using scan_int_part_again [OF i] by auto
  have "m = [] \<or> m = ''-''" using m by (auto simp: scan_minus_def split: list.splits if_splits)
  then have "scan_minus t = (m, i @ f @ e)"
    using i'(2,3) by (cases i) (auto simp: t scan_minus_def is_digit_def)
  with i' f' e' ne have "scan_number t = Some (PyFloat t, [])"
    by (simp add: scan_number_def t)
  then show ?thesis by (simp add: float_text_def)
qed

lemma scan_number_wf: "scan_number s = Some (v, r) \<Longrightarrow> wf_value False v"
proof -
  assume num: "scan_number s = Some (v, r)"
  then have "(\<exists>i. v = PyInt i) \<or> (\<exists>t. v = PyFloat t)"
    by (auto simp: scan_number_def split: prod.splits option.splits if_splits)
  with num scan_number_float show ?thesis by auto
qed

lemma scan_literal_wf:
  "(\<forall>l \<in> set ls. wf_value False (snd l)) \<Longrightarrow> scan_literal ls s = Some (v, r) \<Longrightarrow> wf_value False v"
  by (induction ls s rule: scan_literal.induct) (auto simp: scan_number_wf split: option.splits)

lemma json_literals_wf: "\<forall>l \<in> set json_literals. wf_value False (snd l)"
  by (simp add: json_literals_def float_text_def)

lemma wf_dict_put:
  "wf_value a (PyDict d) \<Longrightarrow> text_ok a k \<Longrightarrow> wf_value a v \<Longrightarrow> wf_value a (PyDict (dict_put d k v))"
proof (induction d k v rule: dict_put.induct)
  case (2 k' v' d k v)
  then show ?case using keys_dict_put [of d k v] by (force simp: wf_dict)
qed (simp add: wf_dict)

lemma parse_wf:
  "parse_value n s = Some (v, r) \<Longrightarrow> wf_value False v"
  "parse_items n s acc = Some (v, r) \<Longrightarrow> wf_value False (PyList acc) \<Longrightarrow> wf_value False v"
  "parse_members n s kvs = Some (v, r) \<Longrightarrow> wf_value False (PyDict kvs) \<Longrightarrow> wf_value False v"
proof (induction n arbitrary: s v r acc kvs)
  case (Suc n)
  {
    case 1
    then show ?case
      using Suc.IH(2) [where acc = "[]"] Suc.IH(3) [where kvs = "[]"]
        scan_literal_wf [OF json_literals_wf]
      by (fastforce simp: wf_list wf_dict text_ok_def split: list.splits if_splits)
  next
    case 2
    then obtain w r1 d r' where w: "parse_value n s = Some (w, r1)" and "skip_ws r1 = d # r'"
      and "v = PyList (acc @ [w]) \<or> parse_items n (skip_ws r') (acc @ [w]) = Some (v, r)"
      by (auto split: list.splits if_splits option.splits)
    moreover have "wf_value False (PyList (acc @ [w]))"
      using 2(2) Suc.IH(1) [OF w] by (simp add: wf_list)
    ultimately show ?case using Suc.IH(2) by blast
  next
    case 3
    then obtain k r1 d r2 w r3 e r4 where "scan_string (tl s) = Some (k, r1)" and "skip_ws r1 = d # r2"
      and w: "parse_value n (skip_ws r2) = Some (w, r3)" and "skip_ws r3 = e # r4"
      and "v = PyDict (dict_put kvs k w) \<or>
        parse_members n (skip_ws r4) (dict_put kvs k w) = Some (v, r)"
      by (auto split: list.splits if_splits option.splits)
    moreover have "wf_value False (PyDict (dict_put kvs k w))"
      using 3(2) Suc.IH(1) [OF w] by (intro wf_dict_put) (auto simp: text_ok_def)
    ultimately show ?case using Suc.IH(3) by blast
  }
qed auto

theorem loads_wf: "loads s = Inr v \<Longrightarrow> wf_value False v"
  by (auto simp: loads_def simp del: parse_value.simps dest: parse_wf(1) split: option.splits if_splits)

end
