(* ===== verification/Json_Encode.thy ===== *)
theory Json_Encode
  imports Json_Roundtrip
begin

text \<open>
  When the compact text of a value can be encoded as UTF-8: exactly when none of its strings
  holds a lone surrogate (\<open>dump_clean\<close>).
\<close>

section \<open>Lone surrogates\<close>

text \<open>What \<open>str.encode()\<close> accepts: no string of the value holds a lone surrogate.\<close>

primrec clean :: "pyval \<Rightarrow> bool" where
  "clean PyNone = True"
| "clean (PyBool b) = True"
| "clean (PyInt i) = True"
| "clean (PyFloat t) = (\<not> has_surrogate t)"
| "clean (PyStr s) = (\<not> has_surrogate s)"
| "clean (PyList xs) = list_all id (map clean xs)"
| "clean (PyDict d) =
     (list_all (\<lambda>k. \<not> has_surrogate k) (map fst d) \<and> list_all snd (map (map_prod id clean) d))"
| "clean PyOpaque = True"

lemma clean_list: "clean (PyList xs) \<longleftrightarrow> (\<forall>x \<in> set xs. clean x)"
  by (auto simp: list_all_iff)

lemma clean_dict: "clean (PyDict d) \<longleftrightarrow> (\<forall>kv \<in> set d. \<not> has_surrogate (fst kv) \<and> clean (snd kv))"
  by (auto simp: list_all_iff)

declare clean.simps(6,7) [simp del]

lemma has_surrogate_Cons: "of_char c < (128 :: nat) \<Longrightarrow> has_surrogate (c # s) = has_surrogate s"
  by (cases s) auto

lemma has_surrogate_ascii: "is_ascii a \<Longrightarrow> has_surrogate (a @ s) = has_surrogate s"
  by (induction a) (auto simp: has_surrogate_Cons)

lemma has_surrogate_sep:
  "of_char c < (128 :: nat) \<Longrightarrow> has_surrogate (s @ c # t) \<longleftrightarrow> has_surrogate s \<or> has_surrogate t"
  by (induction s rule: has_surrogate.induct) (auto simp: has_surrogate_Cons)

lemma has_surrogate_infix:
  "is_ascii b \<Longrightarrow> b \<noteq> [] \<Longrightarrow> has_surrogate (s @ b @ t) \<longleftrightarrow> has_surrogate s \<or> has_surrogate t"
  by (cases b) (auto simp: has_surrogate_sep has_surrogate_ascii)

lemma escape_char_wide: "128 \<le> (of_char c :: nat) \<Longrightarrow> escape_char False c = [c]"
  by (auto simp: escape_char_def Let_def quote_def backslash_def)

lemma escape_char_ascii: "of_char c < (128 :: nat) \<Longrightarrow> is_ascii (escape_char False c) \<and> escape_char False c \<noteq> []"
  by (auto simp: escape_char_def Let_def quote_def backslash_def u_escape_def hex_digit_ascii)

lemma escape_one_clean: "\<not> has_surrogate (escape_char False c)"
  using escape_char_ascii [of c] has_surrogate_ascii [of "escape_char False c" "[]"]
  by (cases "of_char c < (128 :: nat)") (simp_all add: escape_char_wide)

lemma escape_clean: "has_surrogate (escape False s) = has_surrogate s"
proof (induction s rule: has_surrogate.induct)
  case (1 c d s)
  show ?case
  proof (cases "of_char c < (128 :: nat)")
    case True
    with 1 show ?thesis using escape_char_ascii [OF True]
      by (simp add: has_surrogate_ascii)
  next
    case False
    note c = this
    show ?thesis
    proof (cases "of_char d < (128 :: nat)")
      case True
      then obtain e es where "escape_char False d = e # es" "of_char e < (128 :: nat)"
        using escape_char_ascii [OF True] by (cases "escape_char False d") auto
      with 1 c True show ?thesis by (simp add: escape_char_wide)
    next
      case False
      with 1 c show ?thesis by (simp add: escape_char_wide)
    qed
  qed
qed (simp_all add: escape_one_clean)

lemma join_clean:
  "is_ascii sep \<Longrightarrow> sep \<noteq> [] \<Longrightarrow> has_surrogate (join sep xs) \<longleftrightarrow> (\<exists>x \<in> set xs. has_surrogate x)"
  by (induction sep xs rule: join.induct) (auto simp: has_surrogate_infix)

lemma enclose_clean:
  assumes "of_char l < (128 :: nat)" and "of_char r < (128 :: nat)"
  shows "has_surrogate (enclose compact n l r xs) \<longleftrightarrow> (\<exists>x \<in> set xs. has_surrogate x)"
  using assms join_clean [of "'',''" xs]
  by (cases xs) (auto simp: enclose_def newline_def compact_def has_surrogate_Cons has_surrogate_sep)

lemma dump_string_clean: "has_surrogate (dump_string compact s) = has_surrogate s"
  by (simp add: dump_string_def quote_def has_surrogate_Cons has_surrogate_sep escape_clean)

lemma those_clean:
  assumes "those (map f xs) = Some ts"
  shows "(\<exists>t \<in> set ts. has_surrogate t) \<longleftrightarrow> (\<exists>x \<in> set xs. \<exists>t. f x = Some t \<and> has_surrogate t)"
proof -
  have "(\<exists>t \<in> set ts. has_surrogate t) \<longleftrightarrow> (\<exists>y \<in> set (map Some ts). \<exists>t. y = Some t \<and> has_surrogate t)"
    by simp
  also from assms have "map Some ts = map f xs" by (simp add: those_Some)
  finally show ?thesis by simp
qed

lemma dump_clean: "dump_value compact v n = Some s \<Longrightarrow> has_surrogate s \<longleftrightarrow> \<not> clean v"
proof (induction v arbitrary: n s)
  case (PyList xs)
  then obtain ts where ts: "those (map (\<lambda>x. dump_value compact x (Suc n)) xs) = Some ts"
    and s: "s = enclose compact n CHR ''['' CHR '']'' ts" by (auto simp: dump_list)
  have "(\<exists>t. dump_value compact x (Suc n) = Some t \<and> has_surrogate t) \<longleftrightarrow> \<not> clean x" if "x \<in> set xs" for x
  proof -
    from ts that those_None [of "\<lambda>x. dump_value compact x (Suc n)" xs] obtain t where
      "dump_value compact x (Suc n) = Some t" by auto
    with PyList.IH [OF that] show ?thesis by auto
  qed
  then show ?case using those_clean [OF ts] by (auto simp: s enclose_clean clean_list)
next
  case (PyDict d)
  then obtain ts where ts: "those (map (member_text compact (Suc n)) (sort_key fst d)) = Some ts"
    and s: "s = enclose compact n CHR ''{'' CHR ''}'' ts" by (auto simp: dump_dict)
  have "(\<exists>t. member_text compact (Suc n) kv = Some t \<and> has_surrogate t) \<longleftrightarrow>
      has_surrogate (fst kv) \<or> \<not> clean (snd kv)" if "kv \<in> set d" for kv
  proof -
    from ts that those_None [of "member_text compact (Suc n)" "sort_key fst d"] obtain t where
      t: "dump_value compact (snd kv) (Suc n) = Some t" by (auto simp: member_text_def)
    have "key_sep compact = '':''" by (simp add: compact_def)
    with t PyDict.IH [of kv "snd kv" "Suc n" t] that show ?thesis
      by (cases kv) (auto simp: member_text_def has_surrogate_sep dump_string_clean)
  qed
  then show ?case using those_clean [OF ts] by (auto simp: s enclose_clean clean_dict)
qed (auto simp: dump_string_clean is_ascii_no_surrogate)

end
