(* ===== verification/Records.thy ===== *)
theory Records
  imports Json_Encode
begin

text \<open>
  \<open>records.py\<close>: the record of the log, the dictionary and the bytes that are hashed, and the
  reading of a record from storage. The conversions \<open>str\<close>, \<open>int\<close> and \<open>dict\<close> that
  \<open>from_stored\<close> applies to whatever was stored are functions on the values of the theory
  \<open>Json\<close>.

  The lemmas: the payload's text lists its seven fields in a fixed order
  (\<open>to_payload_text\<close>), and it determines them, the metadata up to the order of keys
  (\<open>to_payload_bytes_inject\<close>).
\<close>

section \<open>The record\<close>

record audit_record =
  seq :: int
  timestamp :: string
  actor :: string
  action :: string
  subject :: string
  metadata :: pydict
  prev_hash :: string
  hash :: string
  key_id :: string
  signer_id :: string
  signature :: string

definition GENESIS_HASH :: string where
  "GENESIS_HASH = replicate 64 CHR ''0''"

definition to_payload_dict :: "audit_record \<Rightarrow> pyval" where
  "to_payload_dict r =
     PyDict [(''seq'', PyInt (seq r)), (''ts'', PyStr (timestamp r)), (''actor'', PyStr (actor r)),
       (''action'', PyStr (action r)), (''subject'', PyStr (subject r)),
       (''meta'', PyDict (metadata r)), (''prev'', PyStr (prev_hash r))]"

definition to_payload_bytes :: "audit_record \<Rightarrow> bytes result" where
  "to_payload_bytes r = bindE (dumps compact (to_payload_dict r)) encode_utf8"

section \<open>Python's conversions\<close>

text \<open>\<open>bool(v)\<close>, as in \<open>v or {}\<close>.\<close>

fun truthy :: "pyval \<Rightarrow> bool" where
  "truthy PyNone = False"
| "truthy (PyBool b) = b"
| "truthy (PyInt i) = (i \<noteq> 0)"
| "truthy (PyFloat t) = (\<not> list_all (\<lambda>c. c \<in> set ''-0.'') (takeWhile (\<lambda>c. c \<noteq> CHR ''e'' \<and> c \<noteq> CHR ''E'') t))"
| "truthy (PyStr s) = (s \<noteq> [])"
| "truthy (PyList xs) = (xs \<noteq> [])"
| "truthy (PyDict d) = (d \<noteq> [])"
| "truthy PyOpaque = True"

text \<open>
  \<open>repr(v)\<close>, which \<open>str(v)\<close> uses inside lists and dictionaries. A character outside ASCII
  is taken as printable.
\<close>

definition repr_quote :: "string \<Rightarrow> char" where
  "repr_quote s = (if CHR 0x27 \<in> set s \<and> quote \<notin> set s then quote else CHR 0x27)"

definition repr_char :: "char \<Rightarrow> char \<Rightarrow> string" where
  "repr_char q c =
     (let n = of_char c :: nat in
      if c = q \<or> c = backslash then [backslash, c]
      else if n = 9 then [backslash, CHR ''t'']
      else if n = 10 then [backslash, CHR ''n'']
      else if n = 13 then [backslash, CHR ''r'']
      else if n < 32 \<or> n = 127 then [backslash, CHR ''x'', hex_digit (n div 16), hex_digit (n mod 16)]
      else [c])"

definition repr_str :: "string \<Rightarrow> string" where
  "repr_str s = repr_quote s # concat (map (repr_char (repr_quote s)) s) @ [repr_quote s]"

definition float_repr :: "string \<Rightarrow> string" where
  "float_repr t =
     (if t = ''NaN'' then ''nan'' else if t = ''Infinity'' then ''inf''
      else if t = ''-Infinity'' then ''-inf'' else t)"

primrec py_repr :: "pyval \<Rightarrow> string" where
  "py_repr PyNone = ''None''"
| "py_repr (PyBool b) = (if b then ''True'' else ''False'')"
| "py_repr (PyInt i) = dec_int i"
| "py_repr (PyFloat t) = float_repr t"
| "py_repr (PyStr s) = repr_str s"
| "py_repr (PyList xs) = CHR ''['' # join '', '' (map py_repr xs) @ '']''"
| "py_repr (PyDict d) =
     CHR ''{'' # join '', '' (map (\<lambda>(k, t). repr_str k @ '': '' @ t) (map (map_prod id py_repr) d)) @ ''}''"
| "py_repr PyOpaque = ''<object>''"

definition py_str :: "pyval \<Rightarrow> string" where
  "py_str v = (case v of PyStr s \<Rightarrow> s | _ \<Rightarrow> py_repr v)"

text \<open>\<open>int(v)\<close>: a float is truncated (by its decimal literal), a string is parsed with its white
  space stripped and single underscores between digits allowed.\<close>

definition float_trunc :: "string \<Rightarrow> int" where
  "float_trunc t =
     (let (m, s1) = scan_minus t;
          i = takeWhile is_digit s1;
          (f, s2) = scan_frac (dropWhile is_digit s1);
          (sg, ed) = scan_sign (tl s2);
          n = nat_of_digits (i @ tl f);
          e = (if s2 = [] then 0 else if sg = ''-'' then - int (nat_of_digits ed) else int (nat_of_digits ed))
                - int (length (tl f));
          k = (if 0 \<le> e then n * 10 ^ nat e else n div 10 ^ nat (- e))
      in if m = [] then int k else - int k)"

definition digits_ok :: "string \<Rightarrow> bool" where
  "digits_ok s =
     (s \<noteq> [] \<and> is_digit (hd s) \<and> is_digit (last s) \<and>
      list_all (\<lambda>c. is_digit c \<or> c = CHR ''_'') s \<and>
      list_all (\<lambda>(c, d). \<not> (c = CHR ''_'' \<and> d = CHR ''_'')) (zip s (tl s)))"

definition int_of_str :: "string \<Rightarrow> int result" where
  "int_of_str s =
     (let (sg, ds) = scan_sign (strip s) in
      if digits_ok ds then
        (let n = int (nat_of_digits (filter is_digit ds)) in Inr (if sg = ''-'' then - n else n))
      else Inl (ValueError ''int''))"

fun py_int :: "pyval \<Rightarrow> int result" where
  "py_int (PyInt i) = Inr i"
| "py_int (PyBool b) = Inr (if b then 1 else 0)"
| "py_int (PyFloat t) =
     (if t = ''NaN'' then Inl (ValueError ''int'')
      else if t = ''Infinity'' \<or> t = ''-Infinity'' then Inl OverflowError
      else Inr (float_trunc t))"
| "py_int (PyStr s) = int_of_str s"
| "py_int _ = Inl (TypeError ''int'')"

text \<open>
  \<open>dict(v)\<close>: a dictionary is copied; a list has to hold pairs, each a list of two, a string of
  two characters, or a dictionary of two keys, and the first of each becomes a key. The
  model's dictionaries have string keys, so a pair with another key is refused here, where
  Python would go on unless the key is a list or a dictionary.
\<close>

function code_points :: "string \<Rightarrow> string list" where
  "code_points [] = []"
| "code_points (c # s) = (c # take (cp_width c - 1) s) # code_points (drop (cp_width c - 1) s)"
  by pat_completeness auto
termination
  by (relation "measure length") auto

fun iterate :: "pyval \<Rightarrow> pyval list result" where
  "iterate (PyList xs) = Inr xs"
| "iterate (PyStr s) = Inr (map PyStr (code_points s))"
| "iterate (PyDict d) = Inr (map (PyStr \<circ> fst) d)"
| "iterate _ = Inl (TypeError ''iter'')"

fun dict_pair :: "pyval list \<Rightarrow> (string \<times> pyval) result" where
  "dict_pair [PyStr k, v] = Inr (k, v)"
| "dict_pair [k, v] = Inl (TypeError ''dict key'')"
| "dict_pair _ = Inl (ValueError ''dict'')"

fun put_pairs :: "pyval list \<Rightarrow> pydict \<Rightarrow> pydict result" where
  "put_pairs [] d = Inr d"
| "put_pairs (x # xs) d =
     bindE (iterate x) (\<lambda>kv. bindE (dict_pair kv) (\<lambda>(k, v). put_pairs xs (dict_put d k v)))"

definition py_dict :: "pyval \<Rightarrow> pydict result" where
  "py_dict v =
     (case v of PyDict d \<Rightarrow> Inr d | _ \<Rightarrow> bindE (iterate v) (\<lambda>xs. put_pairs xs []))"

section \<open>Reading a stored record\<close>

definition dict_get :: "pydict \<Rightarrow> string \<Rightarrow> pyval \<Rightarrow> pyval" where
  "dict_get d k v = (case map_of d k of None \<Rightarrow> v | Some w \<Rightarrow> w)"

definition dict_item :: "pydict \<Rightarrow> string \<Rightarrow> pyval result" where
  "dict_item d k = (case map_of d k of None \<Rightarrow> Inl (KeyError k) | Some v \<Rightarrow> Inr v)"

text \<open>\<open>v[k]\<close> with a string key: only a dictionary takes one.\<close>

fun get_item :: "pyval \<Rightarrow> string \<Rightarrow> pyval result" where
  "get_item (PyDict d) k = dict_item d k"
| "get_item _ k = Inl (TypeError ''getitem'')"

text \<open>\<open>cls(seq=int(stored["seq"]), ...)\<close>: the arguments are evaluated from the first to the last.
  A value that is no dictionary has no \<open>get\<close>.\<close>

definition from_stored :: "pyval \<Rightarrow> audit_record result" where
  "from_stored stored =
     (case stored of
        PyDict d \<Rightarrow>
          (let meta0 = dict_get d ''meta'' PyNone;
               meta = (if truthy meta0 then meta0 else PyDict [])
           in
           bindE (bindE (dict_item d ''seq'') py_int) (\<lambda>s.
           bindE (dict_item d ''ts'') (\<lambda>ts.
           bindE (dict_item d ''actor'') (\<lambda>ac.
           bindE (dict_item d ''action'') (\<lambda>an.
           bindE (py_dict meta) (\<lambda>m.
           bindE (dict_item d ''prev_hash'') (\<lambda>ph.
           bindE (dict_item d ''hash'') (\<lambda>h.
             Inr \<lparr>seq = s, timestamp = py_str ts, actor = py_str ac, action = py_str an,
                  subject = py_str (dict_get d ''subject'' (PyStr [])), metadata = m,
                  prev_hash = py_str ph, hash = py_str h,
                  key_id = py_str (dict_get d ''key_id'' (PyStr [])),
                  signer_id = py_str (dict_get d ''signer_id'' (PyStr [])),
                  signature = py_str (dict_get d ''signature'' (PyStr []))\<rparr>))))))))
      | _ \<Rightarrow> Inl (AttributeError ''get''))"

section \<open>The payload determines the record\<close>

definition wf_record :: "audit_record \<Rightarrow> bool" where
  "wf_record r = wf_value False (PyDict (metadata r))"

lemma sort_payload:
  "sort_key fst [(''seq'', a), (''ts'', b), (''actor'', c), (''action'', d), (''subject'', e),
     (''meta'', f), (''prev'', g)] =
   [(''action'', d), (''actor'', c), (''meta'', f), (''prev'', g), (''seq'', a), (''subject'', e),
     (''ts'', b)]"
  by simp

lemma compact_layout: "newline compact n = []" "item_sep compact = '','' " "key_sep compact = '':''"
  by (simp_all add: newline_def compact_def)

text \<open>The hashed text: no white space, the keys in alphabetical order.\<close>

lemma payload_text:
  "dumps compact (to_payload_dict r) =
     (case dump_value compact (PyDict (metadata r)) 1 of
        None \<Rightarrow> Inl (TypeError ''dumps'')
      | Some m \<Rightarrow>
          Inr (''{'' @ dump_string compact ''action'' @ '':'' @ dump_string compact (action r) @ '',''
             @ dump_string compact ''actor'' @ '':'' @ dump_string compact (actor r) @ '',''
             @ dump_string compact ''meta'' @ '':'' @ m @ '',''
             @ dump_string compact ''prev'' @ '':'' @ dump_string compact (prev_hash r) @ '',''
             @ dump_string compact ''seq'' @ '':'' @ dec_int (seq r) @ '',''
             @ dump_string compact ''subject'' @ '':'' @ dump_string compact (subject r) @ '',''
             @ dump_string compact ''ts'' @ '':'' @ dump_string compact (timestamp r) @ ''}''))"
proof -
  have "dump_value compact (to_payload_dict r) 0 =
      map_option (enclose compact 0 CHR ''{'' CHR ''}'')
       (those (map (member_text compact 1)
         [(''action'', PyStr (action r)), (''actor'', PyStr (actor r)),
          (''meta'', PyDict (metadata r)), (''prev'', PyStr (prev_hash r)),
          (''seq'', PyInt (seq r)), (''subject'', PyStr (subject r)),
          (''ts'', PyStr (timestamp r))]))"
    unfolding to_payload_dict_def by (simp only: dump_dict sort_payload One_nat_def)
  then show ?thesis
    by (cases "dump_value compact (PyDict (metadata r)) 1")
      (simp_all add: dumps_def member_text_def enclose_def compact_layout)
qed

lemma to_payload_bytes_length:
  "to_payload_bytes r = Inr b \<Longrightarrow> 32 \<le> length b"
  by (auto simp: to_payload_bytes_def payload_text result_simps encode_utf8_def dump_string_def
      split: option.splits if_splits)

lemma wf_payload: "wf_record r \<Longrightarrow> wf_value False (to_payload_dict r)"
  by (simp add: wf_record_def to_payload_dict_def wf_dict text_ok_def)

lemma canon_payload_inject:
  "canon (to_payload_dict r) = canon (to_payload_dict r') \<longleftrightarrow>
     seq r = seq r' \<and> timestamp r = timestamp r' \<and> actor r = actor r' \<and> action r = action r' \<and>
     subject r = subject r' \<and> canon (PyDict (metadata r)) = canon (PyDict (metadata r')) \<and>
     prev_hash r = prev_hash r'"
  unfolding to_payload_dict_def by (auto simp: canon_dict [of "[_, _, _, _, _, _, _]"] sort_payload)

text \<open>What a record says: all that the hash covers, with the metadata up to the order of keys.\<close>

definition same_content :: "audit_record \<Rightarrow> audit_record \<Rightarrow> bool" where
  "same_content r r' =
     (seq r = seq r' \<and> timestamp r = timestamp r' \<and> actor r = actor r' \<and> action r = action r' \<and>
      subject r = subject r' \<and> canon (PyDict (metadata r)) = canon (PyDict (metadata r')) \<and>
      prev_hash r = prev_hash r')"

lemma same_content_refl [simp]: "same_content r r"
  by (simp add: same_content_def)

lemma to_payload_bytes_inject:
  assumes "to_payload_bytes r = Inr b" and "to_payload_bytes r' = Inr b"
    and "wf_record r" and "wf_record r'"
  shows "same_content r r'"
proof -
  from assms(1,2) obtain s where "dumps compact (to_payload_dict r) = Inr s"
    "dumps compact (to_payload_dict r') = Inr s"
    by (auto simp: to_payload_bytes_def result_simps encode_utf8_def split: if_splits)
  then have "canon (to_payload_dict r) = canon (to_payload_dict r')"
    using assms(3,4) by (auto intro: dumps_canon_inject wf_payload)
  then show ?thesis by (simp add: same_content_def canon_payload_inject)
qed

text \<open>Values that differ in the order of keys only are printed alike.\<close>

lemma dump_canon: "wf_value False v \<Longrightarrow> dump_value st (canon v) n = dump_value st v n"
proof (induction v arbitrary: n)
  case (PyList xs)
  then show ?case by (auto simp: dump_list wf_list cong: map_cong)
next
  case (PyDict d)
  let ?s = "sort_key fst d"
  have "map (member_text st m) (map (map_prod id canon) ?s) = map (member_text st m) ?s" for m
    using PyDict by (auto simp: member_text_def wf_dict)
  moreover have "sort_key fst (map (map_prod id canon) ?s) = map (map_prod id canon) ?s"
    by (simp add: sort_map_prod sort_key_id_if_sorted)
  ultimately show ?case by (simp only: dump_dict canon_dict)
qed auto

lemma wf_canon: "wf_value False v \<Longrightarrow> wf_value False (canon v)"
proof (induction v)
  case (PyList xs)
  then show ?case by (auto simp: wf_list)
next
  case (PyDict d)
  then have "distinct (map fst (sort_key fst d))" by (simp add: wf_dict distinct_map)
  with PyDict show ?case by (auto simp: canon_dict wf_dict comp_def)
qed auto

lemma canon_canon [simp]: "wf_value False v \<Longrightarrow> canon (canon v) = canon v"
proof (induction v)
  case (PyList xs)
  then show ?case by (auto simp: wf_list)
next
  case (PyDict d)
  have "sort_key fst (map (map_prod id canon) (sort_key fst d)) = map (map_prod id canon) (sort_key fst d)"
    by (simp add: sort_map_prod sort_key_id_if_sorted)
  with PyDict show ?case by (auto simp: canon_dict wf_dict)
qed auto

lemma to_payload_bytes_canon:
  assumes "same_content r r'" and "wf_record r" and "wf_record r'"
  shows "to_payload_bytes r = to_payload_bytes r'"
proof -
  have "dump_value compact (PyDict (metadata r)) 1 = dump_value compact (PyDict (metadata r')) 1"
    using assms dump_canon [of "PyDict (metadata r)" compact 1]
      dump_canon [of "PyDict (metadata r')" compact 1]
    by (simp add: same_content_def wf_record_def)
  with assms(1) show ?thesis
    by (simp add: to_payload_bytes_def payload_text same_content_def split: option.split)
qed

text \<open>A record has a payload unless its metadata holds an object that JSON does not know, or a string of
  it a lone surrogate.\<close>

definition clean_record :: "audit_record \<Rightarrow> bool" where
  "clean_record r =
     (list_all (\<lambda>f. \<not> has_surrogate (f r)) [timestamp, actor, action, subject, prev_hash] \<and>
      clean (PyDict (metadata r)))"

lemma clean_payload: "clean (to_payload_dict r) \<longleftrightarrow> clean_record r"
  by (auto simp: to_payload_dict_def clean_record_def clean_dict [of "[_, _, _, _, _, _, _]"])

lemma dumpable_payload: "dumpable (to_payload_dict r) \<longleftrightarrow> dumpable (PyDict (metadata r))"
  by (simp add: to_payload_dict_def dumpable_dict [of "[_, _, _, _, _, _, _]"])

lemma to_payload_bytes_Inl:
  "to_payload_bytes r = Inl e \<longleftrightarrow>
     (if \<not> dumpable (PyDict (metadata r)) then e = TypeError ''dumps''
      else \<not> clean_record r \<and> e = UnicodeEncodeError)"
proof (cases "dumps compact (to_payload_dict r)")
  case (Inl e')
  moreover from Inl have "\<not> dumpable (PyDict (metadata r))" "e' = TypeError ''dumps''"
    by (simp_all add: dumps_Inl dumpable_payload)
  ultimately show ?thesis by (auto simp: to_payload_bytes_def)
next
  case (Inr s)
  then have "dumpable (PyDict (metadata r))" using dumps_Inr dumpable_payload by blast
  moreover from Inr have "has_surrogate s \<longleftrightarrow> \<not> clean_record r"
    using dump_clean [of "to_payload_dict r" 0 s] by (simp add: clean_payload dumps_def split: option.splits)
  ultimately show ?thesis using Inr by (auto simp: to_payload_bytes_def encode_utf8_def)
qed

lemma to_payload_bytes_Inr:
  "(\<exists>b. to_payload_bytes r = Inr b) \<longleftrightarrow> dumpable (PyDict (metadata r)) \<and> clean_record r"
proof (cases "to_payload_bytes r")
  case (Inl e)
  with to_payload_bytes_Inl [of r e] show ?thesis by (auto split: if_splits)
next
  case (Inr b)
  with to_payload_bytes_Inl [of r "TypeError ''dumps''"] to_payload_bytes_Inl [of r UnicodeEncodeError]
  show ?thesis by (auto split: if_splits)
qed

end
