(* ===== verification/Hash.thy ===== *)
theory Hash
  imports Sha256 Records
begin

text \<open>
  \<open>hash.py\<close>: the seal of a record, SHA-256 or HMAC-SHA256 over the previous hash, a zero byte
  and the payload.

  The main lemma, \<open>record_hash_binds\<close>: two records with the same hash, under whatever keys,
  say the same thing, or the texts that were hashed for them hold a collision of SHA-256.
\<close>

definition seal_digest :: "bytes option \<Rightarrow> bytes \<Rightarrow> bytes" where
  "seal_digest seal_key data =
     (case seal_key of None \<Rightarrow> sha256 data | Some k \<Rightarrow> hmac_new sha256 k data)"

definition record_data :: "audit_record \<Rightarrow> bytes result" where
  "record_data r =
     bindE (encode_ascii (prev_hash r)) (\<lambda>p. bindE (to_payload_bytes r) (\<lambda>b. Inr (p @ [0] @ b)))"

definition compute_record_hash :: "audit_record \<Rightarrow> bytes option \<Rightarrow> string result" where
  "compute_record_hash r seal_key = bindE (record_data r) (\<lambda>data. Inr (hex (seal_digest seal_key data)))"

text \<open>\<open>hmac.compare_digest\<close> refuses a \<open>str\<close> that is not ASCII.\<close>

definition compare_digest :: "string \<Rightarrow> string \<Rightarrow> bool result" where
  "compare_digest a b =
     (if is_ascii a \<and> is_ascii b then Inr (a = b) else Inl (TypeError ''compare_digest''))"

definition verify_record_hash :: "audit_record \<Rightarrow> bytes option \<Rightarrow> bool result" where
  "verify_record_hash r seal_key = bindE (compute_record_hash r seal_key) (compare_digest (hash r))"

section \<open>Binding\<close>

text \<open>The texts SHA-256 is run on for one seal, the last one giving the seal.\<close>

definition seal_inputs :: "bytes option \<Rightarrow> bytes \<Rightarrow> bytes list" where
  "seal_inputs seal_key data =
     (case seal_key of
        None \<Rightarrow> [data]
      | Some k \<Rightarrow> [hmac_inner sha256 k data, hmac_outer sha256 k data])"

definition seal_collision :: "bytes option \<Rightarrow> bytes \<Rightarrow> bytes option \<Rightarrow> bytes \<Rightarrow> bool" where
  "seal_collision k d k' d' =
     (\<exists>x \<in> set (seal_inputs k d). \<exists>y \<in> set (seal_inputs k' d'). collides sha256 x y)"

lemma length_seal_digest: "length (seal_digest k d) = 32"
  by (simp add: seal_digest_def sha.length_hmac split: option.split)

lemma seal_binds:
  assumes "seal_digest k d = seal_digest k' d'" and "96 < length d" and "96 < length d'"
  shows "d = d' \<or> seal_collision k d k' d'"
proof -
  have plain: "sha256 x = hmac_new sha256 key y \<Longrightarrow> 96 < length x \<Longrightarrow>
      collides sha256 x (hmac_outer sha256 key y)" for x key y
    using sha.length_hmac_outer [of key y] by (auto simp: hmac_new_def collides_def)
  have sym: "collides sha256 x y \<Longrightarrow> collides sha256 y x" for x y
    by (auto simp: collides_def)
  show ?thesis
  proof (cases k)
    case None
    then show ?thesis
      using assms plain [of d] by (cases k') (auto simp: seal_digest_def seal_collision_def
          seal_inputs_def dest: collidesI)
  next
    case (Some key)
    then show ?thesis
      using assms plain [of d' key d] sym
        by (cases k') (auto simp: seal_digest_def seal_collision_def seal_inputs_def
            dest!: sha.hmac_binds)
  qed
qed

definition record_collision :: "bytes option \<Rightarrow> audit_record \<Rightarrow> bytes option \<Rightarrow> audit_record \<Rightarrow> bool" where
  "record_collision k r k' r' =
     (case (record_data r, record_data r') of
        (Inr d, Inr d') \<Rightarrow> seal_collision k d k' d'
      | _ \<Rightarrow> False)"

lemma record_data_Inr:
  "record_data r = Inr d \<longleftrightarrow>
     is_ascii (prev_hash r) \<and> (\<exists>b. to_payload_bytes r = Inr b \<and> d = raw_bytes (prev_hash r) @ [0] @ b)"
  by (auto simp: record_data_def encode_ascii_def result_simps)

lemma compute_record_hash_Inr:
  "compute_record_hash r k = Inr h \<longleftrightarrow> (\<exists>d. record_data r = Inr d \<and> h = hex (seal_digest k d))"
  by (auto simp: compute_record_hash_def result_simps)

lemma record_hash_shape: "compute_record_hash r k = Inr h \<Longrightarrow> length h = 64 \<and> is_ascii h"
  by (auto simp: compute_record_hash_Inr length_seal_digest)

lemma record_hash_fromhex: "compute_record_hash r k = Inr h \<Longrightarrow> \<exists>b. fromhex h = Inr b \<and> length b = 32"
  by (auto simp: compute_record_hash_Inr length_seal_digest)

theorem record_hash_binds:
  assumes h: "compute_record_hash r k = Inr h" "compute_record_hash r' k' = Inr h"
    and len: "length (prev_hash r) = 64" "length (prev_hash r') = 64"
    and wf: "wf_record r" "wf_record r'"
  shows "same_content r r' \<or> record_collision k r k' r'"
proof -
  from h obtain b b' where b: "to_payload_bytes r = Inr b" "to_payload_bytes r' = Inr b'"
    and d: "record_data r = Inr (raw_bytes (prev_hash r) @ [0] @ b)"
      "record_data r' = Inr (raw_bytes (prev_hash r') @ [0] @ b')"
    and "seal_digest k (raw_bytes (prev_hash r) @ [0] @ b) =
      seal_digest k' (raw_bytes (prev_hash r') @ [0] @ b')"
    by (auto simp: compute_record_hash_Inr record_data_Inr)
  then consider "raw_bytes (prev_hash r) @ [0] @ b = raw_bytes (prev_hash r') @ [0] @ b'"
    | "record_collision k r k' r'"
    using seal_binds [of k "raw_bytes (prev_hash r) @ [0] @ b" k' "raw_bytes (prev_hash r') @ [0] @ b'"]
      len b [THEN to_payload_bytes_length]
    by (auto simp: record_collision_def)
  then show ?thesis
  proof cases
    case 1
    with len have "b = b'" by simp
    with b wf show ?thesis by (auto intro: to_payload_bytes_inject)
  qed simp
qed

lemma record_data_same:
  "same_content r r' \<Longrightarrow> wf_record r \<Longrightarrow> wf_record r' \<Longrightarrow> record_data r = record_data r'"
  using to_payload_bytes_canon [of r r'] by (simp add: record_data_def same_content_def)

lemma compute_record_hash_same:
  "same_content r r' \<Longrightarrow> wf_record r \<Longrightarrow> wf_record r' \<Longrightarrow>
   compute_record_hash r k = compute_record_hash r' k"
  by (simp add: compute_record_hash_def record_data_same)

text \<open>The fields that are not hashed do not matter.\<close>

lemma compute_record_hash_unhashed [simp]:
  "compute_record_hash (r\<lparr>hash := a\<rparr>) k = compute_record_hash r k"
  "compute_record_hash (r\<lparr>key_id := a\<rparr>) k = compute_record_hash r k"
  "compute_record_hash (r\<lparr>signer_id := a\<rparr>) k = compute_record_hash r k"
  "compute_record_hash (r\<lparr>signature := a\<rparr>) k = compute_record_hash r k"
  by (simp_all add: compute_record_hash_def record_data_def to_payload_bytes_def to_payload_dict_def)

lemma verify_record_hash_iff:
  "verify_record_hash r k = Inr True \<longleftrightarrow> compute_record_hash r k = Inr (hash r)"
  using record_hash_shape
  by (auto simp: verify_record_hash_def compare_digest_def result_simps split: if_splits)

text \<open>When a record can be hashed, and what is raised when it cannot.\<close>

lemma compute_record_hash_defined:
  "(\<exists>h. compute_record_hash r k = Inr h) \<longleftrightarrow>
     is_ascii (prev_hash r) \<and> dumpable (PyDict (metadata r)) \<and> clean_record r"
  unfolding to_payload_bytes_Inr [symmetric] by (auto simp: compute_record_hash_Inr record_data_Inr)

lemma compute_record_hash_Inl:
  "is_ascii (prev_hash r) \<Longrightarrow>
   compute_record_hash r k = Inl e \<longleftrightarrow>
     (if \<not> dumpable (PyDict (metadata r)) then e = TypeError ''dumps''
      else \<not> clean_record r \<and> e = UnicodeEncodeError)"
  unfolding to_payload_bytes_Inl [symmetric]
  by (simp add: compute_record_hash_def record_data_def encode_ascii_def result_simps)

end
