(* ===== verification/Signing.thy ===== *)
theory Signing
  imports Hash
begin

text \<open>
  \<open>signing.py\<close>: Ed25519 signatures over records and checkpoints. The primitives are those of
  the optional package \<open>cryptography\<close>, which is not part of the repository: the record
  \<open>ed25519\<close> holds what the module calls, and every function takes one. A key object of that
  package stands as its raw bytes, the seed for a private key.

  The lemmas: signing and checking fit together (\<open>verify_sign_record\<close>, under the named
  hypothesis \<open>ed25519_ok\<close>), checking never raises on a bad signature, and the signed message
  determines sequence number, hash and signer (\<open>signing_message_inject\<close>).
\<close>

section \<open>The package \<open>cryptography\<close>\<close>

record ed25519 =
  available :: bool
  from_private_bytes :: "bytes \<Rightarrow> bytes result"
  from_public_bytes :: "bytes \<Rightarrow> bytes result"
  public_key_of :: "bytes \<Rightarrow> bytes"
  sign :: "bytes \<Rightarrow> bytes \<Rightarrow> bytes"
  check :: "bytes \<Rightarrow> bytes \<Rightarrow> bytes \<Rightarrow> bool"

text \<open>\<open>check pub sig msg\<close> is false when \<open>verify\<close> raises \<open>InvalidSignature\<close>. What the package
  documents: it is installed, seeds and public keys have 32 bytes, a signature is not empty (it
  has 64 bytes), and one made with a private key is accepted by its public key.\<close>

definition ed25519_ok :: "ed25519 \<Rightarrow> bool" where
  "ed25519_ok lib =
     (available lib \<and>
      (\<forall>seed. length seed = 32 \<longrightarrow>
         from_private_bytes lib seed = Inr seed \<and> length (public_key_of lib seed) = 32 \<and>
         from_public_bytes lib (public_key_of lib seed) = Inr (public_key_of lib seed) \<and>
         (\<forall>msg. sign lib seed msg \<noteq> [] \<and> check lib (public_key_of lib seed) (sign lib seed msg) msg)))"

section \<open>Keys\<close>

text \<open>What a caller may pass as a key.\<close>

datatype key_arg =
    StrKey string
  | BytesKey bytes
  | PrivateKey bytes
  | PublicKey bytes
  | OtherKey

definition require_cryptography :: "ed25519 \<Rightarrow> unit result" where
  "require_cryptography lib = (if available lib then Inr () else Inl SignatureUnavailableError)"

definition of_length :: "nat \<Rightarrow> bytes \<Rightarrow> bytes result" where
  "of_length n raw =
     (if length raw = n then Inr raw else Inl (SignatureError ''key has the wrong length''))"

definition key_bytes :: "key_arg \<Rightarrow> nat \<Rightarrow> bytes result" where
  "key_bytes key expected_length =
     (case key of
        StrKey s \<Rightarrow>
          (case fromhex (strip s) of
             Inl _ \<Rightarrow> Inl (SignatureError ''key must be raw bytes or hex'')
           | Inr raw \<Rightarrow> of_length expected_length raw)
      | BytesKey raw \<Rightarrow> of_length expected_length raw
      | _ \<Rightarrow> Inl (SignatureError ''key must be bytes or a hex string''))"

definition load_private_key :: "ed25519 \<Rightarrow> key_arg \<Rightarrow> bytes result" where
  "load_private_key lib key =
     bindE (require_cryptography lib) (\<lambda>_.
       case key of
         PrivateKey seed \<Rightarrow> Inr seed
       | _ \<Rightarrow> bindE (key_bytes key 32) (from_private_bytes lib))"

definition load_public_key :: "ed25519 \<Rightarrow> key_arg \<Rightarrow> bytes result" where
  "load_public_key lib key =
     bindE (require_cryptography lib) (\<lambda>_.
       case key of
         PublicKey pub \<Rightarrow> Inr pub
       | _ \<Rightarrow> bindE (key_bytes key 32) (from_public_bytes lib))"

text \<open>The seed is the random value drawn by \<open>Ed25519PrivateKey.generate\<close>.\<close>

definition generate_keypair :: "ed25519 \<Rightarrow> bytes \<Rightarrow> (bytes \<times> bytes) result" where
  "generate_keypair lib seed =
     bindE (require_cryptography lib) (\<lambda>_. Inr (seed, public_key_of lib seed))"

section \<open>Signatures\<close>

definition record_signing_message :: "audit_record \<Rightarrow> bytes result" where
  "record_signing_message r =
     encode_utf8 (dec_int (seq r) @ '':'' @ hash r @ '':'' @ signer_id r)"

definition sign_message :: "ed25519 \<Rightarrow> bytes \<Rightarrow> key_arg \<Rightarrow> string result" where
  "sign_message lib msg private_key =
     bindE (load_private_key lib private_key) (\<lambda>key. Inr (hex (sign lib key msg)))"

definition verify_signature :: "ed25519 \<Rightarrow> string \<Rightarrow> bytes \<Rightarrow> key_arg \<Rightarrow> bool result" where
  "verify_signature lib sig msg public_key =
     bindE (load_public_key lib public_key) (\<lambda>key.
       case fromhex sig of
         Inl _ \<Rightarrow> Inr False
       | Inr raw \<Rightarrow> Inr (check lib key raw msg))"

definition sign_record :: "ed25519 \<Rightarrow> audit_record \<Rightarrow> key_arg \<Rightarrow> string result" where
  "sign_record lib r private_key =
     bindE (record_signing_message r) (\<lambda>msg. sign_message lib msg private_key)"

definition verify_record_signature :: "ed25519 \<Rightarrow> audit_record \<Rightarrow> key_arg \<Rightarrow> bool result" where
  "verify_record_signature lib r public_key =
     bindE (record_signing_message r) (\<lambda>msg. verify_signature lib (signature r) msg public_key)"

section \<open>Signer maps\<close>

text \<open>\<open>spec.partition("=")\<close>.\<close>

definition partition_eq :: "string \<Rightarrow> string \<times> string" where
  "partition_eq spec =
     (takeWhile (\<lambda>c. c \<noteq> CHR ''='') spec, drop 1 (dropWhile (\<lambda>c. c \<noteq> CHR ''='') spec))"

text \<open>The file system is the argument \<open>files\<close>: the contents of a path that is a file.\<close>

definition load_signer :: "(string \<Rightarrow> bytes option) \<Rightarrow> string \<Rightarrow> (string \<times> bytes) result" where
  "load_signer files spec =
     (let name = strip (fst (partition_eq spec)); v = strip (snd (partition_eq spec))
      in if name = [] \<or> v = [] then Inl (SignatureError ''expected name=path or name=hex'')
         else case files v of
                Some content \<Rightarrow> Inr (name, content)
              | None \<Rightarrow> bindE (key_bytes (StrKey v) 32) (\<lambda>raw. Inr (name, raw)))"

fun load_signers_into ::
  "(string \<Rightarrow> bytes option) \<Rightarrow> string list \<Rightarrow> (string \<times> bytes) list \<Rightarrow> (string \<times> bytes) list result" where
  "load_signers_into files [] signers = Inr signers"
| "load_signers_into files (spec # specs) signers =
     bindE (load_signer files spec) (\<lambda>(name, key). load_signers_into files specs (dict_put signers name key))"

definition load_signers :: "(string \<Rightarrow> bytes option) \<Rightarrow> string list \<Rightarrow> (string \<times> bytes) list result" where
  "load_signers files specs = load_signers_into files specs []"

definition describe_signers :: "(string \<times> 'k) list \<Rightarrow> string" where
  "describe_signers signers =
     (if signers = [] then ''no signers'' else join '', '' (sort (map fst signers)))"

section \<open>Facts\<close>

lemma load_own_keys:
  assumes "ed25519_ok lib" and "length seed = 32"
  shows "load_private_key lib (PrivateKey seed) = Inr seed"
    "load_private_key lib (BytesKey seed) = Inr seed"
    "load_public_key lib (PublicKey pub) = Inr pub"
    "load_public_key lib (BytesKey (public_key_of lib seed)) = Inr (public_key_of lib seed)"
  using assms
  by (simp_all add: ed25519_ok_def load_private_key_def load_public_key_def require_cryptography_def
      key_bytes_def of_length_def)

text \<open>A loaded key is usable as itself.\<close>

lemma load_loaded_private:
  "load_private_key lib k = Inr seed \<Longrightarrow> load_private_key lib (PrivateKey seed) = Inr seed"
  by (auto simp: load_private_key_def result_simps)

lemma verify_sign_message:
  assumes "ed25519_ok lib" and "load_private_key lib sk = Inr seed" and "length seed = 32"
    and "load_public_key lib pk = Inr (public_key_of lib seed)"
    and "sign_message lib msg sk = Inr sig"
  shows "verify_signature lib sig msg pk = Inr True"
  using assms by (auto simp: ed25519_ok_def sign_message_def verify_signature_def result_simps)

lemma signing_message_Inr:
  "record_signing_message r = Inr m \<longleftrightarrow>
     \<not> has_surrogate (dec_int (seq r) @ '':'' @ hash r @ '':'' @ signer_id r) \<and>
     m = raw_bytes (dec_int (seq r) @ '':'' @ hash r @ '':'' @ signer_id r)"
  by (auto simp: record_signing_message_def encode_utf8_def)

lemma signing_message_inject:
  assumes "record_signing_message r = Inr m" and "record_signing_message r' = Inr m"
    and "CHR '':'' \<notin> set (hash r)" and "CHR '':'' \<notin> set (hash r')"
  shows "seq r = seq r' \<and> hash r = hash r' \<and> signer_id r = signer_id r'"
proof -
  from assms(1,2) have "dec_int (seq r) @ CHR '':'' # hash r @ CHR '':'' # signer_id r =
      dec_int (seq r') @ CHR '':'' # hash r' @ CHR '':'' # signer_id r'"
    by (auto simp: signing_message_Inr simp del: raw_bytes_append)
  from split_at_separator [OF this colon_not_in_dec_int colon_not_in_dec_int]
  have "dec_int (seq r) = dec_int (seq r')"
    and rest: "hash r @ CHR '':'' # signer_id r = hash r' @ CHR '':'' # signer_id r'" by blast+
  moreover from rest assms(3,4) have "hash r = hash r' \<and> signer_id r = signer_id r'"
    by (rule split_at_separator)
  ultimately show ?thesis by simp
qed

lemma colon_not_in_record_hash: "compute_record_hash r k = Inr h \<Longrightarrow> CHR '':'' \<notin> set h"
  by (auto simp: compute_record_hash_Inr colon_not_in_hex)

lemma verify_signature_raises:
  "verify_signature lib sig msg pk = Inl e \<longleftrightarrow> load_public_key lib pk = Inl e"
  by (cases "fromhex sig") (auto simp: verify_signature_def result_simps)

lemma verify_record_signature_True:
  "verify_record_signature lib r pk = Inr True \<longleftrightarrow>
     (\<exists>m key raw. record_signing_message r = Inr m \<and> load_public_key lib pk = Inr key \<and>
        fromhex (signature r) = Inr raw \<and> check lib key raw m)"
  by (cases "fromhex (signature r)")
    (auto simp: verify_record_signature_def verify_signature_def result_simps)

text \<open>An instance that satisfies \<open>ed25519_ok\<close>, for evaluating the functions above: its signature is the
  key followed by the message, and the public key is the seed.\<close>

definition demo_ed25519 :: ed25519 where
  "demo_ed25519 =
     \<lparr>available = True, from_private_bytes = Inr, from_public_bytes = Inr, public_key_of = id,
      sign = (\<lambda>seed msg. seed @ msg), check = (\<lambda>pub sig msg. sig = pub @ msg)\<rparr>"

lemma demo_ed25519_ok: "ed25519_ok demo_ed25519"
  by (auto simp: ed25519_ok_def demo_ed25519_def)

text \<open>A record and a seed to evaluate the properties on.\<close>

definition sample_record :: audit_record where
  "sample_record = \<lparr>seq = 0, timestamp = ''2026-01-01T00:00:00.000000Z'', actor = ''alice'',
     action = ''login'', subject = [], metadata = [], prev_hash = GENESIS_HASH, hash = hex [171],
     key_id = ''k0'', signer_id = ''s0'', signature = []\<rparr>"

definition sample_seed :: bytes where "sample_seed = replicate 32 7"

lemma length_sample_seed [simp]: "length sample_seed = 32"
  by (simp add: sample_seed_def)

lemma sample_signature:
  "\<exists>m. record_signing_message sample_record = Inr m \<and>
     sign_record demo_ed25519 sample_record (BytesKey sample_seed) = Inr (hex (sample_seed @ m))"
proof -
  have "is_ascii (dec_int 0 @ '':'' @ hex [171] @ '':'' @ ''s0'')" by simp
  from encode_utf8_ascii [OF this] show ?thesis
    using load_own_keys(2) [OF demo_ed25519_ok length_sample_seed]
    by (simp add: sign_record_def sign_message_def record_signing_message_def sample_record_def)
      (simp add: demo_ed25519_def)
qed

section \<open>Properties\<close>

text \<open>A record signed with a private key verifies under the public key that belongs to it, in
  whichever form the two keys are given.\<close>

theorem sign_record_verifies:
  assumes "ed25519_ok lib" and "load_private_key lib sk = Inr seed" and "length seed = 32"
    and "load_public_key lib pk = Inr (public_key_of lib seed)"
    and "sign_record lib r sk = Inr sig"
  shows "verify_record_signature lib (r\<lparr>signature := sig\<rparr>) pk = Inr True"
proof -
  from assms(5) obtain m where m: "record_signing_message r = Inr m" "sign_message lib m sk = Inr sig"
    by (auto simp: sign_record_def result_simps)
  have "record_signing_message (r\<lparr>signature := sig\<rparr>) = Inr m"
    using m(1) by (simp add: record_signing_message_def)
  with verify_sign_message [OF assms(1-4) m(2)] show ?thesis
    by (simp add: verify_record_signature_def)
qed

theorem sign_record_verifies_witness:
  "\<exists>sig. sign_record demo_ed25519 sample_record (BytesKey sample_seed) = Inr sig \<and>
     verify_record_signature demo_ed25519 (sample_record\<lparr>signature := sig\<rparr>)
       (PublicKey (public_key_of demo_ed25519 sample_seed)) = Inr True"
proof -
  note keys = load_own_keys [OF demo_ed25519_ok length_sample_seed]
  obtain sig where "sign_record demo_ed25519 sample_record (BytesKey sample_seed) = Inr sig"
    using sample_signature by blast
  with sign_record_verifies [OF demo_ed25519_ok keys(2) length_sample_seed keys(3) this] show ?thesis by blast
qed

end
