(* ===== verification/Checkpoint.thy ===== *)
theory Checkpoint
  imports Signing
begin

text \<open>
  \<open>checkpoint.py\<close>: anchors of the chain, their signed message, and the checkpoint file. The
  HMAC is computed with the seal key, the Ed25519 signature by the parameter of the theory
  \<open>Signing\<close>. A file is the text written to it and read back.

  The lemmas: what a loaded checkpoint satisfies (\<open>load_checkpoint_Inr\<close>), and the file's
  round trip (\<open>parse_saved\<close>).
\<close>

section \<open>Checkpoints\<close>

record checkpoint =
  cp_seq :: int
  cp_hash :: string
  cp_key_id :: string
  cp_timestamp :: string
  cp_signature :: string
  cp_merkle_root :: string
  cp_signer_id :: string
  cp_signature_ed25519 :: string

definition signed :: "checkpoint \<Rightarrow> bool" where
  "signed cp = (cp_signature_ed25519 cp \<noteq> [])"

definition checkpoint_text :: "int \<Rightarrow> string \<Rightarrow> string \<Rightarrow> string \<Rightarrow> string" where
  "checkpoint_text s h kid mroot =
     (let data = dec_int s @ '':'' @ h @ '':'' @ kid in if mroot \<noteq> [] then data @ '':'' @ mroot else data)"

definition checkpoint_message :: "int \<Rightarrow> string \<Rightarrow> string \<Rightarrow> string \<Rightarrow> bytes result" where
  "checkpoint_message s h kid mroot = encode_utf8 (checkpoint_text s h kid mroot)"

definition message_of :: "checkpoint \<Rightarrow> bytes result" where
  "message_of cp = checkpoint_message (cp_seq cp) (cp_hash cp) (cp_key_id cp) (cp_merkle_root cp)"

definition verify_checkpoint_signature :: "ed25519 \<Rightarrow> checkpoint \<Rightarrow> key_arg \<Rightarrow> bool result" where
  "verify_checkpoint_signature lib cp public_key =
     (if cp_signature_ed25519 cp = [] then Inr False
      else bindE (message_of cp) (\<lambda>msg. verify_signature lib (cp_signature_ed25519 cp) msg public_key))"

definition hmac_signature :: "int \<Rightarrow> string \<Rightarrow> string \<Rightarrow> bytes \<Rightarrow> string \<Rightarrow> string result" where
  "hmac_signature s h kid seal_key mroot =
     bindE (checkpoint_message s h kid mroot) (\<lambda>msg. Inr (hex (hmac_new sha256 seal_key msg)))"

text \<open>\<open>if seal_key\<close> is false of an empty key.\<close>

definition make_checkpoint ::
  "ed25519 \<Rightarrow> audit_record \<Rightarrow> bytes option \<Rightarrow> string \<Rightarrow> key_arg option \<Rightarrow> string \<Rightarrow> checkpoint result" where
  "make_checkpoint lib r seal_key mroot signing_key signer =
     bindE (case seal_key of
              None \<Rightarrow> Inr []
            | Some k \<Rightarrow> if k = [] then Inr [] else hmac_signature (seq r) (hash r) (key_id r) k mroot)
       (\<lambda>sig.
     bindE (case signing_key of
              None \<Rightarrow> Inr []
            | Some sk \<Rightarrow> bindE (checkpoint_message (seq r) (hash r) (key_id r) mroot)
                           (\<lambda>msg. sign_message lib msg sk))
       (\<lambda>ed.
         Inr \<lparr>cp_seq = seq r, cp_hash = hash r, cp_key_id = key_id r, cp_timestamp = timestamp r,
              cp_signature = sig, cp_merkle_root = mroot,
              cp_signer_id = (if ed \<noteq> [] then signer else []), cp_signature_ed25519 = ed\<rparr>))"

section \<open>Checkpoint files\<close>

definition checkpoint_version :: "checkpoint \<Rightarrow> int" where
  "checkpoint_version cp =
     (if cp_signature_ed25519 cp \<noteq> [] then 3 else if cp_merkle_root cp \<noteq> [] then 2 else 1)"

definition checkpoint_payload :: "checkpoint \<Rightarrow> pyval" where
  "checkpoint_payload cp =
     PyDict
      ([(''version'', PyInt (checkpoint_version cp)), (''seq'', PyInt (cp_seq cp)),
        (''hash'', PyStr (cp_hash cp)), (''key_id'', PyStr (cp_key_id cp)),
        (''ts'', PyStr (cp_timestamp cp)), (''sig'', PyStr (cp_signature cp))]
       @ (if cp_merkle_root cp \<noteq> [] then [(''merkle_root'', PyStr (cp_merkle_root cp))] else [])
       @ (if cp_signature_ed25519 cp \<noteq> []
          then [(''signer_id'', PyStr (cp_signer_id cp)),
                (''signature_ed25519'', PyStr (cp_signature_ed25519 cp))]
          else []))"

definition save_checkpoint :: "checkpoint \<Rightarrow> string result" where
  "save_checkpoint cp = bindE (dumps pretty (checkpoint_payload cp)) (\<lambda>t. Inr (t @ [CHR 0x0A]))"

definition parse_checkpoint :: "pyval \<Rightarrow> checkpoint result" where
  "parse_checkpoint payload =
     bindE (bindE (get_item payload ''seq'') py_int) (\<lambda>s.
     bindE (get_item payload ''hash'') (\<lambda>h.
       let field = (\<lambda>k. case payload of
                          PyDict d \<Rightarrow> py_str (dict_get d k (PyStr [])) | _ \<Rightarrow> [])
       in Inr \<lparr>cp_seq = s, cp_hash = py_str h, cp_key_id = field ''key_id'',
               cp_timestamp = field ''ts'', cp_signature = field ''sig'',
               cp_merkle_root = field ''merkle_root'', cp_signer_id = field ''signer_id'',
               cp_signature_ed25519 = field ''signature_ed25519''\<rparr>))"

definition MODIFIED :: exn where
  "MODIFIED = ValueError ''checkpoint signature mismatch: the checkpoint was modified''"

definition check_ed25519 :: "ed25519 \<Rightarrow> checkpoint \<Rightarrow> key_arg option \<Rightarrow> bool result" where
  "check_ed25519 lib cp public_key =
     (if cp_signature_ed25519 cp = [] then Inr False
      else case public_key of
             None \<Rightarrow> Inl (ValueError ''checkpoint is signed with Ed25519; pass the public key to verify it'')
           | Some pk \<Rightarrow>
               bindE (verify_checkpoint_signature lib cp pk) (\<lambda>ok.
                 if ok then Inr True else Inl MODIFIED))"

definition check_hmac :: "checkpoint \<Rightarrow> bytes option \<Rightarrow> unit result" where
  "check_hmac cp seal_key =
     (case seal_key of
        None \<Rightarrow> Inl (ValueError ''checkpoint is signed; pass the seal key to load it'')
      | Some k \<Rightarrow>
          bindE (hmac_signature (cp_seq cp) (cp_hash cp) (cp_key_id cp) k (cp_merkle_root cp)) (\<lambda>expected.
          bindE (compare_digest (cp_signature cp) expected) (\<lambda>ok.
            if ok then Inr () else Inl MODIFIED)))"

definition load_checkpoint ::
  "ed25519 \<Rightarrow> string \<Rightarrow> bytes option \<Rightarrow> key_arg option \<Rightarrow> checkpoint result" where
  "load_checkpoint lib text seal_key public_key =
     bindE (loads text) (\<lambda>payload.
     bindE (parse_checkpoint payload) (\<lambda>cp.
     bindE (check_ed25519 lib cp public_key) (\<lambda>signed_asymmetrically.
     bindE (if cp_signature cp \<noteq> [] \<and> \<not> signed_asymmetrically then check_hmac cp seal_key else Inr ()) (\<lambda>_.
       Inr cp))))"

section \<open>Facts\<close>

lemma hmac_signature_Inr:
  "hmac_signature s h kid k mroot = Inr sig \<longleftrightarrow>
     (\<exists>m. checkpoint_message s h kid mroot = Inr m \<and> sig = hex (hmac_new sha256 k m))"
  by (auto simp: hmac_signature_def result_simps)

text \<open>A checkpoint is authentic for given keys when its signature, the asymmetric one if there is
  one, is right for its message.\<close>

definition authentic :: "ed25519 \<Rightarrow> checkpoint \<Rightarrow> bytes option \<Rightarrow> key_arg option \<Rightarrow> bool" where
  "authentic lib cp seal_key public_key =
     (if cp_signature_ed25519 cp \<noteq> []
      then (case public_key of
              None \<Rightarrow> False
            | Some pk \<Rightarrow> verify_checkpoint_signature lib cp pk = Inr True)
      else cp_signature cp \<noteq> [] \<longrightarrow>
           (case (seal_key, message_of cp) of
              (Some k, Inr m) \<Rightarrow> cp_signature cp = hex (hmac_new sha256 k m)
            | _ \<Rightarrow> False))"

lemma authentic_iff:
  "authentic lib cp sk pk \<longleftrightarrow>
     (cp_signature_ed25519 cp \<noteq> [] \<longrightarrow>
        (\<exists>k. pk = Some k \<and> verify_checkpoint_signature lib cp k = Inr True)) \<and>
     (cp_signature_ed25519 cp = [] \<and> cp_signature cp \<noteq> [] \<longrightarrow>
        (\<exists>k m. sk = Some k \<and> message_of cp = Inr m \<and> cp_signature cp = hex (hmac_new sha256 k m)))"
  unfolding authentic_def by (cases pk; cases sk; cases "message_of cp"; simp)

lemma check_ed25519_Inr:
  "check_ed25519 lib cp pk = Inr b \<longleftrightarrow>
     (if cp_signature_ed25519 cp = [] then \<not> b
      else b \<and> (\<exists>k. pk = Some k \<and> verify_checkpoint_signature lib cp k = Inr True))"
  by (auto simp: check_ed25519_def result_simps split: option.splits if_splits)

lemma compare_digest_True: "compare_digest a (hex b) = Inr True \<longleftrightarrow> a = hex b"
  by (auto simp: compare_digest_def)

lemma check_hmac_Inr:
  "check_hmac cp sk = Inr u \<longleftrightarrow>
     (\<exists>k m. sk = Some k \<and> message_of cp = Inr m \<and> cp_signature cp = hex (hmac_new sha256 k m))"
proof (cases sk)
  case (Some k)
  have "check_hmac cp sk = Inr u \<longleftrightarrow>
    (\<exists>m. message_of cp = Inr m \<and> compare_digest (cp_signature cp) (hex (hmac_new sha256 k m)) = Inr True)"
    by (simp add: Some check_hmac_def hmac_signature_def message_of_def result_simps) blast
  then show ?thesis by (simp add: Some compare_digest_True)
qed (simp add: check_hmac_def)

lemma checks_authentic:
  "(\<exists>b. check_ed25519 lib cp pk = Inr b \<and>
     (\<exists>u. (if cp_signature cp \<noteq> [] \<and> \<not> b then check_hmac cp sk else Inr ()) = Inr u)) \<longleftrightarrow>
   authentic lib cp sk pk"
proof (cases "cp_signature_ed25519 cp = []")
  case True
  then show ?thesis
    by (cases sk; cases "message_of cp") (auto simp: authentic_def check_ed25519_Inr check_hmac_Inr)
next
  case False
  then show ?thesis by (cases pk) (auto simp: authentic_def check_ed25519_Inr)
qed

lemma load_checkpoint_Inr:
  "load_checkpoint lib t sk pk = Inr cp \<longleftrightarrow>
     (\<exists>v. loads t = Inr v \<and> parse_checkpoint v = Inr cp) \<and> authentic lib cp sk pk"
  unfolding load_checkpoint_def bindE_Inr_iff checks_authentic [symmetric] by blast

definition ascii_checkpoint :: "checkpoint \<Rightarrow> bool" where
  "ascii_checkpoint cp =
     list_all (\<lambda>f. is_ascii (f cp))
       [cp_hash, cp_key_id, cp_timestamp, cp_signature, cp_merkle_root, cp_signer_id, cp_signature_ed25519]"

lemma parse_payload:
  assumes "cp_signature_ed25519 cp = [] \<longrightarrow> cp_signer_id cp = []"
  shows "parse_checkpoint (canon (checkpoint_payload cp)) = Inr cp"
  using assms
  by (cases "cp_merkle_root cp = []"; cases "cp_signature_ed25519 cp = []")
    (simp_all add: checkpoint_payload_def canon_dict parse_checkpoint_def dict_item_def dict_get_def py_str_def)

lemma parse_saved:
  assumes "ascii_checkpoint cp" and "cp_signature_ed25519 cp = [] \<longrightarrow> cp_signer_id cp = []"
  shows "\<exists>t v. save_checkpoint cp = Inr t \<and> loads t = Inr v \<and> parse_checkpoint v = Inr cp"
proof -
  have "dumpable (checkpoint_payload cp)"
    by (auto simp: checkpoint_payload_def dumpable_dict)
  then obtain s where s: "dumps pretty (checkpoint_payload cp) = Inr s"
    using dumps_Inr by blast
  have "wf_value True (checkpoint_payload cp)"
    using assms(1)
    by (auto simp: checkpoint_payload_def wf_dict ascii_checkpoint_def text_ok_def is_ascii_def)
  then have "loads (s @ [CHR 0x0A]) = Inr (canon (checkpoint_payload cp))"
    using s by (intro loads_dumps_ws [of pretty]) (simp_all add: is_json_ws_def ensure_ascii_pretty)
  then show ?thesis using s parse_payload [OF assms(2)] by (simp add: save_checkpoint_def)
qed

lemma message_of_Inr:
  "message_of cp = Inr m \<longleftrightarrow>
     \<not> has_surrogate (checkpoint_text (cp_seq cp) (cp_hash cp) (cp_key_id cp) (cp_merkle_root cp)) \<and>
     m = raw_bytes (checkpoint_text (cp_seq cp) (cp_hash cp) (cp_key_id cp) (cp_merkle_root cp))"
  by (auto simp: message_of_def checkpoint_message_def encode_utf8_def)

lemma authentic_message:
  assumes "message_of cp = message_of cp'" and "cp_signature cp = cp_signature cp'"
    and "cp_signature_ed25519 cp = cp_signature_ed25519 cp'"
  shows "authentic lib cp sk pk = authentic lib cp' sk pk"
  using assms by (simp add: authentic_iff verify_checkpoint_signature_def)

lemma make_checkpoint_Inr:
  assumes "make_checkpoint lib r sk R skey signer = Inr cp"
  shows "cp_seq cp = seq r" "cp_hash cp = hash r" "cp_key_id cp = key_id r" "cp_merkle_root cp = R"
    "cp_timestamp cp = timestamp r"
    "cp_signature_ed25519 cp = [] \<longrightarrow> cp_signer_id cp = []"
    "message_of cp = checkpoint_message (seq r) (hash r) (key_id r) R"
    "cp_signature cp \<noteq> [] \<longrightarrow> (\<exists>k m. sk = Some k \<and> message_of cp = Inr m \<and>
       cp_signature cp = hex (hmac_new sha256 k m))"
    "cp_signature_ed25519 cp \<noteq> [] \<longrightarrow> (\<exists>k m. skey = Some k \<and> message_of cp = Inr m \<and>
       sign_message lib m k = Inr (cp_signature_ed25519 cp))"
  using assms
  by (auto simp: make_checkpoint_def message_of_def result_simps hmac_signature_Inr
      split: option.splits if_splits)

lemma make_checkpoint_authentic:
  assumes "make_checkpoint lib r sk R skey signer = Inr cp"
    and "ed25519_ok lib" and "length seed = 32" and "skey \<in> {None, Some (BytesKey seed)}"
  shows "authentic lib cp sk (Some (BytesKey (public_key_of lib seed)))"
proof (cases "cp_signature_ed25519 cp = []")
  case True
  with make_checkpoint_Inr(8) [OF assms(1)] show ?thesis by (auto simp: authentic_iff)
next
  case False
  note keys = load_own_keys [OF assms(2,3)]
  from False make_checkpoint_Inr(9) [OF assms(1)] assms(4) obtain m where
    m: "message_of cp = Inr m" "sign_message lib m (BytesKey seed) = Inr (cp_signature_ed25519 cp)"
    by auto
  with False show ?thesis
    using verify_sign_message [OF assms(2) keys(2) assms(3) keys(4) m(2)]
    by (simp add: authentic_iff verify_checkpoint_signature_def)
qed

lemma load_saved:
  assumes "ascii_checkpoint cp" and "cp_signature_ed25519 cp = [] \<longrightarrow> cp_signer_id cp = []"
    and "authentic lib cp sk pk"
  shows "\<exists>t. save_checkpoint cp = Inr t \<and> load_checkpoint lib t sk pk = Inr cp"
  using parse_saved [OF assms(1,2)] assms(3) by (auto simp: load_checkpoint_Inr)

lemma message_inject:
  assumes "message_of cp = Inr m" and "message_of cp' = Inr m"
    and "CHR '':'' \<notin> set (cp_hash cp)" and "CHR '':'' \<notin> set (cp_hash cp')"
    and "CHR '':'' \<notin> set (cp_key_id cp)" and "CHR '':'' \<notin> set (cp_key_id cp')"
  shows "cp_seq cp = cp_seq cp' \<and> cp_hash cp = cp_hash cp' \<and> cp_key_id cp = cp_key_id cp' \<and>
    cp_merkle_root cp = cp_merkle_root cp'"
proof -
  define tail where "tail = (\<lambda>cp :: checkpoint. cp_key_id cp @ (if cp_merkle_root cp = [] then [] else CHR '':'' # cp_merkle_root cp))"
  have shape: "checkpoint_text (cp_seq c) (cp_hash c) (cp_key_id c) (cp_merkle_root c) =
      dec_int (cp_seq c) @ CHR '':'' # cp_hash c @ CHR '':'' # tail c" for c
    by (simp add: checkpoint_text_def tail_def Let_def)
  from assms(1,2) have "dec_int (cp_seq cp) @ CHR '':'' # cp_hash cp @ CHR '':'' # tail cp =
      dec_int (cp_seq cp') @ CHR '':'' # cp_hash cp' @ CHR '':'' # tail cp'"
    by (auto simp: message_of_Inr shape simp del: raw_bytes_append)
  from split_at_separator [OF this colon_not_in_dec_int colon_not_in_dec_int]
  have eq: "cp_seq cp = cp_seq cp'"
    "cp_hash cp @ CHR '':'' # tail cp = cp_hash cp' @ CHR '':'' # tail cp'" by simp_all
  from split_at_separator [OF eq(2) assms(3,4)] have "cp_hash cp = cp_hash cp'" "tail cp = tail cp'" by simp_all
  moreover have "a @ CHR '':'' # b \<noteq> c" if "CHR '':'' \<notin> set c" for a b c :: string
    using that by auto
  moreover from calculation(2-) assms(5,6) have "cp_key_id cp = cp_key_id cp' \<and> cp_merkle_root cp = cp_merkle_root cp'"
    using split_at_separator [of "cp_key_id cp" "CHR '':''" "cp_merkle_root cp" "cp_key_id cp'" "cp_merkle_root cp'"]
    by (auto simp: tail_def split: if_splits)
  ultimately show ?thesis using eq(1) by simp
qed

lemma checkpoint_message_ascii:
  "is_ascii h \<Longrightarrow> is_ascii kid \<Longrightarrow> is_ascii R \<Longrightarrow>
   checkpoint_message s h kid R = Inr (raw_bytes (checkpoint_text s h kid R))"
  by (simp add: checkpoint_message_def encode_utf8_ascii checkpoint_text_def Let_def)

lemma sample_checkpoint:
  "\<exists>cp. make_checkpoint demo_ed25519 sample_record (Some [1]) (hex [205]) (Some (BytesKey sample_seed)) ''s0''
      = Inr cp \<and>
    ascii_checkpoint cp \<and> cp_signature_ed25519 cp \<noteq> [] \<and> cp_signature cp \<noteq> []"
proof -
  have ascii: "is_ascii ''k0''" "is_ascii ''s0''" "is_ascii ''2026-01-01T00:00:00.000000Z''"
    by simp_all
  have "hmac_new sha256 k m \<noteq> []" for k m using sha.length_hmac [of k m] by auto
  then show ?thesis
    using load_own_keys(2) [OF demo_ed25519_ok length_sample_seed]
    by (simp add: make_checkpoint_def sample_record_def hmac_signature_def checkpoint_message_ascii ascii
        sign_message_def ascii_checkpoint_def)
      (simp add: demo_ed25519_def sample_seed_def)
qed

section \<open>Properties\<close>

text \<open>A checkpoint that \<open>load_checkpoint\<close> returns and that carries a signature was verified:
  its Ed25519 signature by the public key given, or else its HMAC under the seal key given.\<close>

theorem load_checkpoint_verified:
  assumes "load_checkpoint lib t sk pk = Inr cp"
  shows "(cp_signature_ed25519 cp \<noteq> [] \<longrightarrow>
      (\<exists>k. pk = Some k \<and> verify_checkpoint_signature lib cp k = Inr True)) \<and>
    (cp_signature_ed25519 cp = [] \<and> cp_signature cp \<noteq> [] \<longrightarrow>
      (\<exists>k m. sk = Some k \<and> message_of cp = Inr m \<and> cp_signature cp = hex (hmac_new sha256 k m)))"
  using assms by (simp add: load_checkpoint_Inr authentic_iff)

theorem load_checkpoint_verified_witness:
  "\<exists>t cp. load_checkpoint demo_ed25519 t None (Some (BytesKey (public_key_of demo_ed25519 sample_seed))) = Inr cp \<and>
     verify_checkpoint_signature demo_ed25519 cp (BytesKey (public_key_of demo_ed25519 sample_seed)) = Inr True"
proof -
  let ?pk = "Some (BytesKey (public_key_of demo_ed25519 sample_seed))"
  obtain cp where
    make: "make_checkpoint demo_ed25519 sample_record (Some [1]) (hex [205]) (Some (BytesKey sample_seed)) ''s0'' = Inr cp"
    and cp: "ascii_checkpoint cp" "cp_signature_ed25519 cp \<noteq> []"
    using sample_checkpoint by blast
  from make_checkpoint_authentic [OF make demo_ed25519_ok length_sample_seed] have "authentic demo_ed25519 cp None ?pk"
    using cp(2) by (simp add: authentic_iff)
  with cp load_saved obtain t where "load_checkpoint demo_ed25519 t None ?pk = Inr cp" by blast
  with load_checkpoint_verified [OF this] cp(2) show ?thesis by auto
qed

text \<open>C16: A checkpoint that was made is, once saved, loaded back as it was, with the seal key and the
  public key of its writer; only its strings have to be ASCII.\<close>

theorem checkpoint_roundtrip:
  assumes "make_checkpoint lib r sk R skey signer = Inr cp" and "ascii_checkpoint cp"
    and "ed25519_ok lib" and "length seed = 32" and "skey \<in> {None, Some (BytesKey seed)}"
  shows "\<exists>t. save_checkpoint cp = Inr t \<and>
    load_checkpoint lib t sk (Some (BytesKey (public_key_of lib seed))) = Inr cp"
  using load_saved [OF assms(2) make_checkpoint_Inr(6) [OF assms(1)] make_checkpoint_authentic [OF assms(1,3-5)]] .

theorem checkpoint_roundtrip_witness:
  "\<exists>cp t. make_checkpoint demo_ed25519 sample_record (Some [1]) (hex [205]) (Some (BytesKey sample_seed)) ''s0'' = Inr cp \<and>
     save_checkpoint cp = Inr t \<and>
     load_checkpoint demo_ed25519 t (Some [1]) (Some (BytesKey (public_key_of demo_ed25519 sample_seed))) = Inr cp"
proof -
  obtain cp where
    "make_checkpoint demo_ed25519 sample_record (Some [1]) (hex [205]) (Some (BytesKey sample_seed)) ''s0'' = Inr cp"
    "ascii_checkpoint cp"
    using sample_checkpoint by blast
  with checkpoint_roundtrip [OF this demo_ed25519_ok length_sample_seed] show ?thesis by blast
qed

text \<open>The signed message of a checkpoint determines the anchor, as long as neither the hash nor
  the key id holds a colon: two checkpoints with the same HMAC under one seal key anchor the same
  record and the same root, or the messages hold a collision of SHA-256.\<close>

theorem checkpoint_hmac_binds:
  assumes "message_of cp = Inr m" and "message_of cp' = Inr m'"
    and "hmac_new sha256 k m = hmac_new sha256 k m'"
    and "list_all (\<lambda>s. CHR '':'' \<notin> set s) [cp_hash cp, cp_key_id cp, cp_hash cp', cp_key_id cp']"
  shows "(cp_seq cp = cp_seq cp' \<and> cp_hash cp = cp_hash cp' \<and> cp_key_id cp = cp_key_id cp' \<and>
      cp_merkle_root cp = cp_merkle_root cp') \<or>
    collides sha256 (hmac_outer sha256 k m) (hmac_outer sha256 k m') \<or>
    collides sha256 (hmac_inner sha256 k m) (hmac_inner sha256 k m')"
  using sha.hmac_binds [OF assms(3)] message_inject [of cp m cp'] assms(1,2,4) by auto

theorem checkpoint_hmac_binds_witness:
  "\<exists>cp m. message_of cp = Inr m \<and> cp_key_id cp = ''k0'' \<and> \<not> collides sha256 (hmac_outer sha256 [1] m) (hmac_outer sha256 [1] m)"
proof -
  obtain cp where
    make: "make_checkpoint demo_ed25519 sample_record (Some [1]) (hex [205]) (Some (BytesKey sample_seed)) ''s0'' = Inr cp"
    and sig: "cp_signature cp \<noteq> []"
    using sample_checkpoint by blast
  from make_checkpoint_Inr(8) [OF make] sig obtain m where m: "message_of cp = Inr m" by blast
  have "list_all (\<lambda>s. CHR '':'' \<notin> set s) [cp_hash cp, cp_key_id cp, cp_hash cp, cp_key_id cp]" "cp_key_id cp = ''k0''"
    using make_checkpoint_Inr(2,3) [OF make] colon_not_in_hex by (simp_all add: sample_record_def)
  with checkpoint_hmac_binds [OF m m refl this(1)] m show ?thesis by auto
qed

text \<open>C18: The Merkle root can be taken out of a signed checkpoint: moved behind the key id, it leaves
  the signed message as it was, and the changed checkpoint, which has no root, is loaded with
  the same keys.\<close>

theorem merkle_root_strippable:
  assumes "load_checkpoint lib t sk pk = Inr cp" and "ascii_checkpoint cp"
    and "cp_merkle_root cp \<noteq> []" and "cp_signature_ed25519 cp = [] \<longrightarrow> cp_signer_id cp = []"
  shows "\<exists>t'. load_checkpoint lib t' sk pk =
    Inr (cp\<lparr>cp_key_id := cp_key_id cp @ '':'' @ cp_merkle_root cp, cp_merkle_root := []\<rparr>)"
proof -
  let ?cp = "cp\<lparr>cp_key_id := cp_key_id cp @ '':'' @ cp_merkle_root cp, cp_merkle_root := []\<rparr>"
  have "message_of ?cp = message_of cp"
    using assms(3) by (simp add: message_of_def checkpoint_message_def checkpoint_text_def)
  then have "authentic lib ?cp sk pk"
    using authentic_message [of ?cp cp] assms(1) by (simp add: load_checkpoint_Inr)
  moreover have "ascii_checkpoint ?cp" using assms(2) by (simp add: ascii_checkpoint_def)
  ultimately show ?thesis using load_saved [of ?cp lib sk pk] assms(4) by auto
qed

theorem merkle_root_strippable_witness:
  "\<exists>t t' cp. load_checkpoint demo_ed25519 t (Some [1]) (Some (BytesKey (public_key_of demo_ed25519 sample_seed))) = Inr cp \<and>
     cp_merkle_root cp = hex [205] \<and>
     load_checkpoint demo_ed25519 t' (Some [1]) (Some (BytesKey (public_key_of demo_ed25519 sample_seed))) =
       Inr (cp\<lparr>cp_key_id := cp_key_id cp @ '':'' @ cp_merkle_root cp, cp_merkle_root := []\<rparr>)"
proof -
  let ?pk = "Some (BytesKey (public_key_of demo_ed25519 sample_seed))"
  obtain cp where
    make: "make_checkpoint demo_ed25519 sample_record (Some [1]) (hex [205]) (Some (BytesKey sample_seed)) ''s0'' = Inr cp"
    and cp: "ascii_checkpoint cp" "cp_signature_ed25519 cp \<noteq> []"
    using sample_checkpoint by blast
  note parts = make_checkpoint_Inr [OF make]
  from load_saved [OF cp(1) parts(6) make_checkpoint_authentic [OF make demo_ed25519_ok length_sample_seed]]
  obtain t where t: "load_checkpoint demo_ed25519 t (Some [1]) ?pk = Inr cp" by auto
  moreover have "cp_merkle_root cp \<noteq> []" using parts(4) by (simp add: hex_Cons)
  ultimately show ?thesis using merkle_root_strippable [OF t cp(1)] cp(2) parts(4) by blast
qed

text \<open>Passing a public key or a seal key does not ask for a signature: a checkpoint that carries
  none, say one whose signatures were deleted and whose anchor was then changed, is loaded
  whatever the keys.\<close>

theorem unsigned_checkpoint_accepted:
  assumes "ascii_checkpoint cp" and "cp_signer_id cp = []"
    and "cp_signature cp = []" and "cp_signature_ed25519 cp = []"
  shows "\<exists>t. save_checkpoint cp = Inr t \<and> load_checkpoint lib t sk pk = Inr cp"
  using load_saved [of cp lib sk pk] assms by (simp add: authentic_iff)

theorem unsigned_checkpoint_accepted_witness:
  "\<exists>t. load_checkpoint demo_ed25519 t (Some [1]) (Some (BytesKey (public_key_of demo_ed25519 sample_seed))) =
     Inr \<lparr>cp_seq = 7, cp_hash = ''00'', cp_key_id = [], cp_timestamp = [], cp_signature = [],
       cp_merkle_root = [], cp_signer_id = [], cp_signature_ed25519 = []\<rparr>"
  using unsigned_checkpoint_accepted [of "\<lparr>cp_seq = 7, cp_hash = ''00'', cp_key_id = [], cp_timestamp = [],
      cp_signature = [], cp_merkle_root = [], cp_signer_id = [], cp_signature_ed25519 = []\<rparr>" demo_ed25519
      "Some [1]" "Some (BytesKey (public_key_of demo_ed25519 sample_seed))"]
  by (auto simp: ascii_checkpoint_def)

text \<open>C19: Records and checkpoints are signed over texts of the same shape: the Ed25519 signature of a
  record is a valid signature of a checkpoint for its sequence number and hash, without a Merkle
  root and with the signer in the place of the key id, which nobody ever issued.\<close>

theorem record_signature_is_checkpoint_signature:
  assumes "ed25519_ok lib" and "length seed = 32" and "sign_record lib r (BytesKey seed) = Inr sig"
    and "is_ascii (hash r)" and "is_ascii (signer_id r)" and "sig \<noteq> []"
  shows "\<exists>t. load_checkpoint lib t None (Some (BytesKey (public_key_of lib seed))) =
    Inr \<lparr>cp_seq = seq r, cp_hash = hash r, cp_key_id = signer_id r, cp_timestamp = [], cp_signature = [],
         cp_merkle_root = [], cp_signer_id = signer_id r, cp_signature_ed25519 = sig\<rparr>"
proof -
  let ?pk = "BytesKey (public_key_of lib seed)"
  let ?cp = "\<lparr>cp_seq = seq r, cp_hash = hash r, cp_key_id = signer_id r, cp_timestamp = [], cp_signature = [],
    cp_merkle_root = [], cp_signer_id = signer_id r, cp_signature_ed25519 = sig\<rparr>"
  note keys = load_own_keys [OF assms(1,2)]
  from assms(3) obtain m where m: "record_signing_message r = Inr m" "sign_message lib m (BytesKey seed) = Inr sig"
    by (auto simp: sign_record_def result_simps)
  have "message_of ?cp = Inr m"
    using m(1) by (simp add: message_of_def checkpoint_message_def checkpoint_text_def record_signing_message_def)
  then have "authentic lib ?cp None (Some ?pk)"
    using verify_sign_message [OF assms(1) keys(2) assms(2) keys(4) m(2)] assms(6)
    by (simp add: authentic_iff verify_checkpoint_signature_def)
  moreover have "is_ascii sig" using m(2) by (auto simp: sign_message_def result_simps)
  ultimately show ?thesis
    using load_saved [of ?cp lib None "Some ?pk"] assms(4-6) by (auto simp: ascii_checkpoint_def)
qed

theorem record_signature_is_checkpoint_signature_witness:
  "\<exists>t cp. load_checkpoint demo_ed25519 t None (Some (BytesKey (public_key_of demo_ed25519 sample_seed))) = Inr cp \<and>
     sign_record demo_ed25519 sample_record (BytesKey sample_seed) = Inr (cp_signature_ed25519 cp)"
proof -
  obtain m where sig: "sign_record demo_ed25519 sample_record (BytesKey sample_seed) = Inr (hex (sample_seed @ m))"
    using sample_signature by blast
  let ?sig = "hex (sample_seed @ m)"
  have "?sig \<noteq> []" "is_ascii (hash sample_record)" "is_ascii (signer_id sample_record)"
    by (simp_all add: sample_seed_def sample_record_def)
  with record_signature_is_checkpoint_signature [OF demo_ed25519_ok length_sample_seed sig] sig
  show ?thesis by fastforce
qed

end
