(* ===== verification/Merkle.thy ===== *)
theory Merkle
  imports Sha256 Records
begin

text \<open>
  \<open>merkle.py\<close>: the Merkle tree of RFC 6962 over record hashes, inclusion proofs, and their JSON
  form. Positions and sizes that have passed the range checks of \<open>fold\<close> and \<open>merkle_proof\<close> are
  natural numbers.

  What is proved of it stands in the theory \<open>Merkle_Properties\<close>.
\<close>

section \<open>Hashes of the tree\<close>

definition LEAF_PREFIX :: bytes where "LEAF_PREFIX = [0]"

definition NODE_PREFIX :: bytes where "NODE_PREFIX = [1]"

definition EMPTY_ROOT :: string where "EMPTY_ROOT = hex (sha256 [])"

definition leaf_hash :: "string \<Rightarrow> bytes result" where
  "leaf_hash record_hash = bindE (fromhex record_hash) (\<lambda>b. Inr (sha256 (LEAF_PREFIX @ b)))"

definition node_hash :: "bytes \<Rightarrow> bytes \<Rightarrow> bytes" where
  "node_hash left right = sha256 (NODE_PREFIX @ left @ right)"

text \<open>The loop of \<open>_split\<close>; \<open>k\<close> starts at 1, so the first conjunct is always true.\<close>

function split_loop :: "nat \<Rightarrow> nat \<Rightarrow> nat" where
  "split_loop k n = (if 0 < k \<and> k * 2 < n then split_loop (k * 2) n else k)"
  by pat_completeness auto
termination
  by (relation "measure (\<lambda>(k, n). n - k)") auto

declare split_loop.simps [simp del]

definition split :: "nat \<Rightarrow> nat" where
  "split n = split_loop 1 n"

lemma split_loop_bounds:
  "0 < k \<Longrightarrow> k < n \<Longrightarrow> split_loop k n < n \<and> n \<le> 2 * split_loop k n \<and> k \<le> split_loop k n"
proof (induction k n rule: split_loop.induct)
  case (1 k n)
  show ?case
  proof (cases "k * 2 < n")
    case True
    with 1 show ?thesis by (simp add: split_loop.simps [of k n])
  next
    case False
    with 1 show ?thesis by (simp add: split_loop.simps [of k n])
  qed
qed

lemma split_loop_power: "\<exists>e. split_loop k n = k * 2 ^ e"
proof (induction k n rule: split_loop.induct)
  case (1 k n)
  show ?case
  proof (cases "0 < k \<and> k * 2 < n")
    case True
    with 1 obtain e where "split_loop (k * 2) n = k * 2 * 2 ^ e" by blast
    with True have "split_loop k n = k * 2 ^ Suc e" by (simp add: split_loop.simps [of k n])
    then show ?thesis ..
  next
    case False
    have "split_loop k n = k * 2 ^ 0" using False by (subst split_loop.simps) auto
    then show ?thesis ..
  qed
qed

lemma split_bounds:
  assumes "2 \<le> n"
  shows "0 < split n" "split n < n" "n \<le> 2 * split n"
  using split_loop_bounds [of 1 n] assms by (auto simp: split_def)

lemma split_decreases:
  assumes "Suc 0 < n"
  shows "split n < n" "n - split n < n" "0 < split n"
  using split_bounds [of n] assms by linarith+

text \<open>No caller passes the empty list (Python would not return from it).\<close>

function subtree_root :: "bytes list \<Rightarrow> bytes" where
  "subtree_root leaves =
     (if length leaves \<le> 1 then concat leaves
      else let k = split (length leaves)
           in node_hash (subtree_root (take k leaves)) (subtree_root (drop k leaves)))"
  by pat_completeness auto
termination
  by (relation "measure length") (auto simp: split_decreases)

declare subtree_root.simps [simp del]

definition merkle_root :: "string list \<Rightarrow> string result" where
  "merkle_root record_hashes =
     bindE (mapE leaf_hash record_hashes)
       (\<lambda>leaves. Inr (if leaves = [] then EMPTY_ROOT else hex (subtree_root leaves)))"

section \<open>Inclusion proofs\<close>

record proof_step =
  side :: string
  step_hash :: string

record inclusion_proof =
  p_seq :: int
  p_size :: int
  p_leaf :: string
  p_root :: string
  p_path :: "proof_step list"

definition LEFT :: string where "LEFT = ''left''"

definition RIGHT :: string where "RIGHT = ''right''"

lemma LEFT_RIGHT [simp]: "LEFT \<noteq> RIGHT" "RIGHT \<noteq> LEFT"
  by (simp_all add: LEFT_def RIGHT_def)

text \<open>The list \<open>acc\<close> is appended to, from the top of the tree downwards.\<close>

function collect :: "bytes list \<Rightarrow> nat \<Rightarrow> proof_step list \<Rightarrow> proof_step list" where
  "collect leaves index acc =
     (if length leaves \<le> 1 then acc
      else let k = split (length leaves)
           in if index < k
              then collect (take k leaves) index
                     (acc @ [\<lparr>side = RIGHT, step_hash = hex (subtree_root (drop k leaves))\<rparr>])
              else collect (drop k leaves) (index - k)
                     (acc @ [\<lparr>side = LEFT, step_hash = hex (subtree_root (take k leaves))\<rparr>]))"
  by pat_completeness auto
termination
  by (relation "measure (\<lambda>(leaves, index, acc). length leaves)") (auto simp: split_decreases)

declare collect.simps [simp del]

definition merkle_proof :: "string list \<Rightarrow> int \<Rightarrow> inclusion_proof result" where
  "merkle_proof record_hashes s =
     (if \<not> (0 \<le> s \<and> s < int (length record_hashes)) then Inl (ValueError ''seq is outside the log'')
      else bindE (mapE leaf_hash record_hashes)
        (\<lambda>leaves. Inr \<lparr>p_seq = s, p_size = int (length record_hashes),
           p_leaf = record_hashes ! nat s, p_root = hex (subtree_root leaves),
           p_path = rev (collect leaves (nat s) [])\<rparr>))"

text \<open>\<open>_fold\<close> pops steps off the end of the list; the result carries what is left of it. The size
  is positive in every call.\<close>

function fold_path ::
  "nat \<Rightarrow> nat \<Rightarrow> bytes \<Rightarrow> proof_step list \<Rightarrow> (bytes \<times> proof_step list) result" where
  "fold_path index n lf steps =
     (if n \<le> 1 then Inr (lf, steps)
      else if steps = [] then Inl (IndexError ''pop'')
      else let step = last steps; rest = butlast steps
           in if side step \<notin> {LEFT, RIGHT} then Inl (ValueError ''unknown sibling side'')
              else bindE (fromhex (step_hash step)) (\<lambda>sibling.
                let k = split n
                in if index < k
                   then if side step \<noteq> RIGHT
                        then Inl (ValueError ''sibling side does not match the tree position'')
                        else bindE (fold_path index k lf rest)
                               (\<lambda>(h, r). Inr (node_hash h sibling, r))
                   else if side step \<noteq> LEFT
                        then Inl (ValueError ''sibling side does not match the tree position'')
                        else bindE (fold_path (index - k) (n - k) lf rest)
                               (\<lambda>(h, r). Inr (node_hash sibling h, r))))"
  by pat_completeness auto
termination
  by (relation "measure (\<lambda>(index, n, lf, steps). n)") (auto simp: split_decreases)

declare fold_path.simps [simp del]

definition is_index_error :: "exn \<Rightarrow> bool" where
  "is_index_error e = (case e of IndexError _ \<Rightarrow> True | _ \<Rightarrow> False)"

definition fold :: "inclusion_proof \<Rightarrow> string result" where
  "fold p =
     (if p_size p < 1 then Inl (ValueError ''proof size must be at least 1'')
      else if \<not> (0 \<le> p_seq p \<and> p_seq p < p_size p) then Inl (ValueError ''seq is outside a log'')
      else case bindE (leaf_hash (p_leaf p))
                  (\<lambda>lf. fold_path (nat (p_seq p)) (nat (p_size p)) lf (p_path p)) of
             Inl e \<Rightarrow>
               (if is_value_error e \<or> is_index_error e
                then Inl (ValueError ''malformed inclusion proof'') else Inl e)
           | Inr (h, steps) \<Rightarrow>
               (if steps \<noteq> [] then Inl (ValueError ''malformed inclusion proof: extra hashes in the path'')
                else Inr (hex h)))"

definition verify_proof :: "inclusion_proof \<Rightarrow> string option \<Rightarrow> bool result" where
  "verify_proof p r =
     (let expected = (case r of None \<Rightarrow> p_root p | Some x \<Rightarrow> x)
      in case fold p of
           Inr h \<Rightarrow> Inr (h = lower expected)
         | Inl e \<Rightarrow> if is_value_error e then Inr False else Inl e)"

section \<open>The JSON form of a proof\<close>

definition step_to_json :: "proof_step \<Rightarrow> pyval" where
  "step_to_json st = PyDict [(''side'', PyStr (side st)), (''hash'', PyStr (step_hash st))]"

definition to_json :: "inclusion_proof \<Rightarrow> pyval" where
  "to_json p =
     PyDict [(''version'', PyInt 1), (''seq'', PyInt (p_seq p)), (''size'', PyInt (p_size p)),
       (''leaf'', PyStr (p_leaf p)), (''root'', PyStr (p_root p)),
       (''path'', PyList (map step_to_json (p_path p)))]"

fun as_int :: "pyval \<Rightarrow> int result" where
  "as_int (PyInt i) = Inr i"
| "as_int _ = Inl (ValueError ''malformed inclusion proof: must be an integer'')"

fun as_str :: "pyval \<Rightarrow> string result" where
  "as_str (PyStr s) = Inr s"
| "as_str _ = Inl (ValueError ''malformed inclusion proof: must be a string'')"

definition step_from_json :: "pyval \<Rightarrow> proof_step result" where
  "step_from_json v =
     bindE (bindE (get_item v ''side'') as_str) (\<lambda>sd.
     bindE (bindE (get_item v ''hash'') as_str) (\<lambda>h. Inr \<lparr>side = sd, step_hash = h\<rparr>))"

definition is_key_or_type_error :: "exn \<Rightarrow> bool" where
  "is_key_or_type_error e = (case e of KeyError _ \<Rightarrow> True | TypeError _ \<Rightarrow> True | _ \<Rightarrow> False)"

definition from_json :: "pyval \<Rightarrow> inclusion_proof result" where
  "from_json payload =
     (case payload of
        PyDict d \<Rightarrow>
          (case dict_get d ''path'' (PyList []) of
             PyList raw_path \<Rightarrow>
               (case bindE (mapE step_from_json raw_path) (\<lambda>steps.
                     bindE (bindE (dict_item d ''seq'') as_int) (\<lambda>s.
                     bindE (bindE (dict_item d ''size'') as_int) (\<lambda>n.
                     bindE (bindE (dict_item d ''leaf'') as_str) (\<lambda>l.
                     bindE (bindE (dict_item d ''root'') as_str) (\<lambda>r.
                       Inr \<lparr>p_seq = s, p_size = n, p_leaf = l, p_root = r, p_path = steps\<rparr>))))) of
                  Inl e \<Rightarrow>
                    if is_key_or_type_error e then Inl (ValueError ''malformed inclusion proof'')
                    else Inl e
                | Inr p \<Rightarrow> Inr p)
           | _ \<Rightarrow> Inl (ValueError ''malformed inclusion proof: path must be a list''))
      | _ \<Rightarrow> Inl (AttributeError ''get''))"

text \<open>\<open>dumps\<close> with an indentation or without; \<open>save\<close> and \<open>load\<close> as the text that is written and
  read.\<close>

definition proof_dumps :: "inclusion_proof \<Rightarrow> bool \<Rightarrow> string result" where
  "proof_dumps p indented = dumps (if indented then pretty else one_line) (to_json p)"

definition proof_save :: "inclusion_proof \<Rightarrow> string result" where
  "proof_save p = bindE (proof_dumps p True) (\<lambda>t. Inr (t @ [CHR 0x0A]))"

definition proof_load :: "string \<Rightarrow> inclusion_proof result" where
  "proof_load text = bindE (loads text) from_json"

end
