(* ===== verification/Merkle_Properties.thy ===== *)
theory Merkle_Properties
  imports Merkle
begin

text \<open>
  What the tree and its proofs promise. Statements that rest on SHA-256 end in an explicit
  collision: one of the texts hashed for the proof and one of those hashed for the tree
  (\<open>proof_inputs\<close>, \<open>tree_inputs\<close>) differ and have the same digest.
\<close>

section \<open>The texts that are hashed\<close>

definition colliding :: "bytes list \<Rightarrow> bytes list \<Rightarrow> bool" where
  "colliding xs ys = (\<exists>x \<in> set xs. \<exists>y \<in> set ys. collides sha256 x y)"

lemma collidingI: "x \<in> set xs \<Longrightarrow> y \<in> set ys \<Longrightarrow> x \<noteq> y \<Longrightarrow> sha256 x = sha256 y \<Longrightarrow> colliding xs ys"
  by (auto simp: colliding_def collides_def)

lemma colliding_mono: "colliding xs ys \<Longrightarrow> set xs \<subseteq> set xs' \<Longrightarrow> set ys \<subseteq> set ys' \<Longrightarrow> colliding xs' ys'"
  by (auto simp: colliding_def)

lemma colliding_grow:
  "colliding (x # xs) ys \<Longrightarrow> set ys \<subseteq> set ys' \<Longrightarrow> colliding (x # y # xs) ys'"
  by (auto simp: colliding_def)

definition node_text :: "bytes \<Rightarrow> bytes \<Rightarrow> bytes" where
  "node_text l r = NODE_PREFIX @ l @ r"

definition leaf_text :: "bytes \<Rightarrow> bytes" where
  "leaf_text b = LEAF_PREFIX @ b"

lemma leaf_text_neq [simp]: "leaf_text b \<noteq> node_text l r" "node_text l r \<noteq> leaf_text b"
  by (simp_all add: leaf_text_def node_text_def LEAF_PREFIX_def NODE_PREFIX_def)

lemma texts_nonempty [simp]: "leaf_text b \<noteq> []" "node_text l r \<noteq> []"
  by (simp_all add: leaf_text_def node_text_def LEAF_PREFIX_def NODE_PREFIX_def)

lemma leaf_text_inject [simp]: "leaf_text b = leaf_text c \<longleftrightarrow> b = c"
  by (simp add: leaf_text_def)

lemma node_text_inject:
  "length l = length l' \<or> length r = length r' \<Longrightarrow> node_text l r = node_text l' r' \<longleftrightarrow> l = l' \<and> r = r'"
  by (auto simp: node_text_def)

lemma node_hash_text: "node_hash l r = sha256 (node_text l r)"
  by (simp add: node_hash_def node_text_def)

function node_inputs :: "bytes list \<Rightarrow> bytes list" where
  "node_inputs ls =
     (if length ls \<le> 1 then []
      else let k = split (length ls)
           in node_text (subtree_root (take k ls)) (subtree_root (drop k ls))
                # node_inputs (take k ls) @ node_inputs (drop k ls))"
  by pat_completeness auto
termination
  by (relation "measure length") (auto simp: split_decreases)

declare node_inputs.simps [simp del]

text \<open>The bytes a record hash stands for.\<close>

definition hash_bytes :: "string \<Rightarrow> bytes" where
  "hash_bytes h = (case fromhex h of Inr b \<Rightarrow> b | Inl _ \<Rightarrow> [])"

definition leaves_of :: "bytes list \<Rightarrow> bytes list" where
  "leaves_of bs = map (\<lambda>b. sha256 (leaf_text b)) bs"

definition tree_inputs :: "string list \<Rightarrow> bytes list" where
  "tree_inputs hs =
     (let bs = map hash_bytes hs
      in if bs = [] then [[]] else map leaf_text bs @ node_inputs (leaves_of bs))"

lemma length_leaves_of [simp]: "length (leaves_of bs) = length bs"
  by (simp add: leaves_of_def)

lemma leaves_of_Nil [simp]: "leaves_of bs = [] \<longleftrightarrow> bs = []"
  by (simp add: leaves_of_def)

lemma leaf_hash_Inr:
  "leaf_hash h = Inr x \<longleftrightarrow> (\<exists>b. fromhex h = Inr b) \<and> x = sha256 (leaf_text (hash_bytes h))"
  by (auto simp: leaf_hash_def hash_bytes_def leaf_text_def result_simps)

lemma leaf_hash_Inl: "leaf_hash h = Inl e \<longleftrightarrow> fromhex h = Inl e"
  by (simp add: leaf_hash_def result_simps)

lemma leaf_hashes: "mapE leaf_hash hs = Inr ls \<longleftrightarrow>
    (\<forall>h \<in> set hs. \<exists>b. fromhex h = Inr b) \<and> ls = leaves_of (map hash_bytes hs)"
proof (induction hs arbitrary: ls)
  case (Cons h hs)
  show ?case by (auto simp: result_simps Cons.IH leaf_hash_Inr leaves_of_def)
qed (auto simp: leaves_of_def)

section \<open>Trees\<close>

lemma subtree_root_single: "subtree_root [x] = x"
  by (simp add: subtree_root.simps)

lemma subtree_root_node:
  "2 \<le> length ls \<Longrightarrow> subtree_root ls =
     sha256 (node_text (subtree_root (take (split (length ls)) ls)) (subtree_root (drop (split (length ls)) ls)))"
  by (subst subtree_root.simps) (simp add: Let_def node_hash_text)

lemma node_inputs_node:
  "2 \<le> length ls \<Longrightarrow> node_inputs ls =
     node_text (subtree_root (take (split (length ls)) ls)) (subtree_root (drop (split (length ls)) ls))
       # node_inputs (take (split (length ls)) ls) @ node_inputs (drop (split (length ls)) ls)"
  by (subst node_inputs.simps) (simp add: Let_def)

lemma take_drop_leaves_of:
  "take k (leaves_of bs) = leaves_of (take k bs)" "drop k (leaves_of bs) = leaves_of (drop k bs)"
  by (simp_all add: leaves_of_def take_map drop_map)

lemma length_subtree_root: "bs \<noteq> [] \<Longrightarrow> length (subtree_root (leaves_of bs)) = 32"
proof (cases bs rule: remdups_adj.cases)
  case (3 a b cs)
  then show ?thesis by (subst subtree_root_node) simp_all
qed (auto simp: leaves_of_def subtree_root_single)

text \<open>The shape of the tree.\<close>

lemma tree_cases:
  fixes bs :: "'a list"
  assumes "bs \<noteq> []"
  obtains (leaf) b where "bs = [b]"
    | (node) l r where "2 \<le> length bs" "l = take (split (length bs)) bs"
        "r = drop (split (length bs)) bs" "l \<noteq> []" "r \<noteq> []"
proof (cases "2 \<le> length bs")
  case True
  from split_bounds [OF this] True have "take (split (length bs)) bs \<noteq> []" "drop (split (length bs)) bs \<noteq> []"
    by auto
  with True show ?thesis using node by blast
next
  case False
  with assms show ?thesis using leaf by (cases bs; cases "tl bs") auto
qed

lemma tree_induct [consumes 1, case_names leaf node]:
  fixes bs :: "'a list"
  assumes "bs \<noteq> []"
    and "\<And>b. P [b]"
    and "\<And>bs l r. 2 \<le> length bs \<Longrightarrow> l = take (split (length bs)) bs \<Longrightarrow> r = drop (split (length bs)) bs \<Longrightarrow>
      l \<noteq> [] \<Longrightarrow> r \<noteq> [] \<Longrightarrow> P l \<Longrightarrow> P r \<Longrightarrow> P bs"
  shows "P bs"
  using assms(1)
proof (induction "length bs" arbitrary: bs rule: less_induct)
  case less
  from less.prems show ?case
  proof (cases bs rule: tree_cases)
    case (leaf b)
    then show ?thesis by (simp add: assms(2))
  next
    case (node l r)
    with split_bounds [of "length bs"] have "length l < length bs" "length r < length bs" by auto
    with node less.hyps show ?thesis by (intro assms(3) [OF node(1-5)])
  qed
qed

definition all_inputs :: "bytes list \<Rightarrow> bytes list" where
  "all_inputs bs = map leaf_text bs @ node_inputs (leaves_of bs)"

lemma all_inputs_single: "all_inputs [b] = [leaf_text b]"
  by (simp add: all_inputs_def node_inputs.simps)

lemma all_inputs_node:
  assumes "2 \<le> length bs" and "l = take (split (length bs)) bs" and "r = drop (split (length bs)) bs"
  shows "set (all_inputs bs) =
    insert (node_text (subtree_root (leaves_of l)) (subtree_root (leaves_of r))) (set (all_inputs l) \<union> set (all_inputs r))"
proof -
  have "set bs = set l \<union> set r" using assms(2,3) by (metis append_take_drop_id set_append)
  then show ?thesis
    using assms by (auto simp: all_inputs_def node_inputs_node take_drop_leaves_of)
qed

lemma root_node:
  assumes "2 \<le> length bs" and "l = take (split (length bs)) bs" and "r = drop (split (length bs)) bs"
  shows "subtree_root (leaves_of bs) =
    sha256 (node_text (subtree_root (leaves_of l)) (subtree_root (leaves_of r)))"
  using assms by (simp add: subtree_root_node take_drop_leaves_of)

lemma root_single: "subtree_root (leaves_of [b]) = sha256 (leaf_text b)"
  by (simp add: leaves_of_def subtree_root_single)

text \<open>A root determines the leaves, their number included.\<close>

lemma root_binds:
  assumes "bs \<noteq> []" and "cs \<noteq> []" and "subtree_root (leaves_of bs) = subtree_root (leaves_of cs)"
  shows "bs = cs \<or> colliding (all_inputs bs) (all_inputs cs)"
  using assms
proof (induction bs arbitrary: cs rule: tree_induct)
  case (leaf b)
  from leaf.prems(1) show ?case
  proof (cases cs rule: tree_cases)
    case (leaf c)
    with leaf.prems show ?thesis
      by (auto simp: root_single all_inputs_single colliding_def dest: collidesI)
  next
    case (node l r)
    with leaf.prems show ?thesis
      by (auto simp: root_single root_node all_inputs_single all_inputs_node colliding_def collides_def)
  qed
next
  case (node bs l r)
  from node.prems(1) show ?case
  proof (cases cs rule: tree_cases)
    case (leaf c)
    with node.hyps node.prems show ?thesis
      by (auto simp: root_single root_node all_inputs_single all_inputs_node colliding_def collides_def)
  next
    case (node l' r')
    note cs = this
    let ?t = "node_text (subtree_root (leaves_of l)) (subtree_root (leaves_of r))"
    let ?t' = "node_text (subtree_root (leaves_of l')) (subtree_root (leaves_of r'))"
    have subs: "set (all_inputs l) \<subseteq> set (all_inputs bs)" "set (all_inputs r) \<subseteq> set (all_inputs bs)"
      "set (all_inputs l') \<subseteq> set (all_inputs cs)" "set (all_inputs r') \<subseteq> set (all_inputs cs)"
      "?t \<in> set (all_inputs bs)" "?t' \<in> set (all_inputs cs)"
      using all_inputs_node node.hyps cs by blast+
    show ?thesis
    proof (cases "?t = ?t'")
      case True
      then have "subtree_root (leaves_of l) = subtree_root (leaves_of l')"
        "subtree_root (leaves_of r) = subtree_root (leaves_of r')"
        using node.hyps cs by (auto simp: node_text_inject length_subtree_root)
      then have "l = l' \<or> colliding (all_inputs l) (all_inputs l')"
        "r = r' \<or> colliding (all_inputs r) (all_inputs r')"
        using node.IH cs by auto
      moreover have "bs = l @ r" "cs = l' @ r'" using node.hyps cs by simp_all
      ultimately show ?thesis using subs by (auto intro: colliding_mono)
    next
      case False
      moreover have "sha256 ?t = sha256 ?t'" using node.prems(2) node.hyps cs by (simp add: root_node)
      ultimately show ?thesis using subs by (auto intro: collidingI)
    qed
  qed
qed

lemma merkle_root_Inr:
  "merkle_root hs = Inr r \<longleftrightarrow>
     (\<forall>h \<in> set hs. \<exists>b. fromhex h = Inr b) \<and>
     r = hex (if hs = [] then sha256 [] else subtree_root (leaves_of (map hash_bytes hs)))"
  by (auto simp: merkle_root_def result_simps leaf_hashes EMPTY_ROOT_def)

lemma tree_inputs_all: "hs \<noteq> [] \<Longrightarrow> tree_inputs hs = all_inputs (map hash_bytes hs)"
  by (simp add: tree_inputs_def all_inputs_def)

lemma tree_inputs_root:
  assumes "hs \<noteq> []"
  shows "\<exists>t \<in> set (tree_inputs hs). t \<noteq> [] \<and> subtree_root (leaves_of (map hash_bytes hs)) = sha256 t"
proof -
  from assms have "map hash_bytes hs \<noteq> []" by simp
  then show ?thesis
    unfolding tree_inputs_all [OF assms]
  proof (cases rule: tree_cases)
    case (leaf b)
    show "\<exists>t\<in>set (all_inputs (map hash_bytes hs)). t \<noteq> [] \<and> subtree_root (leaves_of (map hash_bytes hs)) = sha256 t"
      unfolding leaf by (simp add: root_single all_inputs_single)
  next
    case (node l r)
    then show "\<exists>t\<in>set (all_inputs (map hash_bytes hs)). t \<noteq> [] \<and> subtree_root (leaves_of (map hash_bytes hs)) = sha256 t"
      using all_inputs_node [OF node(1-3)] root_node [OF node(1-3)] by auto
  qed
qed

lemma merkle_root_binds:
  assumes "merkle_root hs = Inr r" and "merkle_root gs = Inr r"
  shows "map hash_bytes hs = map hash_bytes gs \<or> colliding (tree_inputs hs) (tree_inputs gs)"
proof (cases "hs = [] \<or> gs = []")
  case True
  have sym: "colliding xs ys \<Longrightarrow> colliding ys xs" for xs ys
    unfolding colliding_def collides_def by metis
  have "gs = [] \<or> colliding (tree_inputs []) (tree_inputs gs)"
    if "merkle_root [] = Inr r" and "merkle_root gs = Inr r" for gs
  proof (cases "gs = []")
    case False
    with that tree_inputs_root [OF False] show ?thesis
      by (auto simp: merkle_root_Inr tree_inputs_def [of "[]"] intro: collidingI)
  qed simp
  with True assms sym show ?thesis by blast
next
  case False
  with assms show ?thesis
    using root_binds [of "map hash_bytes hs" "map hash_bytes gs"]
    by (auto simp: merkle_root_Inr tree_inputs_all)
qed

section \<open>Proofs are complete\<close>

lemma collect_acc: "collect ls i acc = acc @ collect ls i []"
proof (induction "length ls" arbitrary: ls i acc rule: less_induct)
  case less
  show ?case
  proof (cases "length ls \<le> 1")
    case True
    then show ?thesis by (simp add: collect.simps)
  next
    case False
    let ?l = "take (split (length ls)) ls" and ?r = "drop (split (length ls)) ls"
    from False have "length ?l < length ls" "length ?r < length ls"
      using split_decreases [of "length ls"] by auto
    from this [THEN less.hyps] have
      "collect ?l j (acc @ [x]) = acc @ collect ?l j [x]"
      "collect ?r j (acc @ [x]) = acc @ collect ?r j [x]" for j x
      by (metis append_assoc)+
    with False show ?thesis
      by (simp add: collect.simps [of ls] Let_def)
  qed
qed

lemma fold_path_leaf: "n \<le> 1 \<Longrightarrow> fold_path i n lf steps = Inr (lf, steps)"
  by (subst fold_path.simps) simp

lemma fold_path_left:
  assumes "2 \<le> n" and "i < split n"
  shows "fold_path i n lf (init @ [\<lparr>side = RIGHT, step_hash = hex sib\<rparr>]) =
    bindE (fold_path i (split n) lf init) (\<lambda>(h, r). Inr (node_hash h sib, r))"
  using assms by (subst fold_path.simps) (simp add: Let_def)

lemma fold_path_right:
  assumes "2 \<le> n" and "\<not> i < split n"
  shows "fold_path i n lf (init @ [\<lparr>side = LEFT, step_hash = hex sib\<rparr>]) =
    bindE (fold_path (i - split n) (n - split n) lf init) (\<lambda>(h, r). Inr (node_hash sib h, r))"
  using assms by (subst fold_path.simps) (simp add: Let_def)

lemma collect_node:
  assumes "2 \<le> length ls" and "l = take (split (length ls)) ls" and "r = drop (split (length ls)) ls"
  shows "rev (collect ls i []) =
    (if i < split (length ls)
     then rev (collect l i []) @ [\<lparr>side = RIGHT, step_hash = hex (subtree_root r)\<rparr>]
     else rev (collect r (i - split (length ls)) []) @ [\<lparr>side = LEFT, step_hash = hex (subtree_root l)\<rparr>])"
  using assms
  by (subst collect.simps)
    (simp add: Let_def collect_acc [of _ _ "[\<lparr>side = RIGHT, step_hash = s\<rparr>]" for s]
      collect_acc [of _ _ "[\<lparr>side = LEFT, step_hash = s\<rparr>]" for s])

lemma fold_collect:
  assumes "ls \<noteq> []" and "i < length ls"
  shows "fold_path i (length ls) (ls ! i) (pre @ rev (collect ls i [])) = Inr (subtree_root ls, pre)"
  using assms
proof (induction ls arbitrary: i rule: tree_induct)
  case (leaf b)
  then show ?case by (simp add: fold_path_leaf collect.simps subtree_root_single)
next
  case (node ls l r)
  note s = split_bounds [OF node.hyps(1)]
  from s node.hyps have len: "length l = split (length ls)" "length r = length ls - split (length ls)"
    by simp_all
  show ?case
  proof (cases "i < split (length ls)")
    case True
    with node.IH(1) [of i] len node.hyps s show ?thesis
      by (simp add: collect_node fold_path_left subtree_root_node node_hash_text
          flip: append_assoc)
  next
    case False
    with node.IH(2) [of "i - split (length ls)"] len node.hyps node.prems s show ?thesis
      by (simp add: collect_node fold_path_right subtree_root_node node_hash_text
          flip: append_assoc)
  qed
qed

lemma merkle_proof_Inr:
  "merkle_proof hs s = Inr p \<longleftrightarrow>
     0 \<le> s \<and> s < int (length hs) \<and> (\<forall>h \<in> set hs. \<exists>b. fromhex h = Inr b) \<and>
     p = \<lparr>p_seq = s, p_size = int (length hs), p_leaf = hs ! nat s,
          p_root = hex (subtree_root (leaves_of (map hash_bytes hs))),
          p_path = rev (collect (leaves_of (map hash_bytes hs)) (nat s) [])\<rparr>"
  by (auto simp: merkle_proof_def result_simps leaf_hashes)

lemma fold_merkle_proof:
  assumes "merkle_proof hs s = Inr p"
  shows "fold p = Inr (p_root p)"
proof -
  let ?ls = "leaves_of (map hash_bytes hs)"
  from assms have s: "0 \<le> s" "s < int (length hs)" and ok: "\<forall>h \<in> set hs. \<exists>b. fromhex h = Inr b"
    and p: "p = \<lparr>p_seq = s, p_size = int (length hs), p_leaf = hs ! nat s,
      p_root = hex (subtree_root ?ls), p_path = rev (collect ?ls (nat s) [])\<rparr>"
    by (auto simp: merkle_proof_Inr)
  have "leaf_hash (hs ! nat s) = Inr (?ls ! nat s)"
    using s ok by (auto simp: leaf_hash_Inr leaves_of_def)
  moreover have "fold_path (nat s) (length hs) (?ls ! nat s) (rev (collect ?ls (nat s) [])) =
      Inr (subtree_root ?ls, [])"
    using fold_collect [of ?ls "nat s" "[]"] s by (cases "hs = []") auto
  moreover from s have "hs \<noteq> []" by auto
  ultimately show ?thesis using s by (simp add: fold_def p)
qed

section \<open>Proofs are sound\<close>

text \<open>A fold that succeeds, one level at a time, for an invariant of the whole walk.\<close>

lemma fold_path_cases:
  assumes "fold_path i n lf steps = Inr (h, rest)"
  obtains (leaf) "n \<le> 1" "h = lf" "rest = steps"
    | (left) init st sib h' where "2 \<le> n" "i < split n" "steps = init @ [st]"
        "fromhex (step_hash st) = Inr sib" "fold_path i (split n) lf init = Inr (h', rest)"
        "h = node_hash h' sib"
    | (right) init st sib h' where "2 \<le> n" "\<not> i < split n" "steps = init @ [st]"
        "fromhex (step_hash st) = Inr sib"
        "fold_path (i - split n) (n - split n) lf init = Inr (h', rest)" "h = node_hash sib h'"
proof (cases "n \<le> 1")
  case True
  with assms show ?thesis by (intro leaf) (auto simp: fold_path_leaf)
next
  case False
  show ?thesis
  proof (cases steps rule: rev_cases)
    case Nil
    with assms False show ?thesis by (simp add: fold_path.simps [of i n])
  next
    case (snoc init st)
    with assms False show ?thesis
      by (cases "i < split n")
        (auto simp: fold_path.simps [of i n] Let_def result_simps split: if_splits intro: left right)
  qed
qed

lemma fold_path_induct [consumes 1, case_names leaf left right]:
  assumes "fold_path i n lf steps = Inr (h, rest)"
    and "\<And>i n. n \<le> 1 \<Longrightarrow> P i n rest lf"
    and "\<And>i n init st sib h. 2 \<le> n \<Longrightarrow> i < split n \<Longrightarrow> fromhex (step_hash st) = Inr sib \<Longrightarrow>
      fold_path i (split n) lf init = Inr (h, rest) \<Longrightarrow> P i (split n) init h \<Longrightarrow>
      P i n (init @ [st]) (node_hash h sib)"
    and "\<And>i n init st sib h. 2 \<le> n \<Longrightarrow> \<not> i < split n \<Longrightarrow> fromhex (step_hash st) = Inr sib \<Longrightarrow>
      fold_path (i - split n) (n - split n) lf init = Inr (h, rest) \<Longrightarrow>
      P (i - split n) (n - split n) init h \<Longrightarrow> P i n (init @ [st]) (node_hash sib h)"
  shows "P i n steps h"
  using assms(1)
proof (induction n arbitrary: i steps h rule: less_induct)
  case (less n)
  from less.prems show ?case
  proof (cases rule: fold_path_cases)
    case leaf
    then show ?thesis using assms(2) by simp
  next
    case (left init st sib h')
    with less.IH [OF split_bounds(2) left(5)] show ?thesis by (auto intro: assms(3))
  next
    case (right init st sib h')
    with less.IH [OF _ right(5)] split_bounds [OF right(1)] show ?thesis by (auto intro: assms(4))
  qed
qed

text \<open>The texts hashed by a fold.\<close>

function fold_inputs :: "nat \<Rightarrow> nat \<Rightarrow> bytes \<Rightarrow> proof_step list \<Rightarrow> bytes list" where
  "fold_inputs i n lf steps =
     (if n \<le> 1 \<or> steps = [] then []
      else let sib = hash_bytes (step_hash (last steps)); k = split n
           in if i < k
              then (case fold_path i k lf (butlast steps) of
                      Inr (h, _) \<Rightarrow> node_text h sib # fold_inputs i k lf (butlast steps)
                    | Inl _ \<Rightarrow> [])
              else (case fold_path (i - k) (n - k) lf (butlast steps) of
                      Inr (h, _) \<Rightarrow> node_text sib h # fold_inputs (i - k) (n - k) lf (butlast steps)
                    | Inl _ \<Rightarrow> []))"
  by pat_completeness auto
termination
  by (relation "measure (\<lambda>(i, n, lf, steps). n)") (auto simp: split_decreases)

declare fold_inputs.simps [simp del]

lemma fold_inputs_left:
  assumes "2 \<le> n" "i < split n" "fromhex (step_hash st) = Inr sib"
    and "fold_path i (split n) lf init = Inr (h, rest)"
  shows "fold_inputs i n lf (init @ [st]) = node_text h sib # fold_inputs i (split n) lf init"
  using assms by (subst fold_inputs.simps) (simp add: Let_def hash_bytes_def)

lemma fold_inputs_right:
  assumes "2 \<le> n" "\<not> i < split n" "fromhex (step_hash st) = Inr sib"
    and "fold_path (i - split n) (n - split n) lf init = Inr (h, rest)"
  shows "fold_inputs i n lf (init @ [st]) =
    node_text sib h # fold_inputs (i - split n) (n - split n) lf init"
  using assms by (subst fold_inputs.simps) (simp add: Let_def hash_bytes_def)

lemma fold_length:
  assumes "fold_path i n lf steps = Inr (h, rest)" and "length lf = 32"
  shows "length h = 32"
  using assms(1) by (induction rule: fold_path_induct) (simp_all add: assms(2) node_hash_def)




lemma sound_node:
  assumes eq: "sha256 (node_text x y) = subtree_root (leaves_of bs)" and "bs \<noteq> []"
    and len: "length x = 32 \<or> length y = 32" and "node_text x y \<in> set xs"
    and split: "\<And>l r. 2 \<le> length bs \<Longrightarrow> l = take (split (length bs)) bs \<Longrightarrow>
      r = drop (split (length bs)) bs \<Longrightarrow> l \<noteq> [] \<Longrightarrow> r \<noteq> [] \<Longrightarrow>
      set (all_inputs l) \<subseteq> set (all_inputs bs) \<Longrightarrow> set (all_inputs r) \<subseteq> set (all_inputs bs) \<Longrightarrow>
      x = subtree_root (leaves_of l) \<Longrightarrow> y = subtree_root (leaves_of r) \<Longrightarrow>
      Q \<or> colliding xs (all_inputs bs)"
  shows "Q \<or> colliding xs (all_inputs bs)"
  using assms(2)
proof (cases bs rule: tree_cases)
  case (leaf b)
  with eq assms(4) show ?thesis by (auto simp: root_single all_inputs_single intro: collidingI)
next
  case (node l r)
  let ?t = "node_text (subtree_root (leaves_of l)) (subtree_root (leaves_of r))"
  have inputs: "set (all_inputs bs) = insert ?t (set (all_inputs l) \<union> set (all_inputs r))"
    using node all_inputs_node by blast
  show ?thesis
  proof (cases "node_text x y = ?t")
    case True
    then have "x = subtree_root (leaves_of l)" "y = subtree_root (leaves_of r)"
      using len node(4,5) by (auto simp: node_text_inject length_subtree_root)
    then show ?thesis using split [OF node] inputs by auto
  next
    case False
    moreover have "sha256 (node_text x y) = sha256 ?t" using eq node root_node by metis
    ultimately show ?thesis using assms(4) inputs by (auto intro: collidingI)
  qed
qed

definition proved_leaf :: "nat \<Rightarrow> nat \<Rightarrow> bytes \<Rightarrow> bytes list \<Rightarrow> bool" where
  "proved_leaf i n b bs = (b \<in> set bs \<and> (n = length bs \<longrightarrow> i < n \<longrightarrow> bs ! i = b))"

lemma proved_leaf_left:
  assumes "2 \<le> length bs" and "l = take (split (length bs)) bs" and "i < split n"
    and "proved_leaf i (split n) b l"
  shows "proved_leaf i n b bs"
  using assms split_bounds [OF assms(1)] by (auto simp: proved_leaf_def dest: in_set_takeD)

lemma proved_leaf_right:
  assumes "2 \<le> length bs" and "r = drop (split (length bs)) bs" and "\<not> i < split n"
    and "proved_leaf (i - split n) (n - split n) b r"
  shows "proved_leaf i n b bs"
  using assms split_bounds [OF assms(1)] by (auto simp: proved_leaf_def dest: in_set_dropD)

lemma fold_sound:
  assumes "fold_path i n (sha256 (leaf_text b)) steps = Inr (h, rest)"
    and "bs \<noteq> []" and "h = subtree_root (leaves_of bs)"
  shows "proved_leaf i n b bs \<or>
    colliding (leaf_text b # fold_inputs i n (sha256 (leaf_text b)) steps) (all_inputs bs)"
  using assms
proof (induction arbitrary: bs rule: fold_path_induct)
  case (leaf i n)
  from leaf.prems(1) show ?case
  proof (cases bs rule: tree_cases)
    case (leaf c)
    with leaf.prems show ?thesis
      by (cases "b = c") (auto simp: proved_leaf_def root_single all_inputs_single intro: collidingI)
  next
    case (node l r)
    with leaf.prems show ?thesis
      using root_node [OF node(1-3)] all_inputs_node [OF node(1-3)] by (auto intro: collidingI)
  qed
next
  case (left i n init st sib h)
  let ?xs = "leaf_text b # fold_inputs i n (sha256 (leaf_text b)) (init @ [st])"
  note inputs = fold_inputs_left [OF left.hyps]
  have len: "length h = 32 \<or> length sib = 32" using fold_length [OF left.hyps(4)] by simp
  show ?case
  proof (rule sound_node [OF _ left.prems(1) len])
    fix l r
    assume lr: "2 \<le> length bs" "l = take (split (length bs)) bs" "l \<noteq> []"
      "set (all_inputs l) \<subseteq> set (all_inputs bs)" "h = subtree_root (leaves_of l)"
    from left.IH [OF lr(3,5)] show "proved_leaf i n b bs \<or> colliding ?xs (all_inputs bs)"
      using proved_leaf_left [OF lr(1,2) left.hyps(2)] lr(4)
      by (auto simp: inputs dest: colliding_grow)
  qed (use left.prems in \<open>auto simp: inputs node_hash_text\<close>)
next
  case (right i n init st sib h)
  let ?xs = "leaf_text b # fold_inputs i n (sha256 (leaf_text b)) (init @ [st])"
  note inputs = fold_inputs_right [OF right.hyps]
  have len: "length sib = 32 \<or> length h = 32" using fold_length [OF right.hyps(4)] by simp
  show ?case
  proof (rule sound_node [OF _ right.prems(1) len])
    fix l r
    assume lr: "2 \<le> length bs" "r = drop (split (length bs)) bs" "r \<noteq> []"
      "set (all_inputs r) \<subseteq> set (all_inputs bs)" "h = subtree_root (leaves_of r)"
    from right.IH [OF lr(3,5)] show "proved_leaf i n b bs \<or> colliding ?xs (all_inputs bs)"
      using proved_leaf_right [OF lr(1,2) right.hyps(2)] lr(4)
      by (auto simp: inputs dest: colliding_grow)
  qed (use right.prems in \<open>auto simp: inputs node_hash_text\<close>)
qed

text \<open>The texts hashed to check a proof.\<close>

definition proof_inputs :: "inclusion_proof \<Rightarrow> bytes list" where
  "proof_inputs p =
     (let b = hash_bytes (p_leaf p)
      in leaf_text b # fold_inputs (nat (p_seq p)) (nat (p_size p)) (sha256 (leaf_text b)) (p_path p))"

lemma fold_Inr:
  "fold p = Inr r \<longleftrightarrow>
     1 \<le> p_size p \<and> 0 \<le> p_seq p \<and> p_seq p < p_size p \<and> (\<exists>b. fromhex (p_leaf p) = Inr b) \<and>
     (\<exists>h. fold_path (nat (p_seq p)) (nat (p_size p)) (sha256 (leaf_text (hash_bytes (p_leaf p)))) (p_path p)
            = Inr (h, []) \<and> r = hex h)"
  by (auto simp: fold_def result_simps leaf_hash_Inr leaf_hash_Inl split: sum.splits if_splits)

lemma verify_proof_True:
  "verify_proof p r = Inr True \<longleftrightarrow>
     fold p = Inr (lower (case r of None \<Rightarrow> p_root p | Some x \<Rightarrow> x))"
  by (auto simp: verify_proof_def Let_def split: sum.splits)

lemma verify_sound:
  assumes "verify_proof p (Some r) = Inr True" and "merkle_root hs = Inr r" and "hs \<noteq> []"
  shows "proved_leaf (nat (p_seq p)) (nat (p_size p)) (hash_bytes (p_leaf p)) (map hash_bytes hs) \<or>
    colliding (proof_inputs p) (tree_inputs hs)"
proof -
  from assms obtain h where
    "fold_path (nat (p_seq p)) (nat (p_size p)) (sha256 (leaf_text (hash_bytes (p_leaf p)))) (p_path p) = Inr (h, [])"
    "h = subtree_root (leaves_of (map hash_bytes hs))"
    by (auto simp: verify_proof_True fold_Inr merkle_root_Inr)
  from fold_sound [OF this(1) _ this(2)] assms(3) show ?thesis
    by (simp add: proof_inputs_def tree_inputs_all Let_def)
qed



section \<open>The JSON form\<close>

definition ascii_proof :: "inclusion_proof \<Rightarrow> bool" where
  "ascii_proof p =
     (is_ascii (p_leaf p) \<and> is_ascii (p_root p) \<and>
      list_all (\<lambda>st. is_ascii (side st) \<and> is_ascii (step_hash st)) (p_path p))"

lemma canon_to_json:
  "canon (to_json p) =
     PyDict [(''leaf'', PyStr (p_leaf p)), (''path'', PyList (map (canon \<circ> step_to_json) (p_path p))),
       (''root'', PyStr (p_root p)), (''seq'', PyInt (p_seq p)), (''size'', PyInt (p_size p)),
       (''version'', PyInt 1)]"
  by (simp add: to_json_def canon_dict)

lemma step_from_canon: "step_from_json (canon (step_to_json st)) = Inr st"
  by (simp add: step_to_json_def step_from_json_def dict_item_def canon_dict)

lemma from_canon: "from_json (canon (to_json p)) = Inr p"
proof -
  have "mapE step_from_json (map (canon \<circ> step_to_json) (p_path p)) = Inr (p_path p)"
    by (simp add: mapE_Inr_iff step_from_canon comp_def)
  then show ?thesis by (simp add: canon_to_json from_json_def dict_get_def dict_item_def del: map_map)
qed

lemma wf_to_json: "ascii_proof p \<Longrightarrow> wf_value True (to_json p)"
  by (auto simp: to_json_def wf_dict wf_list step_to_json_def ascii_proof_def text_ok_def
      is_ascii_def list_all_iff)

lemma hex_value_ascii: "hex_value c = Some n \<Longrightarrow> of_char c < (128 :: nat)"
  by (auto simp: hex_value_def Let_def split: if_splits)

lemma fromhex_opt_ascii: "fromhex_opt s = Some b \<Longrightarrow> is_ascii s"
  by (induction s arbitrary: b rule: fromhex_opt.induct)
    (auto simp: is_ascii_def is_ascii_space_def dest: hex_value_ascii split: if_splits option.splits)

lemma collect_ascii:
  "list_all (\<lambda>st. is_ascii (side st) \<and> is_ascii (step_hash st)) acc \<Longrightarrow>
   list_all (\<lambda>st. is_ascii (side st) \<and> is_ascii (step_hash st)) (collect ls i acc)"
proof (induction ls i acc rule: collect.induct)
  case (1 ls i acc)
  have "is_ascii LEFT" "is_ascii RIGHT" by (simp_all add: LEFT_def RIGHT_def is_ascii_def)
  with 1 show ?case by (simp add: collect.simps [of ls] Let_def)
qed

lemma merkle_proof_ascii:
  assumes "merkle_proof hs s = Inr p"
  shows "ascii_proof p"
proof -
  from assms have "hs ! nat s \<in> set hs" by (auto simp: merkle_proof_Inr)
  with assms have "is_ascii (hs ! nat s)"
    by (auto simp: merkle_proof_Inr fromhex_def intro: fromhex_opt_ascii split: option.splits)
  with assms show ?thesis
    using collect_ascii [of "[]"] by (auto simp: merkle_proof_Inr ascii_proof_def)
qed

lemma dump_to_json: "\<exists>s. dumps st (to_json p) = Inr s"
  by (auto simp: dumps_Inr to_json_def dumpable_dict dumpable_list step_to_json_def)

section \<open>Properties\<close>



text \<open>C10: Inclusion proofs are sound: a proof that verifies against the root of a log is about
  one of its record hashes, and, when its \<open>size\<close> is the length of the log, about the one at
  position \<open>seq\<close>; otherwise the texts hashed for the proof and for the tree hold a collision
  of SHA-256.\<close>

theorem merkle_proof_sound:
  assumes "verify_proof p (Some r) = Inr True" and "merkle_root hs = Inr r" and "hs \<noteq> []"
  shows "(hash_bytes (p_leaf p) \<in> hash_bytes ` set hs \<and>
      (p_size p = int (length hs) \<longrightarrow> hash_bytes (hs ! nat (p_seq p)) = hash_bytes (p_leaf p))) \<or>
    colliding (proof_inputs p) (tree_inputs hs)"
proof -
  have "0 \<le> p_seq p" "p_seq p < p_size p" using assms(1) by (auto simp: verify_proof_True fold_Inr)
  with verify_sound [OF assms] show ?thesis by (auto simp: proved_leaf_def)
qed

theorem merkle_proof_sound_witness:
  "verify_proof \<lparr>p_seq = 0, p_size = 1, p_leaf = hex [7], p_root = [], p_path = []\<rparr>
      (Some (hex (sha256 [0, 7]))) = Inr True \<and>
   hash_bytes (hex [7]) \<in> hash_bytes ` set [hex [7]]"
proof -
  let ?p = "\<lparr>p_seq = 0, p_size = 1, p_leaf = hex [7], p_root = [], p_path = []\<rparr>"
  have ok: "verify_proof ?p (Some (hex (sha256 [0, 7]))) = Inr True"
    by (simp add: verify_proof_True fold_Inr fold_path_leaf hash_bytes_def leaf_text_def LEAF_PREFIX_def)
  have root: "merkle_root [hex [7]] = Inr (hex (sha256 [0, 7]))"
    by (simp add: merkle_root_Inr root_single hash_bytes_def leaf_text_def LEAF_PREFIX_def)
  have "\<not> colliding (proof_inputs ?p) (tree_inputs [hex [7]])"
    by (simp add: proof_inputs_def tree_inputs_all all_inputs_single fold_inputs.simps colliding_def Let_def)
  with merkle_proof_sound [OF ok root] ok show ?thesis by simp
qed

text \<open>A Merkle root commits to the whole list of record hashes, its length and its order
  included: two lists with the same root are equal, or the texts hashed for the two trees hold
  a collision of SHA-256.\<close>

theorem merkle_root_commits:
  assumes "merkle_root (map hex bs) = merkle_root (map hex cs)"
  shows "bs = cs \<or> colliding (tree_inputs (map hex bs)) (tree_inputs (map hex cs))"
proof -
  obtain r where "merkle_root (map hex bs) = Inr r" by (auto simp: merkle_root_Inr)
  moreover have "map hash_bytes (map hex xs) = xs" for xs
    by (simp add: hash_bytes_def comp_def)
  ultimately show ?thesis using merkle_root_binds [of "map hex bs" r "map hex cs"] assms by simp
qed

theorem merkle_root_commits_witness:
  "merkle_root (map hex [[1], [2]]) = merkle_root (map hex [[1], [2]]) \<and>
   ([[1], [2]] = [[1], [2 :: 8 word]] \<or>
    colliding (tree_inputs (map hex [[1], [2]])) (tree_inputs (map hex [[1], [2]])))"
  using merkle_root_commits [of "[[1], [2]]" "[[1], [2]]"] by simp



text \<open>A proof that was saved is loaded back as it was (its strings being ASCII).\<close>

theorem proof_roundtrip:
  assumes "ascii_proof p"
  shows "\<exists>t. proof_save p = Inr t \<and> proof_load t = Inr p"
proof -
  obtain s where s: "dumps pretty (to_json p) = Inr s" using dump_to_json by blast
  have "loads (s @ [CHR 0x0A]) = Inr (canon (to_json p))"
    using s wf_to_json [OF assms] ensure_ascii_pretty by (intro loads_dumps_ws [of pretty]) (simp_all add: is_json_ws_def)
  then show ?thesis
    by (simp add: proof_save_def proof_dumps_def s proof_load_def from_canon)
qed

theorem proof_roundtrip_witness:
  "\<exists>p t. merkle_proof [hex [1], hex [2]] 1 = Inr p \<and> proof_save p = Inr t \<and> proof_load t = Inr p"
proof -
  obtain p where p: "merkle_proof [hex [1], hex [2]] 1 = Inr p" by (simp add: merkle_proof_Inr)
  with merkle_proof_ascii proof_roundtrip show ?thesis by blast
qed

text \<open>The \<open>size\<close> of a proof is not committed to: the proof of the first of three records,
  with its size changed to four, still verifies against the root of the three.\<close>

theorem proof_replays_at_another_size:
  "\<exists>p. merkle_proof (map hex [a, b, c]) 0 = Inr p \<and> p_size p = 3 \<and>
     verify_proof (p\<lparr>p_size := 4\<rparr>) (Some (p_root p)) = Inr True"
proof -
  have split: "split 3 = 2" "split 4 = 2" "split 2 = 1"
    by (simp_all add: split_def split_loop.simps)
  let ?l = "\<lambda>x. sha256 (leaf_text x)"
  have path: "rev (collect (leaves_of (map hash_bytes (map hex [a, b, c]))) (nat 0) []) =
      [] @ [\<lparr>side = RIGHT, step_hash = hex (?l b)\<rparr>] @ [\<lparr>side = RIGHT, step_hash = hex (?l c)\<rparr>]"
    using split(1,3) by (simp add: collect.simps leaves_of_def hash_bytes_def subtree_root_single
        numeral_eq_Suc Let_def)
  have same: "fold_path 0 4 lf [\<lparr>side = RIGHT, step_hash = hex x\<rparr>, \<lparr>side = RIGHT, step_hash = hex y\<rparr>] =
      fold_path 0 3 lf [\<lparr>side = RIGHT, step_hash = hex x\<rparr>, \<lparr>side = RIGHT, step_hash = hex y\<rparr>]" for lf x y
    using fold_path_left [of 4 0 lf "[_]" y] fold_path_left [of 3 0 lf "[_]" y] by (simp add: split)
  obtain p where p: "merkle_proof (map hex [a, b, c]) 0 = Inr p" by (simp add: merkle_proof_Inr)
  then have "fold (p\<lparr>p_size := 4\<rparr>) = fold p" "p_size p = 3"
    using path by (auto simp: merkle_proof_Inr fold_def same)
  with p fold_merkle_proof [OF p] show ?thesis by (auto simp: verify_proof_True merkle_proof_Inr)
qed

end
