(* ===== verification/Verify.thy ===== *)
theory Verify
  imports Checkpoint Merkle_Properties
begin

text \<open>
  \<open>verify.py\<close>: the check of a whole chain. A dictionary of keys or of signers is an association
  list, the first entry of a key counting.
\<close>

section \<open>Reports\<close>

record verify_report =
  ok :: bool
  records_checked :: int
  first_error_seq :: "int option"
  reason :: "string option"
  signed_records :: nat
  report_root :: string

definition failure :: "int \<Rightarrow> int option \<Rightarrow> string \<Rightarrow> verify_report" where
  "failure checked s why =
     \<lparr>ok = False, records_checked = checked, first_error_seq = s, reason = Some why,
      signed_records = 0, report_root = []\<rparr>"

definition report_str :: "verify_report \<Rightarrow> string" where
  "report_str rep =
     (if ok rep then ''OK: '' @ dec_int (records_checked rep) @ '' record(s) verified''
      else ''FAILED''
             @ (case first_error_seq rep of None \<Rightarrow> [] | Some s \<Rightarrow> '' at seq '' @ dec_int s)
             @ '': '' @ (case reason rep of None \<Rightarrow> ''None'' | Some why \<Rightarrow> why))"

section \<open>The chain\<close>

type_synonym keyring = "(string \<times> bytes) list"

type_synonym signers = "(string \<times> key_arg) list"

definition key_for :: "audit_record \<Rightarrow> bytes option \<Rightarrow> keyring option \<Rightarrow> bytes option" where
  "key_for r seal_key ring =
     (if key_id r = [] then seal_key
      else case ring of None \<Rightarrow> None | Some m \<Rightarrow> map_of m (key_id r))"

text \<open>The signature check of one record: \<open>None\<close> when it passes, or the reason.\<close>

definition signature_problem :: "ed25519 \<Rightarrow> signers option \<Rightarrow> audit_record \<Rightarrow> string option result" where
  "signature_problem lib sgs r =
     (case sgs of
        None \<Rightarrow> Inr None
      | Some m \<Rightarrow>
          if signature r = [] then Inr (Some ''missing signature: the record is not signed'')
          else case map_of m (signer_id r) of
                 None \<Rightarrow>
                   Inr (Some (''unknown signer_id '' @ repr_str (signer_id r) @ '': pass the matching public key''))
               | Some pk \<Rightarrow>
                   bindE (verify_record_signature lib r pk) (\<lambda>good.
                     Inr (if good then None
                          else Some ''signature mismatch: the record was rewritten without the signing key'')))"

text \<open>One pass of the loop: the reason of the first check that fails.\<close>

definition record_problem ::
  "ed25519 \<Rightarrow> bytes option \<Rightarrow> keyring option \<Rightarrow> signers option \<Rightarrow> nat \<Rightarrow> string \<Rightarrow> audit_record
     \<Rightarrow> string option result" where
  "record_problem lib seal_key ring sgs index prev r =
     (if seq r \<noteq> int index
      then Inr (Some (''sequence gap: expected seq '' @ dec_int (int index) @ '', found '' @ dec_int (seq r)))
      else if prev_hash r \<noteq> prev
      then Inr (Some ''prev_hash mismatch: a record was removed or reordered'')
      else let key = key_for r seal_key ring
           in if key_id r \<noteq> [] \<and> key = None
              then Inr (Some (''unknown key_id '' @ repr_str (key_id r) @ '': pass the matching keyring''))
              else bindE (compute_record_hash r key) (\<lambda>h.
                     if hash r \<noteq> h then Inr (Some ''hash mismatch: the record was modified'')
                     else signature_problem lib sgs r))"

text \<open>The loop: an early return, or the number of signatures checked.\<close>

fun verify_records ::
  "ed25519 \<Rightarrow> bytes option \<Rightarrow> keyring option \<Rightarrow> signers option \<Rightarrow> nat \<Rightarrow> string \<Rightarrow> nat \<Rightarrow>
     audit_record list \<Rightarrow> (verify_report + nat) result" where
  "verify_records lib seal_key ring sgs index prev signed_count [] = Inr (Inr signed_count)"
| "verify_records lib seal_key ring sgs index prev signed_count (r # rs) =
     bindE (record_problem lib seal_key ring sgs index prev r) (\<lambda>problem.
       case problem of
         Some why \<Rightarrow> Inr (Inl (failure (int index) (Some (seq r)) why))
       | None \<Rightarrow> verify_records lib seal_key ring sgs (Suc index) (hash r)
                   (if sgs = None then signed_count else Suc signed_count) rs)"

text \<open>\<open>records[i]\<close>, a negative index counting from the end.\<close>

definition py_index :: "'a list \<Rightarrow> int \<Rightarrow> 'a result" where
  "py_index xs i =
     (let j = (if i < 0 then i + int (length xs) else i)
      in if 0 \<le> j \<and> j < int (length xs) then Inr (xs ! nat j) else Inl (IndexError ''list index out of range''))"

definition checkpoint_problem :: "checkpoint option \<Rightarrow> audit_record list \<Rightarrow> verify_report option result" where
  "checkpoint_problem cpo records =
     (case cpo of
        None \<Rightarrow> Inr None
      | Some cp \<Rightarrow>
          if int (length records) \<le> cp_seq cp
          then Inr (Some (failure (int (length records)) None
                            ''chain ends before the checkpoint: tail truncation''))
          else bindE (py_index records (cp_seq cp)) (\<lambda>r.
                 Inr (if hash r \<noteq> cp_hash cp
                      then Some (failure (cp_seq cp) (Some (seq r))
                             ''checkpoint anchor mismatch: the log changed since the checkpoint'')
                      else None)))"

text \<open>The report after the loop, with the Merkle root of the records.\<close>

definition final_report :: "checkpoint option \<Rightarrow> audit_record list \<Rightarrow> nat \<Rightarrow> string \<Rightarrow> verify_report" where
  "final_report cpo records signed_count mroot =
     (let accepted = \<lparr>ok = True, records_checked = int (length records), first_error_seq = None,
                      reason = None, signed_records = signed_count, report_root = mroot\<rparr>
      in case cpo of
           None \<Rightarrow> accepted
         | Some cp \<Rightarrow>
             if cp_merkle_root cp \<noteq> [] \<and> cp_merkle_root cp \<noteq> mroot
             then accepted\<lparr>ok := False,
                    reason := Some ''merkle root mismatch: the records do not match the checkpoint''\<rparr>
             else accepted)"

definition verify_chain ::
  "ed25519 \<Rightarrow> audit_record list \<Rightarrow> bytes option \<Rightarrow> int option \<Rightarrow> keyring option \<Rightarrow> checkpoint option \<Rightarrow>
     signers option \<Rightarrow> verify_report result" where
  "verify_chain lib records seal_key expected_count ring cpo sgs =
     bindE (checkpoint_problem cpo records) (\<lambda>anchor.
     case anchor of
       Some rep \<Rightarrow> Inr rep
     | None \<Rightarrow>
         if expected_count \<noteq> None \<and> expected_count \<noteq> Some (int (length records))
         then Inr (failure (int (length records)) None
                (''count mismatch: '' @ dec_int (int (length records)) @ '' record(s), expected ''
                   @ dec_int (the expected_count)))
         else bindE (verify_records lib seal_key ring sgs 0 GENESIS_HASH 0 records) (\<lambda>res.
           case res of
             Inl rep \<Rightarrow> Inr rep
           | Inr signed_count \<Rightarrow>
               bindE (merkle_root (map hash records)) (\<lambda>mroot.
                 Inr (final_report cpo records signed_count mroot))))"

section \<open>Valid chains\<close>

text \<open>What a record has to satisfy at its place.\<close>

definition valid_record ::
  "ed25519 \<Rightarrow> bytes option \<Rightarrow> keyring option \<Rightarrow> signers option \<Rightarrow> nat \<Rightarrow> string \<Rightarrow> audit_record \<Rightarrow> bool" where
  "valid_record lib seal_key ring sgs index prev r =
     (seq r = int index \<and> prev_hash r = prev \<and>
      (key_id r \<noteq> [] \<longrightarrow> key_for r seal_key ring \<noteq> None) \<and>
      compute_record_hash r (key_for r seal_key ring) = Inr (hash r) \<and>
      (case sgs of
         None \<Rightarrow> True
       | Some m \<Rightarrow> signature r \<noteq> [] \<and>
           (\<exists>pk. map_of m (signer_id r) = Some pk \<and> verify_record_signature lib r pk = Inr True)))"

definition prev_of :: "string \<Rightarrow> audit_record list \<Rightarrow> nat \<Rightarrow> string" where
  "prev_of prev records i = (if i = 0 then prev else hash (records ! (i - 1)))"

definition valid_from ::
  "ed25519 \<Rightarrow> bytes option \<Rightarrow> keyring option \<Rightarrow> signers option \<Rightarrow> nat \<Rightarrow> string \<Rightarrow> audit_record list \<Rightarrow> bool" where
  "valid_from lib seal_key ring sgs i prev records =
     (\<forall>j < length records.
        valid_record lib seal_key ring sgs (i + j) (prev_of prev records j) (records ! j))"

abbreviation valid_chain ::
  "ed25519 \<Rightarrow> bytes option \<Rightarrow> keyring option \<Rightarrow> signers option \<Rightarrow> audit_record list \<Rightarrow> bool" where
  "valid_chain lib seal_key ring sgs records \<equiv> valid_from lib seal_key ring sgs 0 GENESIS_HASH records"

lemma valid_from_Nil [simp]: "valid_from lib seal_key ring sgs i prev []"
  by (simp add: valid_from_def)

lemma valid_from_Cons [simp]:
  "valid_from lib seal_key ring sgs i prev (r # rs) \<longleftrightarrow>
     valid_record lib seal_key ring sgs i prev r \<and> valid_from lib seal_key ring sgs (Suc i) (hash r) rs"
proof -
  have "prev_of prev (r # rs) (Suc j) = prev_of (hash r) rs j" for j
    by (cases j) (simp_all add: prev_of_def)
  then show ?thesis by (simp add: valid_from_def All_less_Suc2 prev_of_def [of _ _ 0])
qed

lemma valid_from_append:
  "valid_from lib seal_key ring sgs i prev (rs @ ts) \<longleftrightarrow>
     valid_from lib seal_key ring sgs i prev rs \<and>
     valid_from lib seal_key ring sgs (i + length rs) (if rs = [] then prev else hash (last rs)) ts"
  by (induction rs arbitrary: i prev) auto

lemma signature_problem_None:
  "signature_problem lib sgs r = Inr None \<longleftrightarrow>
     (case sgs of
         None \<Rightarrow> True
       | Some m \<Rightarrow> signature r \<noteq> [] \<and>
           (\<exists>pk. map_of m (signer_id r) = Some pk \<and> verify_record_signature lib r pk = Inr True))"
  by (auto simp: signature_problem_def result_simps split: option.splits if_splits)

lemma record_problem_None:
  "record_problem lib seal_key ring sgs i prev r = Inr None \<longleftrightarrow> valid_record lib seal_key ring sgs i prev r"
  unfolding record_problem_def valid_record_def signature_problem_None [symmetric]
  by (auto simp: Let_def result_simps)

lemma verify_records_Inr:
  "verify_records lib seal_key ring sgs i prev n rs = Inr (Inr m) \<longleftrightarrow>
     valid_from lib seal_key ring sgs i prev rs \<and> m = (if sgs = None then n else n + length rs)"
proof (induction rs arbitrary: i prev n)
  case (Cons r rs)
  then show ?case
    by (auto simp: result_simps record_problem_None [symmetric] split: option.splits)
qed auto

text \<open>The report of the first record that fails.\<close>

lemma verify_records_Inl:
  "verify_records lib seal_key ring sgs i prev n rs = Inr (Inl rep) \<Longrightarrow>
     \<exists>xs r ys why. rs = xs @ r # ys \<and> valid_from lib seal_key ring sgs i prev xs \<and>
        record_problem lib seal_key ring sgs (i + length xs) (if xs = [] then prev else hash (last xs)) r
          = Inr (Some why) \<and>
        rep = failure (int (i + length xs)) (Some (seq r)) why"
proof (induction rs arbitrary: i prev n)
  case (Cons r rs)
  from Cons.prems obtain problem where problem: "record_problem lib seal_key ring sgs i prev r = Inr problem"
    by (auto simp: result_simps)
  with Cons.prems consider
    (here) why where "record_problem lib seal_key ring sgs i prev r = Inr (Some why)"
      "rep = failure (int i) (Some (seq r)) why"
    | (later) m where "record_problem lib seal_key ring sgs i prev r = Inr None"
      "verify_records lib seal_key ring sgs (Suc i) (hash r) m rs = Inr (Inl rep)"
    by (cases problem) auto
  then show ?case
  proof cases
    case here
    then show ?thesis by (intro exI [of _ "[]"] exI [of _ r] exI [of _ rs] exI [of _ why]) simp
  next
    case later
    from Cons.IH [OF later(2)] obtain xs r' ys why where
      "rs = xs @ r' # ys" "valid_from lib seal_key ring sgs (Suc i) (hash r) xs"
      "record_problem lib seal_key ring sgs (Suc i + length xs) (if xs = [] then hash r else hash (last xs)) r' = Inr (Some why)"
      "rep = failure (int (Suc i + length xs)) (Some (seq r')) why"
      by blast
    with later(1) show ?thesis
      by (intro exI [of _ "r # xs"] exI [of _ r'] exI [of _ ys] exI [of _ why])
        (simp add: record_problem_None split: if_splits)
  qed
qed simp

lemma valid_hashes:
  "valid_from lib seal_key ring sgs i prev rs \<Longrightarrow> r \<in> set rs \<Longrightarrow>
   compute_record_hash r (key_for r seal_key ring) = Inr (hash r)"
  by (induction rs arbitrary: i prev) (auto simp: valid_record_def)

lemma valid_merkle_root:
  assumes "valid_from lib seal_key ring sgs i prev rs"
  obtains mroot where "merkle_root (map hash rs) = Inr mroot"
  using assms record_hash_fromhex valid_hashes [OF assms] by (fastforce simp: merkle_root_Inr)

text \<open>What a checkpoint and an expected number of records ask for.\<close>

definition anchored :: "checkpoint option \<Rightarrow> audit_record list \<Rightarrow> bool" where
  "anchored cpo records =
     (case cpo of
        None \<Rightarrow> True
      | Some cp \<Rightarrow>
          cp_seq cp < int (length records) \<and>
          (\<exists>r. py_index records (cp_seq cp) = Inr r \<and> hash r = cp_hash cp) \<and>
          (cp_merkle_root cp = [] \<or> merkle_root (map hash records) = Inr (cp_merkle_root cp)))"

lemma checkpoint_problem_None:
  "checkpoint_problem cpo records = Inr None \<longleftrightarrow>
     (case cpo of None \<Rightarrow> True
      | Some cp \<Rightarrow> cp_seq cp < int (length records) \<and>
          (\<exists>r. py_index records (cp_seq cp) = Inr r \<and> hash r = cp_hash cp))"
  by (auto simp: checkpoint_problem_def result_simps split: option.splits if_splits)

lemma checkpoint_problem_Some: "checkpoint_problem cpo records = Inr (Some rep) \<Longrightarrow> \<not> ok rep"
  by (auto simp: checkpoint_problem_def failure_def result_simps split: option.splits if_splits)

lemma verify_records_fails: "verify_records lib seal_key ring sgs i prev n rs = Inr (Inl rep) \<Longrightarrow> \<not> ok rep"
  by (auto dest!: verify_records_Inl simp: failure_def)

definition ok_report :: "signers option \<Rightarrow> audit_record list \<Rightarrow> string \<Rightarrow> verify_report" where
  "ok_report sgs records mroot =
     \<lparr>ok = True, records_checked = int (length records), first_error_seq = None, reason = None,
      signed_records = (if sgs = None then 0 else length records), report_root = mroot\<rparr>"

lemma final_report_ok:
  assumes "checkpoint_problem cpo records = Inr None" and "merkle_root (map hash records) = Inr mroot"
  shows "ok (final_report cpo records n mroot) \<longleftrightarrow> anchored cpo records"
    and "ok (final_report cpo records (if sgs = None then 0 else length records) mroot) \<Longrightarrow>
      final_report cpo records (if sgs = None then 0 else length records) mroot = ok_report sgs records mroot"
  using assms
  by (auto simp: final_report_def Let_def anchored_def ok_report_def checkpoint_problem_None split: option.splits if_splits)

lemma anchored_checkpoint: "anchored cpo records \<Longrightarrow> checkpoint_problem cpo records = Inr None"
  by (auto simp: checkpoint_problem_None anchored_def split: option.splits)

lemma verify_chain_ok:
  "verify_chain lib records seal_key count ring cpo sgs = Inr rep \<and> ok rep \<longleftrightarrow>
     valid_chain lib seal_key ring sgs records \<and> anchored cpo records \<and>
     (count = None \<or> count = Some (int (length records))) \<and>
     (\<exists>mroot. merkle_root (map hash records) = Inr mroot \<and> rep = ok_report sgs records mroot)"
  (is "?l \<longleftrightarrow> ?r")
proof -
  let ?n = "if sgs = None then 0 else length records"
  have loop: "verify_chain lib records seal_key count ring cpo sgs =
      Inr (final_report cpo records ?n mroot)"
    if "checkpoint_problem cpo records = Inr None" and "count = None \<or> count = Some (int (length records))"
      and "valid_chain lib seal_key ring sgs records" and "merkle_root (map hash records) = Inr mroot" for mroot
    using that verify_records_Inr [of lib seal_key ring sgs 0 GENESIS_HASH 0 records ?n]
    by (auto simp: verify_chain_def)
  show ?thesis
  proof
    assume ?l
    then have run: "verify_chain lib records seal_key count ring cpo sgs = Inr rep" and "ok rep" by simp_all
    from run obtain x where x: "checkpoint_problem cpo records = Inr x"
      by (auto simp: verify_chain_def result_simps)
    with run \<open>ok rep\<close> have anchor: "checkpoint_problem cpo records = Inr None"
      by (cases x) (auto simp: verify_chain_def dest: checkpoint_problem_Some)
    from run \<open>ok rep\<close> anchor have count: "count = None \<or> count = Some (int (length records))"
      by (auto simp: verify_chain_def failure_def split: if_splits)
    with run anchor obtain res where res: "verify_records lib seal_key ring sgs 0 GENESIS_HASH 0 records = Inr res"
      by (auto simp: verify_chain_def result_simps)
    have "\<exists>m. res = Inr m"
    proof (cases res)
      case (Inl rep')
      with run anchor count res have "rep' = rep" by (auto simp: verify_chain_def)
      with verify_records_fails res Inl \<open>ok rep\<close> show ?thesis by blast
    qed simp
    with res have valid: "valid_chain lib seal_key ring sgs records" by (auto simp: verify_records_Inr)
    obtain mroot where root: "merkle_root (map hash records) = Inr mroot"
      using valid_merkle_root [OF valid] .
    from run loop [OF anchor count valid root] have rep: "rep = final_report cpo records ?n mroot" by simp
    with \<open>ok rep\<close> final_report_ok [OF anchor root] have "anchored cpo records" "rep = ok_report sgs records mroot"
      by metis+
    with valid count root show ?r by blast
  next
    assume r: ?r
    then obtain mroot where root: "merkle_root (map hash records) = Inr mroot" "rep = ok_report sgs records mroot"
      by blast
    from r have anchor: "checkpoint_problem cpo records = Inr None" by (simp add: anchored_checkpoint)
    from final_report_ok [OF anchor root(1)] r have "ok (final_report cpo records ?n mroot)"
      "final_report cpo records ?n mroot = rep" using root(2) by metis+
    with loop [OF anchor _ _ root(1)] r show ?l by simp
  qed
qed

end
