(* ===== verification/Verify_Properties.thy ===== *)
theory Verify_Properties
  imports Verify
begin

text \<open>
  What \<open>verify_chain\<close> promises, and where its promises end. As in the other theories, a statement
  that rests on SHA-256 names the collision that its failure would exhibit, here between the
  texts hashed for two records at the same place of two chains (\<open>chain_collision\<close>).
\<close>

section \<open>Two valid chains\<close>

lemma valid_nth:
  "valid_chain lib sk ring sgs rs \<Longrightarrow> i < length rs \<Longrightarrow>
   valid_record lib sk ring sgs i (prev_of GENESIS_HASH rs i) (rs ! i)"
  by (simp add: valid_from_def)

lemma valid_seq: "valid_chain lib sk ring sgs rs \<Longrightarrow> i < length rs \<Longrightarrow> seq (rs ! i) = int i"
  using valid_nth by (simp add: valid_record_def)

lemma valid_hash:
  "valid_chain lib sk ring sgs rs \<Longrightarrow> i < length rs \<Longrightarrow>
   compute_record_hash (rs ! i) (key_for (rs ! i) sk ring) = Inr (hash (rs ! i))"
  using valid_nth by (simp add: valid_record_def)

lemma valid_prev:
  "valid_chain lib sk ring sgs rs \<Longrightarrow> Suc i < length rs \<Longrightarrow> prev_hash (rs ! Suc i) = hash (rs ! i)"
  using valid_nth [of lib sk ring sgs rs "Suc i"] by (simp add: valid_record_def prev_of_def)

lemma valid_prev_length:
  assumes "valid_chain lib sk ring sgs rs" and "i < length rs"
  shows "length (prev_hash (rs ! i)) = 64"
proof (cases i)
  case 0
  with valid_nth [OF assms] show ?thesis by (simp add: valid_record_def prev_of_def GENESIS_HASH_def)
next
  case (Suc j)
  with valid_hash [OF assms(1), of j] assms valid_prev [of lib sk ring sgs rs j] show ?thesis
    by (simp add: record_hash_shape)
qed

definition chain_collision ::
  "bytes option \<Rightarrow> keyring option \<Rightarrow> audit_record list \<Rightarrow> bytes option \<Rightarrow> keyring option \<Rightarrow> audit_record list \<Rightarrow> bool" where
  "chain_collision sk ring rs sk' ring' rs' =
     (\<exists>(r, r') \<in> set (zip rs rs').
        record_collision (key_for r sk ring) r (key_for r' sk' ring') r')"

lemma chain_collisionI:
  "i < length rs \<Longrightarrow> i < length rs' \<Longrightarrow>
   record_collision (key_for (rs ! i) sk ring) (rs ! i) (key_for (rs' ! i) sk' ring') (rs' ! i) \<Longrightarrow>
   chain_collision sk ring rs sk' ring' rs'"
  unfolding chain_collision_def by (rule bexI [of _ "(rs ! i, rs' ! i)"]) (auto simp: set_zip)

text \<open>Two chains with the same hash at one place say the same up to there.\<close>

lemma chains_agree_below:
  assumes v: "valid_chain lib sk ring sgs rs" and v': "valid_chain lib' sk' ring' sgs' rs'"
    and wf: "list_all wf_record rs" and wf': "list_all wf_record rs'"
    and "i < length rs" and "i < length rs'" and "hash (rs ! i) = hash (rs' ! i)" and "j \<le> i"
  shows "same_content (rs ! j) (rs' ! j) \<or> chain_collision sk ring rs sk' ring' rs'"
  using assms(5-8)
proof (induction i)
  case 0
  with valid_hash [OF v] valid_hash [OF v'] valid_prev_length [OF v] valid_prev_length [OF v'] wf wf'
    record_hash_binds [of "rs ! 0" "key_for (rs ! 0) sk ring" "hash (rs ! 0)" "rs' ! 0" "key_for (rs' ! 0) sk' ring'"]
  show ?case by (auto simp: list_all_length intro: chain_collisionI)
next
  case (Suc i)
  from Suc.prems valid_hash [OF v] valid_hash [OF v'] valid_prev_length [OF v] valid_prev_length [OF v'] wf wf'
    record_hash_binds [of "rs ! Suc i" "key_for (rs ! Suc i) sk ring" "hash (rs ! Suc i)" "rs' ! Suc i"
      "key_for (rs' ! Suc i) sk' ring'"]
  have here: "same_content (rs ! Suc i) (rs' ! Suc i) \<or> chain_collision sk ring rs sk' ring' rs'"
    by (auto simp: list_all_length intro: chain_collisionI)
  show ?case
  proof (cases "j = Suc i \<or> chain_collision sk ring rs sk' ring' rs'")
    case True
    with here show ?thesis by blast
  next
    case False
    with here have "same_content (rs ! Suc i) (rs' ! Suc i)" by blast
    then have "hash (rs ! i) = hash (rs' ! i)"
      using valid_prev [OF v Suc.prems(1)] valid_prev [OF v' Suc.prems(2)] by (simp add: same_content_def)
    with Suc False show ?thesis by simp
  qed
qed

lemma chains_agree:
  assumes v: "valid_chain lib sk ring sgs rs" and v': "valid_chain lib' sk' ring' sgs' rs'"
    and wf: "list_all wf_record rs" and wf': "list_all wf_record rs'"
    and i: "i < length rs" "i < length rs'" "hash (rs ! i) = hash (rs' ! i)"
  shows "list_all2 same_content (take (Suc i) rs) (take (Suc i) rs') \<or> chain_collision sk ring rs sk' ring' rs'"
proof (cases "chain_collision sk ring rs sk' ring' rs'")
  case False
  have "same_content (rs ! j) (rs' ! j)" if "j \<le> i" for j
    using chains_agree_below [OF assms that] False by blast
  with i show ?thesis by (auto simp: list_all2_conv_all_nth)
qed simp

text \<open>The last hash determines the number of records as well.\<close>

lemma same_last_length:
  assumes v: "valid_chain lib sk ring sgs rs" and v': "valid_chain lib' sk' ring' sgs' rs'"
    and wf: "list_all wf_record rs" and wf': "list_all wf_record rs'"
    and ne: "rs \<noteq> []" "rs' \<noteq> []" and h: "hash (last rs) = hash (last rs')"
  shows "length rs = length rs' \<or>
    record_collision (key_for (last rs) sk ring) (last rs) (key_for (last rs') sk' ring') (last rs')"
proof -
  let ?n = "length rs - 1" and ?m = "length rs' - 1"
  from ne have n: "last rs = rs ! ?n" "?n < length rs" and m: "last rs' = rs' ! ?m" "?m < length rs'"
    by (simp_all add: last_conv_nth)
  have "same_content (last rs) (last rs') \<or>
    record_collision (key_for (last rs) sk ring) (last rs) (key_for (last rs') sk' ring') (last rs')"
    using valid_hash [OF v n(2)] valid_hash [OF v' m(2)] valid_prev_length [OF v n(2)] valid_prev_length [OF v' m(2)]
      wf wf' n m h by (intro record_hash_binds [of _ _ "hash (last rs)"]) (auto simp: list_all_length)
  moreover have "length rs = length rs'" if "same_content (last rs) (last rs')"
  proof -
    have "int ?n = int ?m" using that n m valid_seq [OF v n(2)] valid_seq [OF v' m(2)] by (simp add: same_content_def)
    with ne show ?thesis by (cases rs; cases rs') auto
  qed
  ultimately show ?thesis by blast
qed

section \<open>Building a chain without a key\<close>

text \<open>What anyone can do to the records of a log: number and link them anew, drop the key ids and
  hash them with plain SHA-256.\<close>

fun rebuild :: "nat \<Rightarrow> string \<Rightarrow> audit_record list \<Rightarrow> audit_record list result" where
  "rebuild i prev [] = Inr []"
| "rebuild i prev (r # rs) =
     (let r1 = r\<lparr>seq := int i, prev_hash := prev, key_id := []\<rparr>
      in bindE (compute_record_hash r1 None) (\<lambda>h.
         bindE (rebuild (Suc i) h rs) (\<lambda>ts. Inr (r1\<lparr>hash := h\<rparr> # ts))))"

definition hashable :: "audit_record \<Rightarrow> bool" where
  "hashable r =
     (list_all (\<lambda>f. \<not> has_surrogate (f r)) [timestamp, actor, action, subject] \<and>
      clean (PyDict (metadata r)) \<and> dumpable (PyDict (metadata r)))"

lemma rebuild_valid:
  "rebuild i prev rs = Inr ts \<Longrightarrow> valid_from lib None ring None i prev ts"
  by (induction i prev rs arbitrary: ts rule: rebuild.induct)
    (auto simp: result_simps Let_def valid_record_def key_for_def)

lemma rebuild_defined:
  "list_all hashable rs \<Longrightarrow> is_ascii prev \<Longrightarrow> \<exists>ts. rebuild i prev rs = Inr ts"
proof (induction i prev rs rule: rebuild.induct)
  case (2 i prev r rs)
  let ?r = "r\<lparr>seq := int i, prev_hash := prev, key_id := []\<rparr>"
  have "\<exists>h. compute_record_hash ?r None = Inr h"
    unfolding compute_record_hash_defined using 2(2,3)
    by (auto simp: hashable_def clean_record_def is_ascii_no_surrogate)
  then obtain h where h: "compute_record_hash ?r None = Inr h" ..
  with 2(1) [OF refl h] 2(2) record_hash_shape [OF h] show ?case by (auto simp: Let_def)
qed simp

lemma rebuild_contents:
  "rebuild i prev rs = Inr ts \<Longrightarrow>
   map (\<lambda>r. (timestamp r, actor r, action r, subject r, metadata r)) ts =
   map (\<lambda>r. (timestamp r, actor r, action r, subject r, metadata r)) rs"
  by (induction i prev rs arbitrary: ts rule: rebuild.induct) (auto simp: result_simps Let_def)

section \<open>Accepted chains\<close>

lemma accepted:
  assumes "verify_chain lib rs sk count ring cpo sgs = Inr rep" and "ok rep"
  shows "valid_chain lib sk ring sgs rs" "anchored cpo rs" "count = None \<or> count = Some (int (length rs))"
  using assms verify_chain_ok by blast+

lemma accepts:
  assumes "valid_chain lib sk ring sgs rs" and "anchored cpo rs" and "count = None \<or> count = Some (int (length rs))"
  shows "\<exists>rep. verify_chain lib rs sk count ring cpo sgs = Inr rep \<and> ok rep"
  using valid_merkle_root [OF assms(1)] assms verify_chain_ok by metis

lemma anchored_None [simp]: "anchored None rs"
  by (simp add: anchored_def)

lemma py_index_nat: "i < length xs \<Longrightarrow> py_index xs (int i) = Inr (xs ! i)"
  by (simp add: py_index_def)

lemma anchored_at:
  assumes "cp_seq cp = int i"
  shows "anchored (Some cp) rs \<longleftrightarrow>
    i < length rs \<and> hash (rs ! i) = cp_hash cp \<and>
    (cp_merkle_root cp = [] \<or> merkle_root (map hash rs) = Inr (cp_merkle_root cp))"
  using assms py_index_nat [of i rs] by (auto simp: anchored_def)

text \<open>What a checkpoint of the last record asks of another log.\<close>

lemma checkpoint_of_last:
  assumes "valid_chain lib sk ring sgs rs" and "rs \<noteq> []"
    and "make_checkpoint lib0 (last rs) ck mroot skey sid = Inr cp"
  shows "cp_seq cp = int (length rs) - 1"
    and "anchored (Some cp) rs' \<longleftrightarrow>
      length rs \<le> length rs' \<and> hash (rs ! (length rs - 1)) = hash (rs' ! (length rs - 1)) \<and>
      (mroot = [] \<or> merkle_root (map hash rs') = Inr mroot)"
proof -
  note cp = make_checkpoint_Inr(1,2,4) [OF assms(3)]
  have last: "last rs = rs ! (length rs - 1)" "length rs - 1 < length rs"
    using assms(2) by (simp_all add: last_conv_nth)
  have seq: "cp_seq cp = int (length rs - 1)" using cp(1) valid_seq [OF assms(1) last(2)] last(1) by simp
  then show "cp_seq cp = int (length rs) - 1" using last(2) by simp
  have "length rs - 1 < length rs' \<longleftrightarrow> length rs \<le> length rs'" using last(2) by linarith
  then show "anchored (Some cp) rs' \<longleftrightarrow>
      length rs \<le> length rs' \<and> hash (rs ! (length rs - 1)) = hash (rs' ! (length rs - 1)) \<and>
      (mroot = [] \<or> merkle_root (map hash rs') = Inr mroot)"
    unfolding anchored_at [OF seq] cp(2,3) last(1) by (metis)
qed

lemma valid_take: "valid_chain lib sk ring sgs rs \<Longrightarrow> valid_chain lib sk ring sgs (take n rs)"
  using valid_from_append [of lib sk ring sgs 0 GENESIS_HASH "take n rs" "drop n rs"] by simp

text \<open>The loop passes over a valid beginning.\<close>

lemma verify_records_append:
  "valid_from lib sk ring sgs i prev xs \<Longrightarrow>
   verify_records lib sk ring sgs i prev n (xs @ ts) =
   verify_records lib sk ring sgs (i + length xs) (if xs = [] then prev else hash (last xs))
     (if sgs = None then n else n + length xs) ts"
  by (induction xs arbitrary: i prev n) (auto simp: record_problem_None [symmetric])

text \<open>A chain to evaluate the properties on.\<close>

lemma sample_chain:
  "\<exists>rs. valid_chain lib None ring None rs \<and> length rs = 2 \<and> list_all wf_record rs \<and>
     (\<forall>r \<in> set rs. key_id r = [])"
proof -
  let ?rs = "[sample_record, sample_record\<lparr>actor := ''bob''\<rparr>]"
  have "list_all hashable ?rs"
    by (simp add: hashable_def sample_record_def is_ascii_no_surrogate clean_dict dumpable_dict)
  moreover have "is_ascii GENESIS_HASH" by (simp add: GENESIS_HASH_def is_ascii_def list_all_length)
  ultimately obtain ts where ts: "rebuild 0 GENESIS_HASH ?rs = Inr ts" using rebuild_defined by blast
  have "list_all (\<lambda>r. wf_record r \<and> key_id r = []) ts \<and> length ts = 2"
    using ts by (auto simp: result_simps Let_def wf_record_def wf_dict sample_record_def)
  with rebuild_valid [OF ts] show ?thesis by (auto simp: list_all_iff)
qed

section \<open>Properties\<close>

text \<open>C9: \<open>verify_chain\<close> reports OK exactly for the valid chains: every record has its index as
  sequence number, links to its predecessor, is sealed under a known key with the hash it
  carries and, when signers are given, is signed by one of them; the number of records is the
  expected one, and the chain agrees with the checkpoint.\<close>

theorem verify_chain_correct:
  "(\<exists>rep. verify_chain lib rs sk count ring cpo sgs = Inr rep \<and> ok rep) =
     (valid_chain lib sk ring sgs rs \<and> anchored cpo rs \<and> count \<in> {None, Some (int (length rs))})"
proof
  assume "\<exists>rep. verify_chain lib rs sk count ring cpo sgs = Inr rep \<and> ok rep"
  then obtain rep where "verify_chain lib rs sk count ring cpo sgs = Inr rep" "ok rep" by blast
  from accepted [OF this]
  show "valid_chain lib sk ring sgs rs \<and> anchored cpo rs \<and> count \<in> {None, Some (int (length rs))}" by simp
qed (auto intro: accepts)



text \<open>C5: The last hash of a chain commits to the whole log: two chains that verify, under whatever
  keys, and end in the same hash have the same length and the same content, record by record,
  or the texts hashed at one place hold a collision of SHA-256. Hence modifying, inserting,
  removing or reordering records anywhere changes the last hash or fails the verification.\<close>

theorem last_hash_commits:
  assumes "verify_chain lib rs sk None ring None sgs = Inr rep" and "ok rep"
    and "verify_chain lib' rs' sk' None ring' None sgs' = Inr rep'" and "ok rep'"
    and "list_all wf_record rs" and "list_all wf_record rs'" and "rs \<noteq> []" and "rs' \<noteq> []"
    and "hash (last rs) = hash (last rs')"
  shows "list_all2 same_content rs rs' \<or> chain_collision sk ring rs sk' ring' rs' \<or>
    record_collision (key_for (last rs) sk ring) (last rs) (key_for (last rs') sk' ring') (last rs')"
proof -
  note v = accepted(1) [OF assms(1,2)] accepted(1) [OF assms(3,4)]
  show ?thesis
  proof (cases "length rs = length rs'")
    case True
    with chains_agree [OF v assms(5,6), of "length rs - 1"] assms(7-9) show ?thesis
      by (auto simp: last_conv_nth)
  next
    case False
    with same_last_length [OF v assms(5-9)] show ?thesis by blast
  qed
qed

theorem last_hash_commits_witness:
  "\<exists>rs rep. verify_chain demo_ed25519 rs None None None None None = Inr rep \<and> ok rep \<and> length rs = 2 \<and>
     (list_all2 same_content rs rs \<or> chain_collision None None rs None None rs \<or>
      record_collision (key_for (last rs) None None) (last rs) (key_for (last rs) None None) (last rs))"
proof -
  obtain rs where rs: "valid_chain demo_ed25519 None None None rs" "length rs = 2" "list_all wf_record rs"
    using sample_chain by blast
  with accepts obtain rep where rep: "verify_chain demo_ed25519 rs None None None None None = Inr rep" "ok rep"
    by (metis anchored_None)
  from rs(2) have "rs \<noteq> []" by auto
  with last_hash_commits [OF rep rep rs(3,3)] rep rs(2) show ?thesis by blast
qed

text \<open>C13: A checkpoint pins everything behind it: when a log verified at the time its last record was
  anchored, a log that verifies against that checkpoint later, under whatever keys, still starts
  with the same content, record by record, or a collision of SHA-256 is found.\<close>

theorem checkpoint_pins_prefix:
  assumes "verify_chain lib rs sk None ring None sgs = Inr rep" and "ok rep" and "rs \<noteq> []"
    and "make_checkpoint lib0 (last rs) ck mroot skey sid = Inr cp"
    and "verify_chain lib' rs' sk' count ring' (Some cp) sgs' = Inr rep'" and "ok rep'"
    and "list_all wf_record rs" and "list_all wf_record rs'"
  shows "length rs \<le> length rs' \<and>
    (list_all2 same_content rs (take (length rs) rs') \<or> chain_collision sk ring rs sk' ring' rs')"
proof -
  note v = accepted(1) [OF assms(1,2)] accepted(1) [OF assms(5,6)]
  have i: "length rs - 1 < length rs" "Suc (length rs - 1) = length rs" using assms(3) by simp_all
  from accepted(2) [OF assms(5,6)]
  have "length rs \<le> length rs'" "hash (rs ! (length rs - 1)) = hash (rs' ! (length rs - 1))"
    by (simp_all add: checkpoint_of_last(2) [OF v(1) assms(3,4)])
  with chains_agree [OF v assms(7,8) i(1) _ this(2)] i show ?thesis by auto
qed

theorem checkpoint_pins_prefix_witness:
  "\<exists>rs cp rep. make_checkpoint demo_ed25519 (last rs) None [] None ''s0'' = Inr cp \<and>
     verify_chain demo_ed25519 rs None None None (Some cp) None = Inr rep \<and> ok rep \<and> length rs = 2 \<and>
     (list_all2 same_content rs (take (length rs) rs) \<or> chain_collision None None rs None None rs)"
proof -
  obtain rs where rs: "valid_chain demo_ed25519 None None None rs" "length rs = 2" "list_all wf_record rs"
    using sample_chain by blast
  then have ne: "rs \<noteq> []" by auto
  obtain cp where cp: "make_checkpoint demo_ed25519 (last rs) None [] None ''s0'' = Inr cp"
    by (simp add: make_checkpoint_def)
  have "anchored (Some cp) rs"
    by (simp add: checkpoint_of_last(2) [OF rs(1) ne cp])
  with rs accepts obtain rep rep' where
    rep: "verify_chain demo_ed25519 rs None None None None None = Inr rep" "ok rep"
      "verify_chain demo_ed25519 rs None None None (Some cp) None = Inr rep'" "ok rep'"
    by (metis anchored_None)
  from checkpoint_pins_prefix [OF rep(1,2) ne cp rep(3,4) rs(3,3)] cp rep(3,4) rs(2) show ?thesis by blast
qed

text \<open>C14: A checkpoint that carries the Merkle root of a log pins the whole log: a log that verifies
  against it has exactly as many records, with the same content, or a collision of SHA-256 is
  found, in the chains or in the trees. In particular a log that has grown since is refused.\<close>

theorem checkpoint_root_pins_log:
  assumes "verify_chain lib rs sk None ring None sgs = Inr rep" and "ok rep" and "rs \<noteq> []"
    and "merkle_root (map hash rs) = Inr mroot" and "mroot \<noteq> []"
    and "make_checkpoint lib0 (last rs) ck mroot skey sid = Inr cp"
    and "verify_chain lib' rs' sk' count ring' (Some cp) sgs' = Inr rep'" and "ok rep'"
    and "list_all wf_record rs" and "list_all wf_record rs'"
  shows "list_all2 same_content rs rs' \<or> chain_collision sk ring rs sk' ring' rs' \<or>
    colliding (tree_inputs (map hash rs)) (tree_inputs (map hash rs'))"
proof -
  note v = accepted(1) [OF assms(1,2)] accepted(1) [OF assms(7,8)]
  have i: "length rs - 1 < length rs" "Suc (length rs - 1) = length rs" using assms(3) by simp_all
  from accepted(2) [OF assms(7,8)] assms(5)
  have anchor: "length rs \<le> length rs'" "hash (rs ! (length rs - 1)) = hash (rs' ! (length rs - 1))"
    "merkle_root (map hash rs') = Inr mroot"
    by (simp_all add: checkpoint_of_last(2) [OF v(1) assms(3,6)])
  from merkle_root_binds [OF assms(4) anchor(3)]
  have "length rs = length rs' \<or> colliding (tree_inputs (map hash rs)) (tree_inputs (map hash rs'))"
    by (metis length_map)
  with chains_agree [OF v assms(9,10) i(1) _ anchor(2)] i anchor(1) show ?thesis by auto
qed

theorem checkpoint_root_pins_log_witness:
  "\<exists>rs mroot cp rep. merkle_root (map hash rs) = Inr mroot \<and>
     make_checkpoint demo_ed25519 (last rs) None mroot None ''s0'' = Inr cp \<and>
     verify_chain demo_ed25519 rs None None None (Some cp) None = Inr rep \<and> ok rep \<and> length rs = 2 \<and>
     (list_all2 same_content rs rs \<or> chain_collision None None rs None None rs \<or>
      colliding (tree_inputs (map hash rs)) (tree_inputs (map hash rs)))"
proof -
  obtain rs where rs: "valid_chain demo_ed25519 None None None rs" "length rs = 2" "list_all wf_record rs"
    using sample_chain by blast
  then have ne: "rs \<noteq> []" by auto
  obtain mroot where root: "merkle_root (map hash rs) = Inr mroot" using valid_merkle_root [OF rs(1)] .
  obtain cp where cp: "make_checkpoint demo_ed25519 (last rs) None mroot None ''s0'' = Inr cp"
    by (simp add: make_checkpoint_def)
  have "mroot \<noteq> []"
    using root ne length_subtree_root [of "map hash_bytes (map hash rs)"] by (auto simp: merkle_root_Inr)
  moreover have "anchored (Some cp) rs"
    by (simp add: checkpoint_of_last(2) [OF rs(1) ne cp] root)
  with rs accepts obtain rep rep' where
    rep: "verify_chain demo_ed25519 rs None None None None None = Inr rep" "ok rep"
      "verify_chain demo_ed25519 rs None None None (Some cp) None = Inr rep'" "ok rep'"
    by (metis anchored_None)
  ultimately show ?thesis
    using checkpoint_root_pins_log [OF rep(1,2) ne root _ cp rep(3,4) rs(3,3)] root cp rep(3,4) rs(2) by blast
qed

text \<open>A tail truncation goes unnoticed by itself and is noticed with an anchor: of a log that
  verifies, every beginning verifies, but none that is shorter verifies with the expected number
  of records or against a checkpoint of the last record.\<close>

theorem truncation:
  assumes "verify_chain lib rs sk None ring None sgs = Inr rep" and "ok rep" and "n < length rs"
    and "make_checkpoint lib0 (last rs) ck mroot skey sid = Inr cp"
  shows "(\<exists>rep'. verify_chain lib (take n rs) sk None ring None sgs = Inr rep' \<and> ok rep') \<and>
    verify_chain lib (take n rs) sk count ring (Some cp) sgs =
      Inr (failure (int n) None ''chain ends before the checkpoint: tail truncation'') \<and>
    (\<forall>rep'. verify_chain lib (take n rs) sk (Some (int (length rs))) ring None sgs = Inr rep' \<longrightarrow> \<not> ok rep')"
proof (intro conjI allI impI)
  note v = accepted(1) [OF assms(1,2)]
  show "\<exists>rep'. verify_chain lib (take n rs) sk None ring None sgs = Inr rep' \<and> ok rep'"
    using accepts [OF valid_take [OF v]] by simp
  have "rs \<noteq> []" using assms(3) by auto
  from checkpoint_of_last(1) [OF v this assms(4)] show "verify_chain lib (take n rs) sk count ring (Some cp) sgs =
      Inr (failure (int n) None ''chain ends before the checkpoint: tail truncation'')"
    using assms(3) by (simp add: verify_chain_def checkpoint_problem_def)
  fix rep'
  assume "verify_chain lib (take n rs) sk (Some (int (length rs))) ring None sgs = Inr rep'"
  with accepted(3) [OF this] assms(3) show "\<not> ok rep'" by auto
qed

theorem truncation_witness:
  "\<exists>rs rep. length rs = 2 \<and> verify_chain demo_ed25519 (take 1 rs) None None None None None = Inr rep \<and> ok rep"
proof -
  obtain rs where rs: "valid_chain demo_ed25519 None None None rs" "length rs = 2"
    using sample_chain by blast
  with accepts obtain rep where rep: "verify_chain demo_ed25519 rs None None None None None = Inr rep" "ok rep"
    by (metis anchored_None)
  obtain cp where cp: "make_checkpoint demo_ed25519 (last rs) None [] None ''s0'' = Inr cp"
    by (simp add: make_checkpoint_def)
  from truncation [OF rep _ cp, of 1] rs(2) show ?thesis by auto
qed

text \<open>Removing a record from the middle of a log that verifies is reported as a sequence gap at
  its place, with the number that was expected and the one that was found.\<close>

theorem removal_reported:
  assumes "verify_chain lib rs sk None ring None sgs = Inr rep" and "ok rep" and "Suc i < length rs"
  shows "verify_chain lib (take i rs @ drop (Suc i) rs) sk None ring None sgs =
    Inr (failure (int i) (Some (int (Suc i)))
      (''sequence gap: expected seq '' @ dec_int (int i) @ '', found '' @ dec_int (int (Suc i))))"
proof -
  note v = accepted(1) [OF assms(1,2)]
  have drop: "drop (Suc i) rs = rs ! Suc i # drop (Suc (Suc i)) rs"
    using assms(3) by (simp add: Cons_nth_drop_Suc)
  have "verify_records lib sk ring sgs 0 GENESIS_HASH 0 (take i rs @ drop (Suc i) rs) =
      Inr (Inl (failure (int i) (Some (int (Suc i)))
        (''sequence gap: expected seq '' @ dec_int (int i) @ '', found '' @ dec_int (int (Suc i)))))"
    unfolding verify_records_append [OF valid_take [OF v]] drop
    using assms(3) valid_seq [OF v assms(3)] by (simp add: record_problem_def)
  then show ?thesis by (simp add: verify_chain_def checkpoint_problem_def)
qed

theorem removal_reported_witness:
  "\<exists>rs. length rs = 2 \<and> verify_chain demo_ed25519 (drop 1 rs) None None None None None =
     Inr (failure 0 (Some 1) (''sequence gap: expected seq '' @ dec_int 0 @ '', found '' @ dec_int 1))"
proof -
  obtain rs where rs: "valid_chain demo_ed25519 None None None rs" "length rs = 2"
    using sample_chain by blast
  with accepts obtain rep where rep: "verify_chain demo_ed25519 rs None None None None None = Inr rep" "ok rep"
    by (metis anchored_None)
  from removal_reported [OF rep, of 0] rs(2) show ?thesis by auto
qed

text \<open>Changing what a record says, in any place but the last, makes the verification fail, however
  the record's own hash is recomputed and whatever keys the verifier uses then, unless the texts
  hashed for the two logs hold a collision of SHA-256.\<close>

theorem edit_detected:
  assumes "verify_chain lib rs sk None ring None sgs = Inr rep" and "ok rep" and "Suc i < length rs"
    and "list_all wf_record rs" and "wf_record r" and "\<not> same_content (rs ! i) r"
  shows "(\<nexists>rep'. verify_chain lib' (rs[i := r]) sk' None ring' None sgs' = Inr rep' \<and> ok rep') \<or>
    chain_collision sk ring rs sk' ring' (rs[i := r])"
proof (cases "\<exists>rep'. verify_chain lib' (rs[i := r]) sk' None ring' None sgs' = Inr rep' \<and> ok rep'")
  let ?n = "length rs - 1"
  case True
  then have v': "valid_chain lib' sk' ring' sgs' (rs[i := r])" using accepted(1) by blast
  have "hash (rs ! ?n) = hash (rs[i := r] ! ?n)" using assms(3) by simp
  moreover have "list_all wf_record (rs[i := r])"
    using assms(4,5) by (auto simp: list_all_iff dest: set_update_subset_insert [THEN subsetD])
  ultimately have "same_content (rs ! i) (rs[i := r] ! i) \<or> chain_collision sk ring rs sk' ring' (rs[i := r])"
    using assms(3) by (intro chains_agree_below [OF accepted(1) [OF assms(1,2)] v' assms(4), of ?n]) auto
  with assms(3,6) show ?thesis by simp
qed simp

theorem edit_detected_witness:
  "\<exists>rs. length rs = 2 \<and>
     ((\<nexists>rep'. verify_chain demo_ed25519 (rs[0 := rs ! 1]) None None None None None = Inr rep' \<and> ok rep') \<or>
      chain_collision None None rs None None (rs[0 := rs ! 1]))"
proof -
  obtain rs where rs: "valid_chain demo_ed25519 None None None rs" "length rs = 2" "list_all wf_record rs"
    using sample_chain by blast
  with accepts obtain rep where rep: "verify_chain demo_ed25519 rs None None None None None = Inr rep" "ok rep"
    by (metis anchored_None)
  have "\<not> same_content (rs ! 0) (rs ! 1)"
    using valid_seq [OF rs(1), of 0] valid_seq [OF rs(1), of 1] rs(2) by (simp add: same_content_def)
  moreover have "Suc 0 < length rs" "wf_record (rs ! 1)" using rs(2,3) by (simp_all add: list_all_length)
  ultimately show ?thesis using edit_detected [OF rep _ rs(3), of 0 "rs ! 1"] rs(2) by blast
qed



text \<open>A lone surrogate in a stored record is not reported but raised: when the first record is
  otherwise in order and a string of it cannot be encoded, \<open>verify_chain\<close> ends in a
  \<open>UnicodeEncodeError\<close> instead of a report.\<close>

theorem surrogate_raises:
  assumes "seq r = 0" and "prev_hash r = GENESIS_HASH" and "key_id r = []"
    and "dumpable (PyDict (metadata r))" and "\<not> clean_record r"
  shows "verify_chain lib (r # rs) sk None ring None sgs = Inl UnicodeEncodeError"
proof -
  have "is_ascii GENESIS_HASH" by (simp add: GENESIS_HASH_def is_ascii_def list_all_length)
  with assms compute_record_hash_Inl [of r sk UnicodeEncodeError]
  have "compute_record_hash r sk = Inl UnicodeEncodeError" by simp
  with assms show ?thesis
    by (simp add: verify_chain_def checkpoint_problem_def record_problem_def key_for_def)
qed

theorem surrogate_raises_witness:
  "verify_chain demo_ed25519 [sample_record\<lparr>actor := map (char_of :: nat \<Rightarrow> char) [237, 160, 128], key_id := []\<rparr>]
     None None None None None = Inl UnicodeEncodeError"
  by (rule surrogate_raises)
    (simp_all add: sample_record_def dumpable_dict clean_record_def)

text \<open>C20: A keyring alone does not protect a sealed log: the records of any log, numbered and linked
  anew and hashed without a key, with no key ids, verify when the verifier passes the keyring
  but no seal key. Nobody needs a key to build that chain.\<close>

theorem rebuilt_log_passes_keyring:
  assumes "list_all hashable rs"
  shows "\<exists>ts. rebuild 0 GENESIS_HASH rs = Inr ts \<and>
    map (\<lambda>r. (timestamp r, actor r, action r, subject r, metadata r)) ts =
      map (\<lambda>r. (timestamp r, actor r, action r, subject r, metadata r)) rs \<and>
    (\<exists>rep. verify_chain lib ts None None (Some ring) None None = Inr rep \<and> ok rep)"
proof -
  have "is_ascii GENESIS_HASH" by (simp add: GENESIS_HASH_def is_ascii_def list_all_length)
  with rebuild_defined [OF assms] obtain ts where ts: "rebuild 0 GENESIS_HASH rs = Inr ts" by blast
  with rebuild_contents [OF ts] accepts [OF rebuild_valid [OF ts], of None None] show ?thesis by auto
qed

theorem rebuilt_log_passes_keyring_witness:
  "\<exists>ts rep. rebuild 0 GENESIS_HASH [sample_record\<lparr>actor := ''mallory''\<rparr>] = Inr ts \<and>
     verify_chain demo_ed25519 ts None None (Some [(''k0'', replicate 32 1)]) None None = Inr rep \<and> ok rep"
proof -
  have "list_all hashable [sample_record\<lparr>actor := ''mallory''\<rparr>]"
    by (simp add: hashable_def sample_record_def is_ascii_no_surrogate clean_dict dumpable_dict)
  from rebuilt_log_passes_keyring [OF this] show ?thesis by blast
qed

end
