(* ===== verification/Backends.thy ===== *)
theory Backends
  imports Verify_Properties
begin

text \<open>
  \<open>backends/base.py\<close> and \<open>backends/memory.py\<close>: the interface of a storage backend as a record of
  operations over a state, the defaults of the base class, and the memory backend.

  The locale \<open>storage\<close> states what a backend promises to the log: what was appended is loaded,
  in order, each record in the form \<open>norm\<close> in which the backend keeps it, which says the same.
  Every backend interprets it.
\<close>

section \<open>Computations with a state\<close>

text \<open>A method changes its object also when it raises.\<close>

type_synonym ('s, 'a) action = "'s \<Rightarrow> 'a result \<times> 's"

definition bindS :: "('s, 'a) action \<Rightarrow> ('a \<Rightarrow> ('s, 'b) action) \<Rightarrow> ('s, 'b) action" where
  "bindS m f = (\<lambda>s. case m s of (Inl e, s') \<Rightarrow> (Inl e, s') | (Inr x, s') \<Rightarrow> f x s')"

definition returnS :: "'a \<Rightarrow> ('s, 'a) action" where
  "returnS x = (\<lambda>s. (Inr x, s))"

definition raiseS :: "exn \<Rightarrow> ('s, 'a) action" where
  "raiseS e = (\<lambda>s. (Inl e, s))"

definition liftS :: "'a result \<Rightarrow> ('s, 'a) action" where
  "liftS r = (\<lambda>s. (r, s))"

lemma bindS_simps [simp]:
  "m s = (Inr x, s') \<Longrightarrow> bindS m f s = f x s'"
  "m s = (Inl e, s') \<Longrightarrow> bindS m f s = (Inl e, s')"
  by (simp_all add: bindS_def)

lemma run_simps [simp]:
  "returnS x s = (Inr x, s)" "raiseS e s = (Inl e, s)" "liftS r s = (r, s)"
  by (simp_all add: returnS_def raiseS_def liftS_def)

lemma bindS_Inr:
  "bindS m f s = (Inr y, s2) \<longleftrightarrow> (\<exists>x s1. m s = (Inr x, s1) \<and> f x s1 = (Inr y, s2))"
  by (auto simp: bindS_def split: prod.splits sum.splits)

section \<open>The interface\<close>

record 's backend_ops =
  b_init :: "('s, unit) action"
  b_append :: "audit_record \<Rightarrow> ('s, unit) action"
  b_append_many :: "audit_record list \<Rightarrow> ('s, unit) action"
  b_load :: "('s, audit_record list) action"
  b_load_last :: "('s, audit_record option) action"
  b_close :: "('s, unit) action"

definition last_record :: "audit_record list \<Rightarrow> audit_record option" where
  "last_record rs = (if rs = [] then None else Some (last rs))"

text \<open>The two methods the base class defines by the others.\<close>

fun append_each :: "(audit_record \<Rightarrow> ('s, unit) action) \<Rightarrow> audit_record list \<Rightarrow> ('s, unit) action" where
  "append_each app [] = returnS ()"
| "append_each app (r # rs) = bindS (app r) (\<lambda>_. append_each app rs)"

definition load_last_by_load :: "('s, audit_record list) action \<Rightarrow> ('s, audit_record option) action" where
  "load_last_by_load ld = bindS ld (\<lambda>rs. returnS (last_record rs))"

text \<open>What a record says and how it was authenticated, apart from the order of the metadata.\<close>

definition same_record :: "audit_record \<Rightarrow> audit_record \<Rightarrow> bool" where
  "same_record r r' =
     (same_content r r' \<and> hash r = hash r' \<and> key_id r = key_id r' \<and> signer_id r = signer_id r' \<and>
      signature r = signature r')"

lemma same_record_refl [simp]: "same_record r r"
  by (simp add: same_record_def)

text \<open>\<open>usable s\<close>: the methods work on \<open>s\<close>; \<open>stored s\<close>: the records it holds; \<open>storable\<close>: the records
  the backend can keep after those it holds.\<close>

locale storage =
  fixes ops :: "'s backend_ops"
    and usable :: "'s \<Rightarrow> bool"
    and stored :: "'s \<Rightarrow> audit_record list"
    and storable :: "audit_record list \<Rightarrow> audit_record \<Rightarrow> bool"
    and norm :: "audit_record \<Rightarrow> audit_record"
  assumes norm_same: "storable rs r \<Longrightarrow> same_record r (norm r) \<and> (wf_record r \<longrightarrow> wf_record (norm r))"
    and init_law: "usable s \<Longrightarrow> \<exists>s'. b_init ops s = (Inr (), s') \<and> usable s' \<and> stored s' = stored s"
    and load_law: "usable s \<Longrightarrow> \<exists>s'. b_load ops s = (Inr (stored s), s') \<and> usable s' \<and> stored s' = stored s"
    and load_last_law: "usable s \<Longrightarrow>
      \<exists>s'. b_load_last ops s = (Inr (last_record (stored s)), s') \<and> usable s' \<and> stored s' = stored s"
    and append_law: "usable s \<Longrightarrow> storable (stored s) r \<Longrightarrow>
      \<exists>s'. b_append ops r s = (Inr (), s') \<and> usable s' \<and> stored s' = stored s @ [norm r]"
    and append_many_law: "usable s \<Longrightarrow>
      (\<forall>i < length rs. storable (stored s @ map norm (take i rs)) (rs ! i)) \<Longrightarrow>
      \<exists>s'. b_append_many ops rs s = (Inr (), s') \<and> usable s' \<and> stored s' = stored s @ map norm rs"

section \<open>The memory backend\<close>

definition memory_ops :: "audit_record list backend_ops" where
  "memory_ops =
     \<lparr>b_init = returnS (),
      b_append = (\<lambda>r s. (Inr (), s @ [r])),
      b_append_many = append_each (\<lambda>r s. (Inr (), s @ [r])),
      b_load = (\<lambda>s. (Inr s, s)),
      b_load_last = (\<lambda>s. (Inr (last_record s), s)),
      b_close = returnS ()\<rparr>"

lemma memory_append_each: "append_each (\<lambda>r s. (Inr (), s @ [r])) rs s = (Inr (), s @ rs)"
  by (induction rs arbitrary: s) auto

interpretation memory: storage memory_ops "\<lambda>_. True" id "\<lambda>_ _. True" id
  by unfold_locales (simp_all add: memory_ops_def memory_append_each)

end
