(* ===== verification/Log.thy ===== *)
theory Log
  imports Backends
begin

text \<open>
  \<open>log.py\<close>: the audit log over any storage backend. A log is its object state with the state of
  its backend in it; a method is a function of the backend's operations and this state, and
  returns its result or exception with the new state. The clock (\<open>_utcnow\<close>) is an argument.

  The lock of a log is its kind only: whether the tail is read again before an append. Locks
  are taken and given back around these methods by the context manager of \<open>locks.py\<close>.
\<close>

section \<open>The object\<close>

datatype lock = NoLock | FileLock string

record 's audit_log =
  store :: 's
  log_seal_key :: "bytes option"
  log_key_id :: string
  log_signing_key :: "bytes option"
  log_signer_id :: string
  log_keyring :: keyring
  log_lock :: lock
  log_last :: "audit_record option"
  log_inited :: bool

definition MIN_KEY_LENGTH :: nat where "MIN_KEY_LENGTH = 16"

definition shared :: "'s audit_log \<Rightarrow> bool" where
  "shared lg = (log_lock lg \<noteq> NoLock)"

text \<open>\<open>AuditLog(...)\<close>; an empty \<open>lock_path\<close> is no lock.\<close>

definition new_log ::
  "ed25519 \<Rightarrow> 's \<Rightarrow> bytes option \<Rightarrow> string \<Rightarrow> keyring option \<Rightarrow> key_arg option \<Rightarrow> string \<Rightarrow> lock option
     \<Rightarrow> string option \<Rightarrow> 's audit_log result" where
  "new_log lib backend seal_key kid ring signing_key signer lk lk_path =
     (if (case seal_key of None \<Rightarrow> False | Some k \<Rightarrow> length k < MIN_KEY_LENGTH)
      then Inl (ValueError ''seal_key must be at least 16 bytes'')
      else bindE (case signing_key of
                    None \<Rightarrow> Inr None
                  | Some sk \<Rightarrow> bindE (load_private_key lib sk) (\<lambda>seed. Inr (Some seed))) (\<lambda>skey.
        if skey \<noteq> None \<and> signer = []
        then Inl (ValueError ''signer_id must not be empty when signing_key is set'')
        else let ring0 = (case ring of None \<Rightarrow> [] | Some m \<Rightarrow> m);
                 ring1 = (case seal_key of None \<Rightarrow> ring0 | Some k \<Rightarrow> dict_put ring0 kid k)
             in if lk \<noteq> None \<and> lk_path \<noteq> None
                then Inl (ValueError ''pass either lock or lock_path, not both'')
                else Inr \<lparr>store = backend, log_seal_key = seal_key, log_key_id = kid,
                       log_signing_key = skey, log_signer_id = signer, log_keyring = ring1,
                       log_lock = (case lk of
                                     Some l \<Rightarrow> l
                                   | None \<Rightarrow> (case lk_path of
                                                None \<Rightarrow> NoLock
                                              | Some p \<Rightarrow> if p = [] then NoLock else FileLock p)),
                       log_last = None, log_inited = False\<rparr>))"

text \<open>A method of the backend, called from the log.\<close>

definition on_store :: "('s, 'a) action \<Rightarrow> ('s audit_log, 'a) action" where
  "on_store act = (\<lambda>lg. case act (store lg) of (r, s) \<Rightarrow> (r, lg\<lparr>store := s\<rparr>))"

definition modify :: "('s audit_log \<Rightarrow> 's audit_log) \<Rightarrow> ('s audit_log, unit) action" where
  "modify f = (\<lambda>lg. (Inr (), f lg))"

definition log_init :: "'s backend_ops \<Rightarrow> ('s audit_log, unit) action" where
  "log_init ops =
     bindS (on_store (b_init ops)) (\<lambda>_.
     bindS (on_store (b_load ops)) (\<lambda>records.
       modify (\<lambda>lg. lg\<lparr>log_last := last_record records, log_inited := True\<rparr>)))"

definition ensure_inited :: "'s backend_ops \<Rightarrow> ('s audit_log, unit) action" where
  "ensure_inited ops = (\<lambda>lg. if log_inited lg then (Inr (), lg) else log_init ops lg)"

definition log_close :: "'s backend_ops \<Rightarrow> ('s audit_log, unit) action" where
  "log_close ops = on_store (b_close ops)"

text \<open>\<open>async with\<close>: open, run the body, close in any case; what \<open>close\<close> raises hides what the body did.\<close>

definition with_log :: "'s backend_ops \<Rightarrow> ('s audit_log, 'a) action \<Rightarrow> ('s audit_log, 'a) action" where
  "with_log ops body =
     bindS (log_init ops) (\<lambda>_ lg. case body lg of (x, lg') \<Rightarrow> case log_close ops lg' of (y, lg'') \<Rightarrow> (bindE y (\<lambda>_. x), lg''))"

section \<open>Appending\<close>

text \<open>\<open>metadata or {}\<close> and \<open>timestamp or _utcnow()\<close>.\<close>

definition or_empty :: "pydict option \<Rightarrow> pydict" where
  "or_empty m = (case m of None \<Rightarrow> [] | Some d \<Rightarrow> d)"

definition or_now :: "string \<Rightarrow> string option \<Rightarrow> string" where
  "or_now now ts = (case ts of None \<Rightarrow> now | Some t \<Rightarrow> if t = [] then now else t)"

definition build_record ::
  "'s audit_log \<Rightarrow> string \<Rightarrow> string \<Rightarrow> string \<Rightarrow> pydict \<Rightarrow> string \<Rightarrow> audit_record option \<Rightarrow> audit_record" where
  "build_record lg ac an sub meta ts prev =
     \<lparr>seq = (case prev of None \<Rightarrow> 0 | Some p \<Rightarrow> seq p + 1), timestamp = ts, actor = ac, action = an,
      subject = sub, metadata = meta,
      prev_hash = (case prev of None \<Rightarrow> GENESIS_HASH | Some p \<Rightarrow> hash p), hash = [],
      key_id = (if log_seal_key lg = None then [] else log_key_id lg),
      signer_id = (if log_signing_key lg = None then [] else log_signer_id lg), signature = []\<rparr>"

definition is_type_error :: "exn \<Rightarrow> bool" where
  "is_type_error e = (case e of TypeError _ \<Rightarrow> True | _ \<Rightarrow> False)"

definition seal_record :: "ed25519 \<Rightarrow> 's audit_log \<Rightarrow> audit_record \<Rightarrow> audit_record result" where
  "seal_record lib lg r =
     (case compute_record_hash r (log_seal_key lg) of
        Inl e \<Rightarrow> Inl (if is_type_error e then ValueError ''metadata must be JSON-serializable'' else e)
      | Inr h \<Rightarrow>
          let sealed = r\<lparr>hash := h\<rparr>
          in case log_signing_key lg of
               None \<Rightarrow> Inr sealed
             | Some seed \<Rightarrow>
                 bindE (sign_record lib sealed (PrivateKey seed)) (\<lambda>sig. Inr (sealed\<lparr>signature := sig\<rparr>)))"

definition refresh_tail :: "'s backend_ops \<Rightarrow> ('s audit_log, unit) action" where
  "refresh_tail ops = (\<lambda>lg.
     if shared lg
     then bindS (on_store (b_load_last ops)) (\<lambda>l. modify (\<lambda>lg. lg\<lparr>log_last := l\<rparr>)) lg
     else (Inr (), lg))"

definition log_append ::
  "ed25519 \<Rightarrow> 's backend_ops \<Rightarrow> string \<Rightarrow> string \<Rightarrow> string \<Rightarrow> string \<Rightarrow> pydict option \<Rightarrow> string option \<Rightarrow>
     ('s audit_log, audit_record) action" where
  "log_append lib ops now ac an sub meta ts =
     bindS (ensure_inited ops) (\<lambda>_.
     bindS (refresh_tail ops) (\<lambda>_ lg.
     bindS (liftS (seal_record lib lg
              (build_record lg ac an sub (or_empty meta) (or_now now ts) (log_last lg)))) (\<lambda>sealed.
     bindS (on_store (b_append ops sealed)) (\<lambda>_.
     bindS (modify (\<lambda>lg. lg\<lparr>log_last := Some sealed\<rparr>)) (\<lambda>_. returnS sealed))) lg))"

text \<open>The entries of \<open>append_many\<close>, each with the time it is built at.\<close>

type_synonym log_entry = "string \<times> string \<times> string \<times> pydict option \<times> string"

fun seal_entries ::
  "ed25519 \<Rightarrow> 's audit_log \<Rightarrow> audit_record option \<Rightarrow> log_entry list \<Rightarrow> audit_record list result" where
  "seal_entries lib lg prev [] = Inr []"
| "seal_entries lib lg prev ((ac, an, sub, meta, now) # es) =
     bindE (seal_record lib lg (build_record lg ac an sub (or_empty meta) now prev)) (\<lambda>r.
     bindE (seal_entries lib lg (Some r) es) (\<lambda>rs. Inr (r # rs)))"

definition log_append_many ::
  "ed25519 \<Rightarrow> 's backend_ops \<Rightarrow> log_entry list \<Rightarrow> ('s audit_log, audit_record list) action" where
  "log_append_many lib ops es =
     bindS (ensure_inited ops) (\<lambda>_.
     bindS (refresh_tail ops) (\<lambda>_ lg.
     bindS (liftS (seal_entries lib lg (log_last lg) es)) (\<lambda>sealed.
       if sealed = [] then returnS []
       else bindS (on_store (b_append_many ops sealed)) (\<lambda>_.
            bindS (modify (\<lambda>lg. lg\<lparr>log_last := Some (last sealed)\<rparr>)) (\<lambda>_. returnS sealed))) lg))"

definition log_rotate ::
  "ed25519 \<Rightarrow> 's backend_ops \<Rightarrow> string \<Rightarrow> bytes \<Rightarrow> string \<Rightarrow> string \<Rightarrow> ('s audit_log, audit_record) action" where
  "log_rotate lib ops now new_seal_key new_key_id ac =
     (if length new_seal_key < MIN_KEY_LENGTH
      then raiseS (ValueError ''seal_key must be at least 16 bytes'')
      else bindS (ensure_inited ops) (\<lambda>_ lg.
           bindS (log_append lib ops now ac ''key.rotate'' (''key:'' @ new_key_id)
                    (Some [(''from_key_id'',
                            if log_seal_key lg = None then PyNone else PyStr (log_key_id lg)),
                           (''to_key_id'', PyStr new_key_id)]) None) (\<lambda>marker.
           bindS (modify (\<lambda>lg. lg\<lparr>log_seal_key := Some new_seal_key, log_key_id := new_key_id,
                                  log_keyring := dict_put (log_keyring lg) new_key_id new_seal_key\<rparr>))
             (\<lambda>_. returnS marker)) lg))"

section \<open>Reading\<close>

definition log_public_key :: "ed25519 \<Rightarrow> 's audit_log \<Rightarrow> key_arg option" where
  "log_public_key lib lg = map_option (\<lambda>seed. PublicKey (public_key_of lib seed)) (log_signing_key lg)"

definition log_read :: "'s backend_ops \<Rightarrow> ('s audit_log, audit_record list) action" where
  "log_read ops = bindS (ensure_inited ops) (\<lambda>_. on_store (b_load ops))"

definition log_checkpoint :: "ed25519 \<Rightarrow> 's backend_ops \<Rightarrow> ('s audit_log, checkpoint) action" where
  "log_checkpoint lib ops =
     bindS (log_read ops) (\<lambda>records lg.
       (if records = [] then (Inl (ValueError ''cannot checkpoint an empty log''), lg)
        else (bindE (merkle_root (map hash records)) (\<lambda>mroot.
                make_checkpoint lib (last records) (log_seal_key lg) mroot
                  (map_option PrivateKey (log_signing_key lg)) (log_signer_id lg)), lg)))"

definition log_merkle_root :: "'s backend_ops \<Rightarrow> ('s audit_log, string) action" where
  "log_merkle_root ops = bindS (log_read ops) (\<lambda>records. liftS (merkle_root (map hash records)))"

definition log_inclusion_proof :: "'s backend_ops \<Rightarrow> int \<Rightarrow> ('s audit_log, inclusion_proof) action" where
  "log_inclusion_proof ops s = bindS (log_read ops) (\<lambda>records. liftS (merkle_proof (map hash records) s))"

text \<open>\<open>d.setdefault(k, v)\<close>.\<close>

definition setdefault :: "('k \<times> 'v) list \<Rightarrow> 'k \<Rightarrow> 'v \<Rightarrow> ('k \<times> 'v) list" where
  "setdefault d k v = (if map_of d k = None then d @ [(k, v)] else d)"

definition non_empty :: "'a list \<Rightarrow> 'a list option" where
  "non_empty xs = (if xs = [] then None else Some xs)"

definition verify_keyring :: "'s audit_log \<Rightarrow> keyring" where
  "verify_keyring lg =
     (case log_seal_key lg of None \<Rightarrow> log_keyring lg | Some k \<Rightarrow> setdefault (log_keyring lg) (log_key_id lg) k)"

definition verify_signers :: "ed25519 \<Rightarrow> 's audit_log \<Rightarrow> signers option \<Rightarrow> signers" where
  "verify_signers lib lg sgs =
     (let given = (case sgs of None \<Rightarrow> [] | Some m \<Rightarrow> m)
      in case log_public_key lib lg of None \<Rightarrow> given | Some pk \<Rightarrow> setdefault given (log_signer_id lg) pk)"

text \<open>What \<open>read\<close> raises becomes a report; its reason is the exception's text, an argument here.\<close>

definition log_verify ::
  "ed25519 \<Rightarrow> 's backend_ops \<Rightarrow> (exn \<Rightarrow> string) \<Rightarrow> int option \<Rightarrow> checkpoint option \<Rightarrow> signers option \<Rightarrow>
     ('s audit_log, verify_report) action" where
  "log_verify lib ops exn_str expected_count cpo sgs lg =
     (case log_read ops lg of
        (Inl e, lg') \<Rightarrow> (Inr (failure 0 None (exn_str e)), lg')
      | (Inr records, lg') \<Rightarrow>
          (verify_chain lib records (log_seal_key lg') expected_count (non_empty (verify_keyring lg')) cpo
             (non_empty (verify_signers lib lg' sgs)), lg'))"

end
