(* ===== verification/Log_Chain.thy ===== *)
theory Log_Chain
  imports Log
begin

text \<open>
  What the log keeps true. Inside the locale \<open>storage\<close>, hence for every backend: a method that
  appends extends the stored records by one that is valid at its place (\<open>append_extends\<close>), so a
  chain that verifies goes on verifying.

  \<open>writer_ok\<close> relates a log's keys to the keys a verifier holds; \<open>tail_ok\<close> says that the log's
  cached tail is the one in storage.
\<close>

section \<open>Records in another form\<close>

lemma same_record_hash:
  "same_record r r' \<Longrightarrow> wf_record r \<Longrightarrow> wf_record r' \<Longrightarrow> compute_record_hash r k = compute_record_hash r' k"
  by (simp add: same_record_def compute_record_hash_same)

lemma same_record_message: "same_record r r' \<Longrightarrow> record_signing_message r = record_signing_message r'"
  by (simp add: same_record_def same_content_def record_signing_message_def)

lemma valid_record_same:
  assumes "same_record r r'" and "wf_record r" and "wf_record r'"
  shows "valid_record lib sk ring sgs i prev r = valid_record lib sk ring sgs i prev r'"
  using same_record_hash [OF assms] same_record_message [OF assms(1)] assms(1)
  by (auto simp: valid_record_def key_for_def same_record_def same_content_def verify_record_signature_def
      split: option.splits)

section \<open>Sealing\<close>

text \<open>The verifier's keys \<open>sk\<close>, \<open>ring\<close> and \<open>sgs\<close> fit the log: the key it seals with is the one looked
  up for its key id, and, when signers are asked for, it signs with the key of one of them.\<close>

definition writer_ok ::
  "ed25519 \<Rightarrow> bytes option \<Rightarrow> keyring option \<Rightarrow> signers option \<Rightarrow> 's audit_log \<Rightarrow> bool" where
  "writer_ok lib sk ring sgs lg =
     ((case log_seal_key lg of
         None \<Rightarrow> sk = None
       | Some k \<Rightarrow> if log_key_id lg = [] then sk = Some k
                   else (case ring of None \<Rightarrow> False | Some m \<Rightarrow> map_of m (log_key_id lg) = Some k)) \<and>
      (case log_signing_key lg of
         None \<Rightarrow> True
       | Some seed \<Rightarrow> ed25519_ok lib \<and> length seed = 32 \<and> \<not> has_surrogate (log_signer_id lg)) \<and>
      (case sgs of
         None \<Rightarrow> True
       | Some m \<Rightarrow>
           (\<exists>seed pk. log_signing_key lg = Some seed \<and> map_of m (log_signer_id lg) = Some pk \<and>
              load_public_key lib pk = Inr (public_key_of lib seed))))"

definition entry_ok :: "string \<Rightarrow> string \<Rightarrow> string \<Rightarrow> pydict \<Rightarrow> string \<Rightarrow> bool" where
  "entry_ok ac an sub meta ts =
     (list_all (\<lambda>s. \<not> has_surrogate s) [ac, an, sub, ts] \<and> clean (PyDict meta) \<and>
      dumpable (PyDict meta) \<and> wf_value False (PyDict meta))"

lemma build_record_simps [simp]:
  "seq (build_record lg ac an sub meta ts prev) = (case prev of None \<Rightarrow> 0 | Some p \<Rightarrow> seq p + 1)"
  "prev_hash (build_record lg ac an sub meta ts prev) = (case prev of None \<Rightarrow> GENESIS_HASH | Some p \<Rightarrow> hash p)"
  "timestamp (build_record lg ac an sub meta ts prev) = ts"
  "actor (build_record lg ac an sub meta ts prev) = ac"
  "action (build_record lg ac an sub meta ts prev) = an"
  "subject (build_record lg ac an sub meta ts prev) = sub"
  "metadata (build_record lg ac an sub meta ts prev) = meta"
  "key_id (build_record lg ac an sub meta ts prev) = (if log_seal_key lg = None then [] else log_key_id lg)"
  "signer_id (build_record lg ac an sub meta ts prev) = (if log_signing_key lg = None then [] else log_signer_id lg)"
  by (simp_all add: build_record_def)

lemma seal_record_Inr:
  "seal_record lib lg r = Inr r' \<longleftrightarrow>
     (\<exists>h. compute_record_hash r (log_seal_key lg) = Inr h \<and>
        (case log_signing_key lg of
           None \<Rightarrow> r' = r\<lparr>hash := h\<rparr>
         | Some seed \<Rightarrow> \<exists>sig. sign_record lib (r\<lparr>hash := h\<rparr>) (PrivateKey seed) = Inr sig \<and>
             r' = r\<lparr>hash := h, signature := sig\<rparr>))"
  by (auto simp: seal_record_def Let_def result_simps split: sum.splits option.splits)

lemma seal_record_fields:
  assumes "seal_record lib lg r = Inr r'"
  shows "seq r' = seq r" "timestamp r' = timestamp r" "actor r' = actor r" "action r' = action r"
    "subject r' = subject r" "metadata r' = metadata r" "prev_hash r' = prev_hash r"
    "key_id r' = key_id r" "signer_id r' = signer_id r" "compute_record_hash r' (log_seal_key lg) = Inr (hash r')"
  using assms by (auto simp: seal_record_Inr split: option.splits)

lemma writer_key:
  assumes "writer_ok lib sk ring sgs lg" and "key_id r = (if log_seal_key lg = None then [] else log_key_id lg)"
  shows "key_for r sk ring = log_seal_key lg" and "key_id r \<noteq> [] \<longrightarrow> key_for r sk ring \<noteq> None"
  using assms by (auto simp: writer_ok_def key_for_def split: option.splits if_splits)

lemma sign_record_defined:
  assumes "ed25519_ok lib" and "length seed = 32" and "is_ascii (hash r)" and "\<not> has_surrogate (signer_id r)"
  shows "\<exists>sig. sign_record lib r (PrivateKey seed) = Inr sig \<and> sig \<noteq> []"
proof -
  have "is_ascii (dec_int (seq r) @ '':'' @ hash r @ '':'')" using assms(3) by simp
  from has_surrogate_ascii [OF this, of "signer_id r"] assms(4)
  obtain m where "record_signing_message r = Inr m" by (auto simp: record_signing_message_def encode_utf8_def)
  then show ?thesis
    using load_own_keys(1) [OF assms(1,2)] assms(1,2)
    by (auto simp: sign_record_def sign_message_def ed25519_ok_def)
qed

lemma seal_defined:
  assumes "writer_ok lib sk ring sgs lg" and "entry_ok ac an sub meta ts"
    and "is_ascii (case prev of None \<Rightarrow> GENESIS_HASH | Some p \<Rightarrow> hash p)"
  shows "\<exists>r. seal_record lib lg (build_record lg ac an sub meta ts prev) = Inr r"
proof -
  let ?r = "build_record lg ac an sub meta ts prev"
  obtain h where h: "compute_record_hash ?r (log_seal_key lg) = Inr h"
    using assms(2,3) compute_record_hash_defined [of ?r "log_seal_key lg"]
    by (auto simp: entry_ok_def clean_record_def is_ascii_no_surrogate)
  show ?thesis
  proof (cases "log_signing_key lg")
    case None
    with h show ?thesis by (simp add: seal_record_Inr)
  next
    case (Some seed)
    with assms(1) record_hash_shape [OF h] sign_record_defined [of lib seed "?r\<lparr>hash := h\<rparr>"] h show ?thesis
      by (auto simp: seal_record_Inr writer_ok_def)
  qed
qed

text \<open>What can be sealed.\<close>

lemma seal_accepts:
  assumes "writer_ok lib sk ring sgs lg" and "is_ascii (case prev of None \<Rightarrow> GENESIS_HASH | Some p \<Rightarrow> hash p)"
    and "wf_value False (PyDict meta)"
  shows "(\<exists>r. seal_record lib lg (build_record lg ac an sub meta ts prev) = Inr r) \<longleftrightarrow> entry_ok ac an sub meta ts"
proof
  assume "\<exists>r. seal_record lib lg (build_record lg ac an sub meta ts prev) = Inr r"
  then obtain r where r: "seal_record lib lg (build_record lg ac an sub meta ts prev) = Inr r" ..
  note f = seal_record_fields [OF r]
  have "dumpable (PyDict (metadata r))" "clean_record r"
    using f(10) compute_record_hash_defined [of r] by blast+
  with f assms(3) show "entry_ok ac an sub meta ts" by (simp add: entry_ok_def clean_record_def)
qed (use seal_defined [OF assms(1) _ assms(2)] in blast)

lemma seal_entries_length: "seal_entries lib lg prev es = Inr rs \<Longrightarrow> length rs = length es"
  by (induction lib lg prev es arbitrary: rs rule: seal_entries.induct) (auto simp: result_simps)

lemma seal_entries_defined:
  assumes "writer_ok lib sk ring sgs lg"
    and "list_all (\<lambda>(ac, an, sub, meta, now). entry_ok ac an sub (or_empty meta) now) es"
    and "is_ascii (case prev of None \<Rightarrow> GENESIS_HASH | Some p \<Rightarrow> hash p)"
  shows "\<exists>rs. seal_entries lib lg prev es = Inr rs"
  using assms(2,3)
proof (induction es arbitrary: prev)
  case (Cons e es)
  obtain ac an sub meta now where e: "e = (ac, an, sub, meta, now)" by (cases e)
  with Cons.prems seal_defined [OF assms(1)] obtain r where
    r: "seal_record lib lg (build_record lg ac an sub (or_empty meta) now prev) = Inr r" by fastforce
  have "is_ascii (hash r)" using seal_record_fields(10) [OF r] record_hash_shape by blast
  with Cons.IH [of "Some r"] Cons.prems obtain rs where "seal_entries lib lg (Some r) es = Inr rs" by auto
  with e r show ?case by simp
qed simp

lemma seal_entries_accepts:
  assumes "writer_ok lib sk ring sgs lg" and "is_ascii (case prev of None \<Rightarrow> GENESIS_HASH | Some p \<Rightarrow> hash p)"
    and "list_all (\<lambda>(ac, an, sub, meta, now). wf_value False (PyDict (or_empty meta))) es"
  shows "(\<exists>rs. seal_entries lib lg prev es = Inr rs) \<longleftrightarrow>
    list_all (\<lambda>(ac, an, sub, meta, now). entry_ok ac an sub (or_empty meta) now) es"
proof
  assume "\<exists>rs. seal_entries lib lg prev es = Inr rs"
  then obtain rs where "seal_entries lib lg prev es = Inr rs" ..
  then show "list_all (\<lambda>(ac, an, sub, meta, now). entry_ok ac an sub (or_empty meta) now) es"
    using assms(2,3)
  proof (induction es arbitrary: prev rs)
    case (Cons e es)
    obtain ac an sub meta now where e: "e = (ac, an, sub, meta, now)" by (cases e)
    with Cons.prems(1) obtain r ts where
      r: "seal_record lib lg (build_record lg ac an sub (or_empty meta) now prev) = Inr r"
      and ts: "seal_entries lib lg (Some r) es = Inr ts"
      by (auto simp: result_simps)
    have "entry_ok ac an sub (or_empty meta) now"
      using r Cons.prems(3) by (simp add: e seal_accepts [OF assms(1) Cons.prems(2), symmetric])
    moreover have "is_ascii (hash r)" using seal_record_fields(10) [OF r] record_hash_shape by blast
    ultimately show ?case using Cons.IH [OF ts] Cons.prems(3) by (simp add: e)
  qed simp
qed (use seal_entries_defined [OF assms(1) _ assms(2)] in blast)

lemma seal_valid:
  assumes w: "writer_ok lib sk ring sgs lg"
    and r: "seal_record lib lg (build_record lg ac an sub meta ts prev) = Inr r"
    and i: "(case prev of None \<Rightarrow> 0 | Some p \<Rightarrow> seq p + 1) = int i"
  shows "valid_record lib sk ring sgs i (case prev of None \<Rightarrow> GENESIS_HASH | Some p \<Rightarrow> hash p) r"
proof -
  note f = seal_record_fields [OF r]
  have key: "key_for r sk ring = log_seal_key lg" "key_id r \<noteq> [] \<longrightarrow> key_for r sk ring \<noteq> None"
    using writer_key [OF w, of r] f(8) by simp_all
  have "signature r \<noteq> [] \<and> (\<exists>pk. map_of m (signer_id r) = Some pk \<and> verify_record_signature lib r pk = Inr True)"
    if m: "sgs = Some m" for m
  proof -
    from w m obtain seed pk where seed: "log_signing_key lg = Some seed" "ed25519_ok lib" "length seed = 32"
      "map_of m (log_signer_id lg) = Some pk" "load_public_key lib pk = Inr (public_key_of lib seed)"
      "\<not> has_surrogate (log_signer_id lg)"
      by (auto simp: writer_ok_def)
    from r seed(1) obtain h sig where h: "compute_record_hash (build_record lg ac an sub meta ts prev) (log_seal_key lg) = Inr h"
      and sig: "sign_record lib ((build_record lg ac an sub meta ts prev)\<lparr>hash := h\<rparr>) (PrivateKey seed) = Inr sig"
      and r': "r = (build_record lg ac an sub meta ts prev)\<lparr>hash := h, signature := sig\<rparr>"
      by (auto simp: seal_record_Inr)
    note keys = load_own_keys(1) [OF seed(2,3)]
    from sig obtain msg where msg: "record_signing_message r = Inr msg" "sign_message lib msg (PrivateKey seed) = Inr sig"
      by (auto simp: sign_record_def result_simps record_signing_message_def r')
    have "sig \<noteq> []" using msg(2) keys seed(2,3) by (auto simp: sign_message_def ed25519_ok_def)
    moreover have "verify_record_signature lib r pk = Inr True"
      using verify_sign_message [OF seed(2) keys seed(3) seed(5) msg(2)] msg(1)
      by (simp add: verify_record_signature_def r')
    ultimately show ?thesis using seed(1,4) f(9) r' by simp
  qed
  with key f i show ?thesis by (auto simp: valid_record_def split: option.splits)
qed

section \<open>Methods over any backend\<close>

text \<open>The cached tail and the stored one agree in what the next record takes from it.\<close>

definition tail_is :: "audit_record list \<Rightarrow> audit_record option \<Rightarrow> bool" where
  "tail_is rs prev =
     (map_option (\<lambda>r. (seq r, hash r)) prev = map_option (\<lambda>r. (seq r, hash r)) (last_record rs))"

definition tail_ok :: "audit_record list \<Rightarrow> 's audit_log \<Rightarrow> bool" where
  "tail_ok rs lg = tail_is rs (log_last lg)"

definition same_config :: "'s audit_log \<Rightarrow> 's audit_log \<Rightarrow> bool" where
  "same_config lg lg' =
     (log_seal_key lg' = log_seal_key lg \<and> log_key_id lg' = log_key_id lg \<and>
      log_signing_key lg' = log_signing_key lg \<and> log_signer_id lg' = log_signer_id lg \<and>
      log_keyring lg' = log_keyring lg \<and> log_lock lg' = log_lock lg)"

lemma same_config_refl [simp]: "same_config lg lg"
  by (simp add: same_config_def)

lemma same_config_trans: "same_config lg lg1 \<Longrightarrow> same_config lg1 lg2 \<Longrightarrow> same_config lg lg2"
  by (simp add: same_config_def)

lemma same_config_simps [simp]:
  "same_config lg (lg'\<lparr>store := s\<rparr>) = same_config lg lg'"
  "same_config lg (lg'\<lparr>log_last := l\<rparr>) = same_config lg lg'"
  "same_config lg (lg'\<lparr>log_inited := b\<rparr>) = same_config lg lg'"
  by (simp_all add: same_config_def)

lemma same_config_build:
  "same_config lg lg' \<Longrightarrow> build_record lg' ac an sub meta ts prev = build_record lg ac an sub meta ts prev"
  by (simp add: build_record_def same_config_def)

lemma same_config_seal: "same_config lg lg' \<Longrightarrow> seal_record lib lg' r = seal_record lib lg r"
  by (simp add: seal_record_def same_config_def cong: option.case_cong sum.case_cong)

lemma same_config_writer: "same_config lg lg' \<Longrightarrow> writer_ok lib sk ring sgs lg' = writer_ok lib sk ring sgs lg"
  by (simp add: writer_ok_def same_config_def cong: option.case_cong)

text \<open>What the next record takes from the tail.\<close>

lemma tail_position:
  assumes "tail_is rs prev" and "valid_chain lib sk ring sgs rs"
  shows "(case prev of None \<Rightarrow> 0 | Some p \<Rightarrow> seq p + 1) = int (length rs)"
    and "(case prev of None \<Rightarrow> GENESIS_HASH | Some p \<Rightarrow> hash p) =
      (if rs = [] then GENESIS_HASH else hash (last rs))"
proof -
  show "(case prev of None \<Rightarrow> 0 | Some p \<Rightarrow> seq p + 1) = int (length rs)"
  proof (cases "rs = []")
    case False
    then have "last rs = rs ! (length rs - 1)" by (simp add: last_conv_nth)
    moreover have "int (length rs - 1) + 1 = int (length rs)" using False by (cases rs) simp_all
    ultimately show ?thesis
      using valid_seq [OF assms(2), of "length rs - 1"] False assms(1)
      by (auto simp: tail_is_def last_record_def split: option.splits)
  qed (use assms(1) in \<open>auto simp: tail_is_def last_record_def split: option.splits\<close>)
  show "(case prev of None \<Rightarrow> GENESIS_HASH | Some p \<Rightarrow> hash p) =
      (if rs = [] then GENESIS_HASH else hash (last rs))"
    using assms(1) by (auto simp: tail_is_def last_record_def split: option.splits if_splits)
qed

lemma tail_is_build:
  "tail_is rs prev \<Longrightarrow>
   build_record lg ac an sub meta ts prev = build_record lg ac an sub meta ts (last_record rs)"
  by (auto simp: tail_is_def build_record_def last_record_def split: option.splits if_splits)

lemma tail_is_entries:
  "tail_is rs prev \<Longrightarrow> seal_entries lib lg prev es = seal_entries lib lg (last_record rs) es"
  by (cases es) (auto simp: tail_is_build [of rs prev])

lemma valid_tail_ascii:
  assumes "valid_chain lib sk ring sgs rs"
  shows "is_ascii (if rs = [] then GENESIS_HASH else hash (last rs))"
proof (cases "rs = []")
  case True
  then show ?thesis by (simp add: GENESIS_HASH_def is_ascii_def list_all_length)
next
  case False
  then have "last rs = rs ! (length rs - 1)" "length rs - 1 < length rs" by (simp_all add: last_conv_nth)
  with valid_hash [OF assms] False show ?thesis by (metis record_hash_shape)
qed

text \<open>A log that may append: its storage is usable and its cached tail, once it has one, is either read
  again or right.\<close>

definition tail_known :: "audit_record list \<Rightarrow> 's audit_log \<Rightarrow> bool" where
  "tail_known rs lg = (log_inited lg \<longrightarrow> shared lg \<or> tail_ok rs lg)"

text \<open>A backend whose reading methods, opening included, leave the storage as it is.\<close>

definition reads_only :: "'s backend_ops \<Rightarrow> bool" where
  "reads_only ops =
     (\<forall>s. snd (b_init ops s) = s \<and> snd (b_load ops s) = s \<and> snd (b_load_last ops s) = s)"

context storage
begin

lemma log_init_run:
  assumes "usable (store lg)"
  obtains lg' where "log_init ops lg = (Inr (), lg')" "usable (store lg')" "stored (store lg') = stored (store lg)"
    "same_config lg lg'" "log_inited lg'" "tail_ok (stored (store lg)) lg'" "reads_only ops \<longrightarrow> store lg' = store lg"
proof -
  from init_law [OF assms] obtain s where s: "b_init ops (store lg) = (Inr (), s)" "usable s"
    "stored s = stored (store lg)" by blast
  from load_law [OF s(2)] obtain s' where s': "b_load ops s = (Inr (stored s), s')" "usable s'" "stored s' = stored s" by blast
  have "reads_only ops \<longrightarrow> s' = store lg"
    using s(1) s'(1) by (auto simp: reads_only_def) (metis snd_conv)
  with s s' that [of "lg\<lparr>store := s', log_last := last_record (stored s), log_inited := True\<rparr>"]
  show ?thesis by (simp add: log_init_def on_store_def modify_def tail_ok_def tail_is_def)
qed

lemma ensure_inited_run:
  assumes "usable (store lg)" and "tail_known (stored (store lg)) lg"
  obtains lg' where "ensure_inited ops lg = (Inr (), lg')" "usable (store lg')"
    "stored (store lg') = stored (store lg)" "same_config lg lg'" "log_inited lg'"
    "shared lg' \<or> tail_ok (stored (store lg)) lg'" "reads_only ops \<longrightarrow> store lg' = store lg"
proof (cases "log_inited lg")
  case True
  with assms that [of lg] show ?thesis by (simp add: ensure_inited_def tail_known_def)
next
  case False
  then show ?thesis using log_init_run [OF assms(1)] that by (metis ensure_inited_def)
qed

text \<open>The body of \<open>async with\<close> finds a log that is open and knows its tail.\<close>

lemma with_log_run:
  assumes "usable (store lg)"
  obtains lg' where "usable (store lg')" "stored (store lg') = stored (store lg)" "same_config lg lg'" "log_inited lg'"
    "tail_known (stored (store lg)) lg'"
    "with_log ops body lg = (case body lg' of (x, lg1) \<Rightarrow> case log_close ops lg1 of (y, lg2) \<Rightarrow> (bindE y (\<lambda>_. x), lg2))"
proof -
  obtain lg' where 1: "log_init ops lg = (Inr (), lg')" "usable (store lg')" "stored (store lg') = stored (store lg)"
    "same_config lg lg'" "log_inited lg'" "tail_ok (stored (store lg)) lg'"
    using log_init_run [OF assms] by metis
  with that [of lg'] show ?thesis by (simp add: with_log_def bindS_def tail_known_def)
qed

lemma log_read_run:
  assumes "usable (store lg)" and "tail_known (stored (store lg)) lg"
  obtains lg' where "log_read ops lg = (Inr (stored (store lg)), lg')" "usable (store lg')"
    "stored (store lg') = stored (store lg)" "same_config lg lg'" "tail_known (stored (store lg)) lg'"
proof -
  obtain lg1 where 1: "ensure_inited ops lg = (Inr (), lg1)" "usable (store lg1)"
    "stored (store lg1) = stored (store lg)" "same_config lg lg1" "shared lg1 \<or> tail_ok (stored (store lg)) lg1"
    using ensure_inited_run [OF assms] .
  from load_law [OF 1(2)] obtain s where
    "b_load ops (store lg1) = (Inr (stored (store lg)), s)" "usable s" "stored s = stored (store lg)" using 1(3) by auto
  with 1 that [of "lg1\<lparr>store := s\<rparr>"] show ?thesis
    by (simp add: log_read_def on_store_def tail_known_def shared_def tail_ok_def)
qed

lemma refresh_tail_run:
  assumes "usable (store lg)" and "shared lg \<or> tail_ok (stored (store lg)) lg"
  obtains lg' where "refresh_tail ops lg = (Inr (), lg')" "usable (store lg')" "stored (store lg') = stored (store lg)"
    "reads_only ops \<longrightarrow> store lg' = store lg" "same_config lg lg'"
    "log_inited lg' = log_inited lg" "tail_ok (stored (store lg)) lg'"
proof (cases "shared lg")
  case True
  from load_last_law [OF assms(1)] obtain s where
    s: "b_load_last ops (store lg) = (Inr (last_record (stored (store lg))), s)" "usable s" "stored s = stored (store lg)" by blast
  then have "reads_only ops \<longrightarrow> s = store lg" by (auto simp: reads_only_def) (metis snd_conv)
  with True s that [of "lg\<lparr>store := s, log_last := last_record (stored (store lg))\<rparr>"]
  show ?thesis by (simp add: refresh_tail_def on_store_def modify_def tail_ok_def tail_is_def)
next
  case False
  with assms that [of lg] show ?thesis by (simp add: refresh_tail_def)
qed

text \<open>Up to the point where a record is built.\<close>

lemma prepared:
  assumes "usable (store lg)" and "tail_known (stored (store lg)) lg"
  obtains lg' where "bindS (ensure_inited ops) (\<lambda>_. bindS (refresh_tail ops) (\<lambda>_. f)) lg = f lg'"
    "usable (store lg')" "stored (store lg') = stored (store lg)" "same_config lg lg'" "log_inited lg'"
    "tail_ok (stored (store lg)) lg'" "reads_only ops \<longrightarrow> store lg' = store lg"
proof -
  obtain lg1 where 1: "ensure_inited ops lg = (Inr (), lg1)" "usable (store lg1)"
    "stored (store lg1) = stored (store lg)" "same_config lg lg1" "log_inited lg1"
    "shared lg1 \<or> tail_ok (stored (store lg)) lg1" "reads_only ops \<longrightarrow> store lg1 = store lg"
    using ensure_inited_run [OF assms] .
  from 1(3,6) have "shared lg1 \<or> tail_ok (stored (store lg1)) lg1" by simp
  with refresh_tail_run [OF 1(2)] obtain lg2 where 2: "refresh_tail ops lg1 = (Inr (), lg2)"
    "usable (store lg2)" "stored (store lg2) = stored (store lg1)" "reads_only ops \<longrightarrow> store lg2 = store lg1" "same_config lg1 lg2" "log_inited lg2 = log_inited lg1" "tail_ok (stored (store lg1)) lg2" by metis
  have "same_config lg lg2" using 1(4) 2(5) by (rule same_config_trans)
  with that [of lg2] 1 2 show ?thesis by simp
qed

text \<open>Appending to what is stored.\<close>

lemma valid_snoc:
  assumes "valid_chain lib sk ring sgs rs" and "tail_is rs prev" and "writer_ok lib sk ring sgs lg"
    and "seal_record lib lg (build_record lg ac an sub meta ts prev) = Inr r"
    and "wf_value False (PyDict meta)" and "storable rs r"
  shows "valid_chain lib sk ring sgs (rs @ [norm r])" "same_record r (norm r)" "wf_record (norm r)"
proof -
  have wf: "wf_record r" using assms(4,5) seal_record_fields(6) by (fastforce simp: wf_record_def)
  with norm_same [OF assms(6)] show same: "same_record r (norm r)" "wf_record (norm r)" by simp_all
  have "valid_record lib sk ring sgs (length rs) (if rs = [] then GENESIS_HASH else hash (last rs)) r"
    using seal_valid [OF assms(3,4)] tail_position [OF assms(2,1)] by auto
  with valid_record_same [OF same(1) wf same(2)]
  have "valid_record lib sk ring sgs (length rs) (if rs = [] then GENESIS_HASH else hash (last rs)) (norm r)"
    by blast
  with assms(1) show "valid_chain lib sk ring sgs (rs @ [norm r])" by (simp add: valid_from_append)
qed

lemma tail_is_snoc: "same_record r (norm r) \<Longrightarrow> tail_is (rs @ [norm r]) (Some r)"
  by (simp add: tail_is_def last_record_def same_record_def same_content_def)

lemma append_run:
  assumes "usable (store lg)" and "tail_known (stored (store lg)) lg"
  obtains lg1 where "usable (store lg1)" "stored (store lg1) = stored (store lg)" "same_config lg lg1"
    "log_inited lg1" "tail_ok (stored (store lg)) lg1" "reads_only ops \<longrightarrow> store lg1 = store lg"
    "log_append lib ops now ac an sub meta ts lg =
       (case seal_record lib lg (build_record lg ac an sub (or_empty meta) (or_now now ts)
               (last_record (stored (store lg)))) of
          Inl e \<Rightarrow> (Inl e, lg1)
        | Inr r \<Rightarrow> (case b_append ops r (store lg1) of
                      (Inl e, s) \<Rightarrow> (Inl e, lg1\<lparr>store := s\<rparr>)
                    | (Inr _, s) \<Rightarrow> (Inr r, lg1\<lparr>store := s, log_last := Some r\<rparr>)))"
proof -
  define finish where "finish = (\<lambda>lg. bindS (liftS (seal_record lib lg
      (build_record lg ac an sub (or_empty meta) (or_now now ts) (log_last lg)))) (\<lambda>sealed.
    bindS (on_store (b_append ops sealed)) (\<lambda>_.
    bindS (modify (\<lambda>lg. lg\<lparr>log_last := Some sealed\<rparr>)) (\<lambda>_. returnS sealed))) lg)"
  obtain lg1 where 1: "log_append lib ops now ac an sub meta ts lg = finish lg1"
    "usable (store lg1)" "stored (store lg1) = stored (store lg)" "same_config lg lg1" "log_inited lg1"
    "tail_ok (stored (store lg)) lg1" "reads_only ops \<longrightarrow> store lg1 = store lg"
    using prepared [OF assms, of finish] unfolding log_append_def finish_def by blast
  note build = same_config_build [OF 1(4)] tail_is_build [OF 1(6) [unfolded tail_ok_def]]
  have "finish lg1 =
       (case seal_record lib lg (build_record lg ac an sub (or_empty meta) (or_now now ts)
               (last_record (stored (store lg)))) of
          Inl e \<Rightarrow> (Inl e, lg1)
        | Inr r \<Rightarrow> (case b_append ops r (store lg1) of
                      (Inl e, s) \<Rightarrow> (Inl e, lg1\<lparr>store := s\<rparr>)
                    | (Inr _, s) \<Rightarrow> (Inr r, lg1\<lparr>store := s, log_last := Some r\<rparr>)))"
    by (simp add: finish_def bindS_def liftS_def on_store_def modify_def returnS_def build
        same_config_seal [OF 1(4)] split: sum.split prod.split)
  with that [of lg1] 1 show ?thesis by simp
qed

lemma append_step:
  assumes "usable (store lg)" and "tail_known (stored (store lg)) lg"
    and "valid_chain lib sk ring sgs (stored (store lg))" and w: "writer_ok lib sk ring sgs lg"
    and wf: "wf_value False (PyDict (or_empty meta))"
    and fits: "\<forall>r. seal_record lib lg (build_record lg ac an sub (or_empty meta) (or_now now ts)
        (last_record (stored (store lg)))) = Inr r \<longrightarrow> storable (stored (store lg)) r"
  obtains (refused) e lg' where "log_append lib ops now ac an sub meta ts lg = (Inl e, lg')"
      "seal_record lib lg (build_record lg ac an sub (or_empty meta) (or_now now ts)
        (last_record (stored (store lg)))) = Inl e" "usable (store lg')"
      "stored (store lg') = stored (store lg)" "same_config lg lg'" "log_inited lg'"
      "tail_ok (stored (store lg')) lg'" "reads_only ops \<longrightarrow> store lg' = store lg"
    | (appended) r lg' where "log_append lib ops now ac an sub meta ts lg = (Inr r, lg')"
      "seal_record lib lg (build_record lg ac an sub (or_empty meta) (or_now now ts)
        (last_record (stored (store lg)))) = Inr r" "usable (store lg')"
      "stored (store lg') = stored (store lg) @ [norm r]" "same_config lg lg'" "log_inited lg'"
      "tail_ok (stored (store lg')) lg'" "valid_chain lib sk ring sgs (stored (store lg'))"
      "same_record r (norm r)" "wf_record (norm r)"
      "reads_only ops \<longrightarrow> b_append ops r (store lg) = (Inr (), store lg')"
proof -
  let ?rs = "stored (store lg)"
  let ?seal = "seal_record lib lg (build_record lg ac an sub (or_empty meta) (or_now now ts) (last_record ?rs))"
  obtain lg1 where 1: "usable (store lg1)" "stored (store lg1) = ?rs" "same_config lg lg1"
    "log_inited lg1" "tail_ok ?rs lg1" "reads_only ops \<longrightarrow> store lg1 = store lg"
    "log_append lib ops now ac an sub meta ts lg =
       (case ?seal of
          Inl e \<Rightarrow> (Inl e, lg1)
        | Inr r \<Rightarrow> (case b_append ops r (store lg1) of
                      (Inl e, s) \<Rightarrow> (Inl e, lg1\<lparr>store := s\<rparr>)
                    | (Inr _, s) \<Rightarrow> (Inr r, lg1\<lparr>store := s, log_last := Some r\<rparr>)))"
    using append_run [OF assms(1,2)] .
  show ?thesis
  proof (cases ?seal)
    case (Inl e)
    with refused [of e lg1] 1 show ?thesis by simp
  next
    case (Inr r)
    have st: "storable ?rs r" using fits Inr by blast
    have "tail_is ?rs (last_record ?rs)" by (simp add: tail_is_def)
    note v = valid_snoc [OF assms(3) this w Inr wf st]
    from append_law [OF 1(1), of r] st 1(2) obtain s where
      s: "b_append ops r (store lg1) = (Inr (), s)" "usable s" "stored s = ?rs @ [norm r]" by auto
    have "reads_only ops \<longrightarrow> b_append ops r (store lg) = (Inr (), s)" using s(1) 1(6) by auto
    moreover have "tail_is (?rs @ [norm r]) (Some r)" using v(2) by (rule tail_is_snoc)
    ultimately show ?thesis using appended [of r "lg1\<lparr>store := s, log_last := Some r\<rparr>"] Inr s v 1 by (simp add: tail_ok_def)
  qed
qed

lemma append_extends:
  assumes "usable (store lg)" and "tail_known (stored (store lg)) lg"
    and "valid_chain lib sk ring sgs (stored (store lg))" and w: "writer_ok lib sk ring sgs lg"
    and e: "entry_ok ac an sub (or_empty meta) (or_now now ts)"
    and fits: "\<And>r. seal_record lib lg (build_record lg ac an sub (or_empty meta) (or_now now ts)
        (last_record (stored (store lg)))) = Inr r \<Longrightarrow> storable (stored (store lg)) r"
  obtains r lg' where "log_append lib ops now ac an sub meta ts lg = (Inr r, lg')" "usable (store lg')"
    "stored (store lg') = stored (store lg) @ [norm r]" "same_config lg lg'" "log_inited lg'"
    "tail_ok (stored (store lg')) lg'" "valid_chain lib sk ring sgs (stored (store lg'))"
    "same_record r (norm r)" "wf_record (norm r)"
    "actor r = ac" "action r = an" "subject r = sub" "metadata r = or_empty meta" "timestamp r = or_now now ts"
    "key_id r = (if log_seal_key lg = None then [] else log_key_id lg)"
proof -
  have wf: "wf_value False (PyDict (or_empty meta))" using e by (simp add: entry_ok_def)
  have "\<forall>r. seal_record lib lg (build_record lg ac an sub (or_empty meta) (or_now now ts)
      (last_record (stored (store lg)))) = Inr r \<longrightarrow> storable (stored (store lg)) r" using fits by blast
  from assms(1-3) w wf this show ?thesis
  proof (cases rule: append_step)
    case (refused e lg')
    have "is_ascii (case last_record (stored (store lg)) of None \<Rightarrow> GENESIS_HASH | Some p \<Rightarrow> hash p)"
      using valid_tail_ascii [OF assms(3)] by (auto simp: last_record_def split: if_splits)
    from seal_defined [OF w e this] refused(2) show ?thesis by auto
  next
    case (appended r lg')
    with that [of r lg'] seal_record_fields(2-6,8) [OF appended(2)] show ?thesis by simp
  qed
qed

lemma seal_entries_valid:
  assumes "writer_ok lib sk ring sgs lg"
    and "list_all (\<lambda>(ac, an, sub, meta, now). wf_value False (PyDict (or_empty meta))) es"
    and "seal_entries lib lg prev es = Inr rs" and "valid_chain lib sk ring sgs old" and "tail_is old prev"
    and "\<forall>i < length rs. storable (old @ map norm (take i rs)) (rs ! i)"
  shows "valid_chain lib sk ring sgs (old @ map norm rs) \<and>
    tail_is (old @ map norm rs) (if rs = [] then prev else Some (last rs))"
  using assms(2-6)
proof (induction es arbitrary: prev rs old)
  case (Cons e es)
  obtain ac an sub meta now where e: "e = (ac, an, sub, meta, now)" by (cases e)
  with Cons.prems(2) obtain r ts where
    r: "seal_record lib lg (build_record lg ac an sub (or_empty meta) now prev) = Inr r"
    and ts: "seal_entries lib lg (Some r) es = Inr ts" and rs: "rs = r # ts"
    by (auto simp: result_simps)
  have "wf_value False (PyDict (or_empty meta))" "storable old r"
    using Cons.prems(1,5) by (auto simp: e rs)
  note v = valid_snoc [OF Cons.prems(3,4) assms(1) r this]
  have "\<forall>i < length ts. storable ((old @ [norm r]) @ map norm (take i ts)) (ts ! i)"
    using Cons.prems(5) by (auto simp: rs)
  with Cons.IH [OF _ ts v(1) tail_is_snoc [OF v(2)]] Cons.prems(1)
  show ?case by (auto simp: rs)
qed simp

lemma append_many_run:
  assumes "usable (store lg)" and "tail_known (stored (store lg)) lg"
  obtains lg1 where "usable (store lg1)" "stored (store lg1) = stored (store lg)" "same_config lg lg1"
    "log_inited lg1" "tail_ok (stored (store lg)) lg1"
    "log_append_many lib ops es lg =
       (case seal_entries lib lg (last_record (stored (store lg))) es of
          Inl e \<Rightarrow> (Inl e, lg1)
        | Inr rs \<Rightarrow>
            if rs = [] then (Inr [], lg1)
            else (case b_append_many ops rs (store lg1) of
                    (Inl e, s) \<Rightarrow> (Inl e, lg1\<lparr>store := s\<rparr>)
                  | (Inr _, s) \<Rightarrow> (Inr rs, lg1\<lparr>store := s, log_last := Some (last rs)\<rparr>)))"
proof -
  define finish where "finish = (\<lambda>lg. bindS (liftS (seal_entries lib lg (log_last lg) es)) (\<lambda>sealed.
       if sealed = [] then returnS []
       else bindS (on_store (b_append_many ops sealed)) (\<lambda>_.
            bindS (modify (\<lambda>lg. lg\<lparr>log_last := Some (last sealed)\<rparr>)) (\<lambda>_. returnS sealed))) lg)"
  obtain lg1 where 1: "log_append_many lib ops es lg = finish lg1"
    "usable (store lg1)" "stored (store lg1) = stored (store lg)" "same_config lg lg1" "log_inited lg1"
    "tail_ok (stored (store lg)) lg1"
    using prepared [OF assms, of finish] unfolding log_append_many_def finish_def by blast
  have "seal_entries lib lg1 p es = seal_entries lib lg p es" for p
    by (induction es arbitrary: p) (auto simp: same_config_build [OF 1(4)] same_config_seal [OF 1(4)])
  with tail_is_entries [OF 1(6) [unfolded tail_ok_def]]
  have "seal_entries lib lg1 (log_last lg1) es = seal_entries lib lg (last_record (stored (store lg))) es" by metis
  then have "finish lg1 =
       (case seal_entries lib lg (last_record (stored (store lg))) es of
          Inl e \<Rightarrow> (Inl e, lg1)
        | Inr rs \<Rightarrow>
            if rs = [] then (Inr [], lg1)
            else (case b_append_many ops rs (store lg1) of
                    (Inl e, s) \<Rightarrow> (Inl e, lg1\<lparr>store := s\<rparr>)
                  | (Inr _, s) \<Rightarrow> (Inr rs, lg1\<lparr>store := s, log_last := Some (last rs)\<rparr>)))"
    by (simp add: finish_def bindS_def liftS_def on_store_def modify_def returnS_def split: sum.split prod.split)
  with that [of lg1] 1 show ?thesis by simp
qed

lemma append_many_step:
  assumes "usable (store lg)" and "tail_known (stored (store lg)) lg"
    and "valid_chain lib sk ring sgs (stored (store lg))" and w: "writer_ok lib sk ring sgs lg"
    and wf: "list_all (\<lambda>(ac, an, sub, meta, now). wf_value False (PyDict (or_empty meta))) es"
    and fits: "\<forall>rs. seal_entries lib lg (last_record (stored (store lg))) es = Inr rs \<longrightarrow>
      (\<forall>i < length rs. storable (stored (store lg) @ map norm (take i rs)) (rs ! i))"
  obtains (refused) e lg' where "log_append_many lib ops es lg = (Inl e, lg')"
      "seal_entries lib lg (last_record (stored (store lg))) es = Inl e" "usable (store lg')"
      "stored (store lg') = stored (store lg)" "same_config lg lg'" "log_inited lg'"
      "tail_ok (stored (store lg')) lg'"
    | (appended) rs lg' where "log_append_many lib ops es lg = (Inr rs, lg')"
      "seal_entries lib lg (last_record (stored (store lg))) es = Inr rs" "usable (store lg')"
      "stored (store lg') = stored (store lg) @ map norm rs" "same_config lg lg'" "log_inited lg'"
      "tail_ok (stored (store lg')) lg'" "valid_chain lib sk ring sgs (stored (store lg'))"
proof -
  let ?rs = "stored (store lg)"
  let ?seal = "seal_entries lib lg (last_record ?rs) es"
  obtain lg1 where 1: "usable (store lg1)" "stored (store lg1) = ?rs" "same_config lg lg1"
    "log_inited lg1" "tail_ok ?rs lg1"
    "log_append_many lib ops es lg =
       (case ?seal of
          Inl e \<Rightarrow> (Inl e, lg1)
        | Inr rs \<Rightarrow>
            if rs = [] then (Inr [], lg1)
            else (case b_append_many ops rs (store lg1) of
                    (Inl e, s) \<Rightarrow> (Inl e, lg1\<lparr>store := s\<rparr>)
                  | (Inr _, s) \<Rightarrow> (Inr rs, lg1\<lparr>store := s, log_last := Some (last rs)\<rparr>)))"
    using append_many_run [OF assms(1,2)] .
  show ?thesis
  proof (cases ?seal)
    case (Inl e)
    with refused [of e lg1] 1 show ?thesis by simp
  next
    case (Inr rs)
    with fits have st: "\<forall>i < length rs. storable (?rs @ map norm (take i rs)) (rs ! i)" by blast
    have "tail_is ?rs (last_record ?rs)" by (simp add: tail_is_def)
    note v = seal_entries_valid [OF w wf Inr assms(3) this st]
    show ?thesis
    proof (cases "rs = []")
      case True
      with appended [of rs lg1] Inr 1 assms(3) show ?thesis by simp
    next
      case False
      from append_many_law [OF 1(1), of rs] st 1(2) obtain s where
        s: "b_append_many ops rs (store lg1) = (Inr (), s)" "usable s" "stored s = ?rs @ map norm rs" by auto
      with appended [of rs "lg1\<lparr>store := s, log_last := Some (last rs)\<rparr>"] Inr False v 1 show ?thesis
        by (simp add: tail_ok_def)
    qed
  qed
qed

end

end
