(* ===== verification/Lines.thy ===== *)
theory Lines
  imports Records
begin

text \<open>
  Text files as the JSONL backend writes and reads them: the UTF-8 decoding of a file, reading
  in text mode, \<open>str.splitlines\<close>, and which lines come back as they were written.

  The lemmas: a file of lines that are \<open>line_safe\<close> is split into these lines (\<open>file_of_lines\<close>), and
  a value whose strings are \<open>string_safe\<close> is printed as such a line (\<open>dump_line_safe\<close>).
\<close>

section \<open>UTF-8\<close>

text \<open>\<open>bytes.decode("utf-8")\<close>: the characters, each with its bytes, or nothing when it raises.
  The width of the character in front of a text is 0 where there is none: overlong forms, surrogates
  and values beyond U+10FFFF are refused.\<close>

definition cont :: "char \<Rightarrow> bool" where
  "cont c = (128 \<le> (of_char c :: nat) \<and> (of_char c :: nat) < 192)"

definition conts :: "nat \<Rightarrow> string \<Rightarrow> bool" where
  "conts k s = (k \<le> length s \<and> list_all cont (take k s))"

definition utf8_width :: "char \<Rightarrow> string \<Rightarrow> nat" where
  "utf8_width c s =
     (let n = of_char c :: nat; m = of_char (hd s) :: nat in
      if n < 128 then 1
      else if 194 \<le> n \<and> n < 224 \<and> conts 1 s then 2
      else if 224 \<le> n \<and> n < 240 \<and> conts 2 s \<and> (n = 224 \<longrightarrow> 160 \<le> m) \<and> (n = 237 \<longrightarrow> m < 160) then 3
      else if 240 \<le> n \<and> n < 245 \<and> conts 3 s \<and> (n = 240 \<longrightarrow> 144 \<le> m) \<and> (n = 244 \<longrightarrow> m < 144) then 4
      else 0)"

function utf8_chars :: "string \<Rightarrow> string list option" where
  "utf8_chars [] = Some []"
| "utf8_chars (c # s) =
     (let k = utf8_width c s in
      if k = 0 then None
      else map_option ((#) (c # take (k - 1) s)) (utf8_chars (drop (k - 1) s)))"
  by pat_completeness auto
termination
  by (relation "measure length") auto

lemma conts_append: "conts k s \<Longrightarrow> conts k (s @ t)"
  by (auto simp: conts_def)

lemma conts_head: "conts k s \<Longrightarrow> 0 < k \<Longrightarrow> s \<noteq> []"
  by (auto simp: conts_def)

lemma utf8_width_conts: "utf8_width c s \<noteq> 0 \<Longrightarrow> conts (utf8_width c s - 1) s"
  by (auto simp: utf8_width_def Let_def conts_def)

lemma utf8_width_ascii: "utf8_width c s = 1 \<longleftrightarrow> of_char c < (128 :: nat)"
  by (auto simp: utf8_width_def Let_def)

lemma utf8_width_cont: "utf8_width c s \<noteq> 0 \<Longrightarrow> \<not> cont c"
  by (auto simp: utf8_width_def Let_def cont_def split: if_splits)

lemma utf8_width_append:
  assumes "utf8_width c s \<noteq> 0"
  shows "utf8_width c (s @ t) = utf8_width c s"
proof (cases "s = []")
  case True
  with assms have "of_char c < (128 :: nat)" by (auto simp: utf8_width_def Let_def conts_def split: if_splits)
  then show ?thesis by (simp add: utf8_width_def)
next
  case False
  with assms show ?thesis by (auto simp: utf8_width_def Let_def conts_append split: if_splits)
qed

text \<open>The first character of a text that decodes.\<close>

lemma utf8_cases:
  assumes "utf8_chars s = Some cs"
  obtains "s = []" "cs = []"
  | c w t ds where "s = c # w @ t" "cs = (c # w) # ds" "utf8_chars t = Some ds"
      "utf8_width c (w @ t) = Suc (length w)" "list_all cont w"
proof (cases s)
  case Nil
  with assms that(1) show ?thesis by simp
next
  case (Cons c r)
  let ?k = "utf8_width c r"
  from assms Cons obtain ds where k: "?k \<noteq> 0" and ds: "utf8_chars (drop (?k - 1) r) = Some ds"
    and cs: "cs = (c # take (?k - 1) r) # ds" by (auto simp: Let_def split: if_splits)
  have "conts (?k - 1) r" by (rule utf8_width_conts [OF k])
  then have "length (take (?k - 1) r) = ?k - 1" "list_all cont (take (?k - 1) r)" by (simp_all add: conts_def)
  with that(2) [of c "take (?k - 1) r" "drop (?k - 1) r" ds] Cons cs ds k show ?thesis by simp
qed

lemma utf8_chars_step:
  "utf8_width c (w @ t) = Suc (length w) \<Longrightarrow> utf8_chars (c # w @ t) = map_option ((#) (c # w)) (utf8_chars t)"
  by (simp add: Let_def)

lemmas utf8_chars_Cons [simp del] = utf8_chars.simps(2)

lemma utf8_induct [consumes 1, case_names Nil Char]:
  assumes "utf8_chars s = Some cs" and "P [] []"
    and "\<And>c w t ds. utf8_chars t = Some ds \<Longrightarrow> utf8_width c (w @ t) = Suc (length w) \<Longrightarrow> list_all cont w \<Longrightarrow>
      P t ds \<Longrightarrow> P (c # w @ t) ((c # w) # ds)"
  shows "P s cs"
  using assms(1)
proof (induction cs arbitrary: s)
  case Nil
  then show ?case using assms(2) by (cases rule: utf8_cases) auto
next
  case (Cons d ds)
  from Cons.prems show ?case
  proof (cases rule: utf8_cases)
    case (2 c w t es)
    with Cons.IH [of t] assms(3) show ?thesis by auto
  qed simp
qed

lemma utf8_width_ext: "utf8_width c (w @ t) = Suc (length w) \<Longrightarrow> utf8_width c (w @ t @ b) = Suc (length w)"
  using utf8_width_append [of c "w @ t" b] by simp

lemma utf8_chars_append:
  "utf8_chars a = Some xs \<Longrightarrow> utf8_chars (a @ b) = map_option (\<lambda>ys. xs @ ys) (utf8_chars b)"
proof (induction rule: utf8_induct)
  case (Char c w t ds)
  then show ?case using utf8_chars_step [OF utf8_width_ext [OF Char(2), of b]]
    by (simp add: option.map_comp comp_def)
qed (simp add: option.map_ident)

lemma utf8_chars_ascii: "is_ascii s \<Longrightarrow> utf8_chars s = Some (map (\<lambda>c. [c]) s)"
  by (induction s) (use utf8_chars_step [where w = "[]"] in \<open>auto simp: utf8_width_def\<close>)

lemma concat_utf8_chars: "utf8_chars s = Some cs \<Longrightarrow> concat cs = s"
  by (induction rule: utf8_induct) simp_all

lemma has_surrogate_skip: "of_char c \<noteq> (237 :: nat) \<Longrightarrow> has_surrogate (c # s) = has_surrogate s"
  by (cases s) simp_all

lemma utf8_no_surrogate: "utf8_chars s = Some cs \<Longrightarrow> \<not> has_surrogate s"
proof (induction rule: utf8_induct)
  case (Char c w t ds)
  have "\<not> has_surrogate (v @ t)" if "list_all cont v" for v
    using that Char(4) by (induction v) (auto simp: has_surrogate_skip cont_def)
  from this [OF Char(3)] have rest: "\<not> has_surrogate (w @ t)" .
  show ?case
  proof (cases "of_char c = (237 :: nat)")
    case True
    with Char(2) have "length w = 2" "of_char (hd (w @ t)) < (160 :: nat)"
      by (auto simp: utf8_width_def Let_def split: if_splits)
    with rest True show ?thesis by (cases w) auto
  next
    case False
    with rest show ?thesis by (simp add: has_surrogate_skip)
  qed
qed simp

section \<open>Lines\<close>

text \<open>The characters \<open>str.splitlines\<close> breaks lines at: line feed, vertical tab, form feed, carriage
  return, the separators 28 to 30, U+0085, U+2028 and U+2029.\<close>

definition line_breaks :: "string list" where
  "line_breaks =
     [[CHR 0x0A], [CHR 0x0B], [CHR 0x0C], [CHR 0x0D], [CHR 0x1C], [CHR 0x1D], [CHR 0x1E],
      [CHR 0xC2, CHR 0x85], [CHR 0xE2, CHR 0x80, CHR 0xA8], [CHR 0xE2, CHR 0x80, CHR 0xA9]]"

definition LF :: char where "LF = CHR 0x0A"

definition CR :: char where "CR = CHR 0x0D"

text \<open>Reading in text mode turns \<open>\r\n\<close> and \<open>\r\<close> into \<open>\n\<close>.\<close>

fun universal_newlines :: "string list \<Rightarrow> string list" where
  "universal_newlines [] = []"
| "universal_newlines [c] = (if c = [CR] then [[LF]] else [c])"
| "universal_newlines (c # d # cs) =
     (if c = [CR] then [LF] # (if d = [LF] then universal_newlines cs else universal_newlines (d # cs))
      else c # universal_newlines (d # cs))"

text \<open>\<open>str.splitlines\<close> of a text without carriage returns; the second argument is the line so far.\<close>

fun split_lines :: "string list \<Rightarrow> string \<Rightarrow> string list" where
  "split_lines [] cur = (if cur = [] then [] else [cur])"
| "split_lines (c # cs) cur =
     (if c \<in> set line_breaks then cur # split_lines cs [] else split_lines cs (cur @ c))"

text \<open>A line that can be written and read: it decodes, and nothing in it breaks it.\<close>

definition line_safe :: "string \<Rightarrow> bool" where
  "line_safe s = (case utf8_chars s of None \<Rightarrow> False | Some cs \<Rightarrow> \<forall>c \<in> set cs. c \<notin> set line_breaks)"

lemma line_safeI: "utf8_chars s = Some cs \<Longrightarrow> \<forall>c \<in> set cs. c \<notin> set line_breaks \<Longrightarrow> line_safe s"
  by (simp add: line_safe_def)

lemma line_safeE:
  assumes "line_safe s" obtains cs where "utf8_chars s = Some cs" "\<forall>c \<in> set cs. c \<notin> set line_breaks"
  using assms by (auto simp: line_safe_def split: option.splits)

lemma line_safe_append:
  assumes "line_safe a" and "line_safe b"
  shows "line_safe (a @ b)"
proof -
  obtain xs where xs: "utf8_chars a = Some xs" "\<forall>c \<in> set xs. c \<notin> set line_breaks"
    by (rule line_safeE [OF assms(1)])
  obtain ys where ys: "utf8_chars b = Some ys" "\<forall>c \<in> set ys. c \<notin> set line_breaks"
    by (rule line_safeE [OF assms(2)])
  have "utf8_chars (a @ b) = Some (xs @ ys)" using utf8_chars_append [OF xs(1), of b] ys(1) by simp
  then show ?thesis by (rule line_safeI) (use xs(2) ys(2) in auto)
qed

lemma line_safe_Nil [simp]: "line_safe []"
  by (simp add: line_safe_def)

definition plain_char :: "char \<Rightarrow> bool" where
  "plain_char c = (32 \<le> (of_char c :: nat) \<and> (of_char c :: nat) < 128)"

lemma plain_char_safe: "plain_char c \<Longrightarrow> [c] \<notin> set line_breaks"
  by (auto simp: plain_char_def line_breaks_def)

lemma line_safe_plain: "list_all plain_char s \<Longrightarrow> line_safe s"
  by (rule line_safeI [of _ "map (\<lambda>c. [c]) s"], rule utf8_chars_ascii)
    (auto simp: is_ascii_def list_all_iff plain_char_safe plain_char_def)

lemma LF_break: "[LF] \<in> set line_breaks" "[CR] \<in> set line_breaks"
  by (simp_all add: line_breaks_def LF_def CR_def)

text \<open>A file in which every line is closed.\<close>

definition file_of :: "string list \<Rightarrow> string" where
  "file_of ls = concat (map (\<lambda>l. l @ [LF]) ls)"

lemma file_of_append: "file_of (ls @ ms) = file_of ls @ file_of ms"
  by (simp add: file_of_def)

lemma universal_id: "[CR] \<notin> set cs \<Longrightarrow> universal_newlines cs = cs"
  by (induction cs rule: universal_newlines.induct) auto

lemma split_lines_line:
  "(\<forall>c \<in> set cs. c \<notin> set line_breaks) \<Longrightarrow> split_lines (cs @ [LF] # rest) cur = (cur @ concat cs) # split_lines rest []"
  by (induction cs arbitrary: cur) (simp_all add: LF_break)

lemma utf8_chars_LF: "utf8_chars (LF # s) = map_option ((#) [LF]) (utf8_chars s)"
  using utf8_chars_step [of LF "[]" s] by (simp add: LF_def utf8_width_def)

lemma file_of_lines:
  assumes "list_all line_safe ls"
  shows "\<exists>cs. utf8_chars (file_of ls) = Some cs \<and> split_lines (universal_newlines cs) [] = ls"
proof -
  have "\<exists>cs. utf8_chars (file_of ls) = Some cs \<and> [CR] \<notin> set cs \<and> split_lines cs [] = ls"
    using assms
  proof (induction ls)
    case Nil
    then show ?case by (simp add: file_of_def)
  next
    case (Cons l ls)
    then obtain cs where cs: "utf8_chars (file_of ls) = Some cs" "[CR] \<notin> set cs" "split_lines cs [] = ls" by auto
    from Cons.prems obtain ds where ds: "utf8_chars l = Some ds" "\<forall>c \<in> set ds. c \<notin> set line_breaks"
      by (auto elim: line_safeE)
    have "utf8_chars (file_of (l # ls)) = Some (ds @ [LF] # cs)"
      using utf8_chars_append [OF ds(1), of "LF # file_of ls"] cs(1) by (simp add: file_of_def utf8_chars_LF)
    moreover have "split_lines (ds @ [LF] # cs) [] = l # ls"
      using split_lines_line [OF ds(2)] concat_utf8_chars [OF ds(1)] cs(3) by simp
    moreover have "[CR] \<noteq> [LF]" "[CR] \<notin> set ds" using ds(2) LF_break by (auto simp: LF_def CR_def)
    then have "[CR] \<notin> set (ds @ [LF] # cs)" using cs(2) by simp
    ultimately show ?case by blast
  qed
  then show ?thesis using universal_id by metis
qed

section \<open>Values printed on a line\<close>

text \<open>Escaping leaves no control character, so a string breaks its line only by one of the three
  breaks beyond ASCII.\<close>

definition string_safe :: "string \<Rightarrow> bool" where
  "string_safe s =
     (case utf8_chars s of None \<Rightarrow> False | Some cs \<Rightarrow> \<forall>c \<in> set cs. length c = 1 \<or> c \<notin> set line_breaks)"

lemma escape_append: "escape False (a @ b) = escape False a @ escape False b"
  by (induction a) auto

lemma hex_digit_plain: "n < 16 \<Longrightarrow> plain_char (hex_digit n)"
  by (drule less_16_cases) (auto simp: hex_digit_def plain_char_def)

lemma escape_char_plain: "of_char c < (128 :: nat) \<Longrightarrow> list_all plain_char (escape_char False c)"
  by (auto simp: escape_char_def Let_def quote_def backslash_def u_escape_def hex_digit_plain)
    (auto simp: plain_char_def)

lemma escape_conts: "list_all cont w \<Longrightarrow> escape False w = w"
  by (induction w) (auto simp: cont_def escape_char_wide)

lemma escape_safe:
  assumes "string_safe s"
  shows "line_safe (escape False s)"
proof -
  from assms obtain cs where "utf8_chars s = Some cs" "\<forall>c \<in> set cs. length c = 1 \<or> c \<notin> set line_breaks"
    by (auto simp: string_safe_def split: option.splits)
  then show ?thesis
  proof (induction rule: utf8_induct)
    case (Char c w t ds)
    then have t: "line_safe (escape False t)" by simp
    show ?case
    proof (cases "of_char c < (128 :: nat)")
      case True
      with Char(2) have "w = []" by (auto simp: utf8_width_def)
      with t line_safe_plain [OF escape_char_plain [OF True]] show ?thesis by (simp add: line_safe_append)
    next
      case False
      then have "w \<noteq> []" using Char(2) utf8_width_ascii [of c "w @ t"] by auto
      then have w: "c # w \<notin> set line_breaks" using Char.prems by auto
      have "utf8_width c (w @ []) = Suc (length w)"
        using Char(2) \<open>w \<noteq> []\<close> by (auto simp: utf8_width_def Let_def conts_def split: if_splits)
      from utf8_chars_step [OF this] w have "line_safe (c # w)"
        using line_safeI [of "c # w" "[c # w]"] by simp
      moreover have "escape False (c # w @ t) = (c # w) @ escape False t"
        using False Char(3) by (simp add: escape_char_wide escape_append escape_conts)
      ultimately show ?thesis using line_safe_append t by metis
    qed
  qed simp
qed

text \<open>Every string of the value, keys included, satisfies \<open>ps\<close>; floats are written in plain characters.\<close>

primrec texts_ok :: "(string \<Rightarrow> bool) \<Rightarrow> pyval \<Rightarrow> bool" where
  "texts_ok ps PyNone = True"
| "texts_ok ps (PyBool b) = True"
| "texts_ok ps (PyInt i) = True"
| "texts_ok ps (PyFloat t) = list_all plain_char t"
| "texts_ok ps (PyStr s) = ps s"
| "texts_ok ps (PyList xs) = list_all id (map (texts_ok ps) xs)"
| "texts_ok ps (PyDict d) = (list_all ps (map fst d) \<and> list_all snd (map (map_prod id (texts_ok ps)) d))"
| "texts_ok ps PyOpaque = True"

abbreviation strings_safe :: "pyval \<Rightarrow> bool" where
  "strings_safe \<equiv> texts_ok string_safe"

lemma texts_ok_list: "texts_ok ps (PyList xs) \<longleftrightarrow> (\<forall>x \<in> set xs. texts_ok ps x)"
  by (auto simp: list_all_iff)

lemma texts_ok_dict: "texts_ok ps (PyDict d) \<longleftrightarrow> (\<forall>kv \<in> set d. ps (fst kv) \<and> texts_ok ps (snd kv))"
  by (auto simp: list_all_iff)

declare texts_ok.simps(6,7) [simp del]

lemma dec_int_plain: "list_all plain_char (dec_int i)"
  using dec_int_chars [of i] by (auto simp: list_all_iff is_dec_char_def is_digit_def plain_char_def)

text \<open>A property of texts that concatenation keeps and plain characters have holds of a printed value, if it
  holds of its escaped strings.\<close>

definition text_closed :: "(string \<Rightarrow> bool) \<Rightarrow> bool" where
  "text_closed Q = (Q [] \<and> (\<forall>a b. Q a \<longrightarrow> Q b \<longrightarrow> Q (a @ b)) \<and> (\<forall>c. plain_char c \<longrightarrow> Q [c]))"

lemma closed_append: "text_closed Q \<Longrightarrow> Q a \<Longrightarrow> Q b \<Longrightarrow> Q (a @ b)"
  by (simp add: text_closed_def)

lemma closed_Cons:
  assumes "text_closed Q" and "plain_char c" and "Q s"
  shows "Q (c # s)"
proof -
  have "Q [c]" using assms(1,2) by (simp add: text_closed_def)
  from closed_append [OF assms(1) this assms(3)] show ?thesis by simp
qed

lemma closed_plain: "text_closed Q \<Longrightarrow> list_all plain_char s \<Longrightarrow> Q s"
  by (induction s) (auto simp: closed_Cons, simp add: text_closed_def)

lemma closed_join:
  assumes "text_closed Q" and "Q sep" and "\<forall>t \<in> set ts. Q t"
  shows "Q (join sep ts)"
  using assms(2,3)
  by (induction sep ts rule: join.induct)
    (simp_all add: closed_append [OF assms(1)] closed_plain [OF assms(1), of "[]", simplified])

text \<open>A style adds line breaks and separators, which must have the property too.\<close>

definition style_closed :: "(string \<Rightarrow> bool) \<Rightarrow> json_style \<Rightarrow> bool" where
  "style_closed Q st = ((\<forall>n. Q (newline st n)) \<and> Q (item_sep st) \<and> Q (key_sep st))"

lemma compact_closed: "text_closed Q \<Longrightarrow> style_closed Q compact"
  using closed_plain [of Q "[]"] closed_plain [of Q "'',''"] closed_plain [of Q "'':''"]
  by (simp add: style_closed_def newline_def compact_def plain_char_def)

lemma closed_enclose:
  assumes Q: "text_closed Q" and "style_closed Q st" and "\<forall>t \<in> set ts. Q t" and "plain_char l" and "plain_char r"
  shows "Q (enclose st n l r ts)"
proof -
  have nl: "Q (newline st k)" "Q (item_sep st)" for k using assms(2) by (simp_all add: style_closed_def)
  have "Q [r]" using closed_plain [OF Q, of "[r]"] assms(5) by simp
  moreover have "Q (join (item_sep st @ newline st (Suc n)) ts)"
    by (rule closed_join [OF Q closed_append [OF Q nl(2,1)] assms(3)])
  ultimately show ?thesis
    by (simp add: enclose_def nl closed_Cons [OF Q assms(4)] closed_append [OF Q])
qed

lemma closed_string:
  assumes "text_closed Q" and "Q (escape (ensure_ascii st) s)"
  shows "Q (dump_string st s)"
  using closed_plain [OF assms(1), of "[quote]"] assms(2)
  by (simp add: dump_string_def closed_Cons [OF assms(1)] closed_append [OF assms(1)] quote_def plain_char_def)

lemma dump_closed_style:
  assumes Q: "text_closed Q" and S: "style_closed Q st"
  shows "dump_value st v n = Some s \<Longrightarrow> texts_ok (\<lambda>t. Q (escape (ensure_ascii st) t)) v \<Longrightarrow> Q s"
proof (induction v arbitrary: n s)
  case (PyList xs)
  from PyList.prems(1) obtain ts where ts: "map (\<lambda>x. dump_value st x (Suc n)) xs = map Some ts"
    and s: "s = enclose st n CHR ''['' CHR '']'' ts" by (auto simp: dump_list those_Some)
  have "Q t" if "t \<in> set ts" for t
  proof -
    from that have "Some t \<in> set (map (\<lambda>x. dump_value st x (Suc n)) xs)" unfolding ts by simp
    then obtain x where x: "x \<in> set xs" "dump_value st x (Suc n) = Some t" by auto
    with PyList.IH [OF x] PyList.prems(2) show ?thesis by (simp add: texts_ok_list)
  qed
  then show ?case unfolding s by (rule closed_enclose [OF Q S, OF ballI]) (simp_all add: plain_char_def)
next
  case (PyDict d)
  from PyDict.prems(1) obtain ts where ts: "map (member_text st (Suc n)) (sort_key fst d) = map Some ts"
    and s: "s = enclose st n CHR ''{'' CHR ''}'' ts" by (auto simp: dump_dict those_Some)
  have "Q t" if "t \<in> set ts" for t
  proof -
    from that have "Some t \<in> set (map (member_text st (Suc n)) (sort_key fst d))" unfolding ts by simp
    then obtain k v where kv: "(k, v) \<in> set d" "member_text st (Suc n) (k, v) = Some t" by auto
    then obtain u where u: "dump_value st v (Suc n) = Some u" and t: "t = dump_string st k @ key_sep st @ u"
      by (auto simp: member_text_def)
    from kv(1) PyDict.prems(2) have "Q (escape (ensure_ascii st) k)" "texts_ok (\<lambda>t. Q (escape (ensure_ascii st) t)) v"
      by (auto simp: texts_ok_dict)
    with PyDict.IH [OF kv(1) _ u] closed_string [OF Q, of st k] S show ?thesis
      unfolding t by (simp add: closed_append [OF Q] style_closed_def)
  qed
  then show ?case unfolding s by (rule closed_enclose [OF Q S, OF ballI]) (simp_all add: plain_char_def)
next
  case (PyStr t)
  then show ?case by (auto simp: closed_string [OF Q])
next
  case (PyFloat t)
  then show ?case by (auto simp: closed_plain [OF Q])
next
  case (PyInt i)
  then show ?case by (auto simp: closed_plain [OF Q] dec_int_plain)
next
  case (PyBool b)
  then show ?case by (cases b) (auto simp: closed_plain [OF Q] plain_char_def)
next
  case PyNone
  then show ?case by (auto simp: closed_plain [OF Q] plain_char_def)
qed simp

lemma dump_closed:
  assumes "text_closed Q" and "dump_value compact v n = Some s" and "texts_ok (\<lambda>t. Q (escape False t)) v"
  shows "Q s"
  using dump_closed_style [OF assms(1) compact_closed [OF assms(1)] assms(2)] assms(3) by (simp add: compact_def)

lemma texts_ok_mono: "texts_ok ps v \<Longrightarrow> (\<And>s. ps s \<Longrightarrow> qs s) \<Longrightarrow> texts_ok qs v"
proof (induction v)
  case (PyDict d)
  then show ?case unfolding texts_ok_dict by (metis prod.collapse snds.intros)
qed (auto simp: texts_ok_list)

lemma closed_line_safe: "text_closed line_safe"
  by (simp add: text_closed_def line_safe_append line_safe_plain)

lemma dump_line_safe: "dump_value compact v n = Some s \<Longrightarrow> strings_safe v \<Longrightarrow> line_safe s"
  by (rule dump_closed [OF closed_line_safe], assumption, erule texts_ok_mono, rule escape_safe)

text \<open>Control characters are escaped: whatever the strings, a printed value has a property that the wide characters
  have too. It holds no line feed, no carriage return and no zero.\<close>

lemma escape_closed:
  assumes Q: "text_closed Q" and wide: "\<And>c. 128 \<le> (of_char c :: nat) \<Longrightarrow> Q [c]"
  shows "Q (escape False s)"
proof (induction s)
  case Nil
  from closed_plain [OF Q, of "[]"] show ?case by simp
next
  case (Cons c s)
  have "Q (escape_char False c)"
  proof (cases "of_char c < (128 :: nat)")
    case True
    then show ?thesis by (rule closed_plain [OF Q, OF escape_char_plain])
  next
    case False
    then show ?thesis using wide [of c] by (simp add: escape_char_wide)
  qed
  with Cons show ?case by (simp add: closed_append [OF Q])
qed

definition one_line_text :: "string \<Rightarrow> bool" where
  "one_line_text s = (LF \<notin> set s \<and> CR \<notin> set s)"

lemma closed_one_line: "text_closed one_line_text"
  by (auto simp: text_closed_def one_line_text_def plain_char_def LF_def CR_def)

lemma escape_one_line: "one_line_text (escape False s)"
  by (rule escape_closed [OF closed_one_line]) (auto simp: one_line_text_def LF_def CR_def)

lemma dump_one_line: "dump_value compact v n = Some s \<Longrightarrow> texts_ok (\<lambda>_. True) v \<Longrightarrow> one_line_text s"
  by (rule dump_closed [OF closed_one_line], assumption, erule texts_ok_mono, rule escape_one_line)

definition no_zero :: "string \<Rightarrow> bool" where
  "no_zero s = (CHR 0x00 \<notin> set s)"

lemma closed_no_zero: "text_closed no_zero"
  by (auto simp: text_closed_def no_zero_def plain_char_def)

lemma escape_no_zero: "no_zero (escape False s)"
  by (rule escape_closed [OF closed_no_zero]) (auto simp: no_zero_def)

lemma dump_no_zero: "dump_value compact v n = Some s \<Longrightarrow> texts_ok (\<lambda>_. True) v \<Longrightarrow> no_zero s"
  by (rule dump_closed [OF closed_no_zero], assumption, erule texts_ok_mono, rule escape_no_zero)

end
