(* ===== verification/Jsonl.thy ===== *)
theory Jsonl
  imports Log_Chain Lines
begin

text \<open>
  \<open>backends/jsonl.py\<close>: one JSON object per line of a file. The file is its content, or \<open>None\<close>
  when it does not exist; its directory exists and can be written. \<open>path\<close>, the file's name, and
  \<open>exn_str\<close>, the text of an exception, occur in messages only.

  The lemmas: scanning the file backwards by chunks finds its last line that is not blank
  (\<open>scan_back_correct\<close>); a record is read back from its line, with the metadata sorted by key
  (\<open>parse_serialized\<close>); the backend keeps the promises of \<open>storage\<close> for records whose strings do not
  break lines (\<open>jsonl_storage\<close>).
\<close>

section \<open>Writing\<close>

type_synonym disk_file = "string option"

definition contents :: "disk_file \<Rightarrow> string" where
  "contents f = (case f of None \<Rightarrow> [] | Some t \<Rightarrow> t)"

definition jsonl_payload :: "audit_record \<Rightarrow> pyval" where
  "jsonl_payload r =
     PyDict ([(''seq'', PyInt (seq r)), (''ts'', PyStr (timestamp r)), (''actor'', PyStr (actor r)),
        (''action'', PyStr (action r)), (''subject'', PyStr (subject r)), (''meta'', PyDict (metadata r)),
        (''prev_hash'', PyStr (prev_hash r)), (''hash'', PyStr (hash r))]
       @ (if key_id r = [] then [] else [(''key_id'', PyStr (key_id r))])
       @ (if signer_id r = [] then [] else [(''signer_id'', PyStr (signer_id r))])
       @ (if signature r = [] then [] else [(''signature'', PyStr (signature r))]))"

definition jsonl_serialize :: "audit_record \<Rightarrow> string result" where
  "jsonl_serialize r = dumps compact (jsonl_payload r)"

text \<open>Opening for appending creates the file, also when the text then cannot be encoded.\<close>

definition append_text :: "string \<Rightarrow> (disk_file, unit) action" where
  "append_text t f =
     (if has_surrogate t then (Inl UnicodeEncodeError, Some (contents f))
      else (Inr (), Some (contents f @ t)))"

definition jsonl_append :: "audit_record \<Rightarrow> (disk_file, unit) action" where
  "jsonl_append r = bindS (liftS (jsonl_serialize r)) (\<lambda>line. append_text (line @ [LF]))"

definition jsonl_append_many :: "audit_record list \<Rightarrow> (disk_file, unit) action" where
  "jsonl_append_many rs =
     bindS (liftS (mapE jsonl_serialize rs)) (\<lambda>ls.
     bindS (append_text (join [LF] ls)) (\<lambda>_.
       if ls = [] then returnS () else append_text [LF]))"

section \<open>Reading\<close>

text \<open>The exceptions that become a \<open>LogCorruptedError\<close>; others leave the method as they are.\<close>

definition is_parse_error :: "exn \<Rightarrow> bool" where
  "is_parse_error e =
     (is_value_error e \<or> (case e of KeyError _ \<Rightarrow> True | TypeError _ \<Rightarrow> True | _ \<Rightarrow> False))"

definition parse_line :: "(exn \<Rightarrow> string) \<Rightarrow> string \<Rightarrow> string \<Rightarrow> audit_record result" where
  "parse_line exn_str place line =
     (case bindE (loads line) from_stored of
        Inl e \<Rightarrow> Inl (if is_parse_error e then LogCorruptedError (place @ '': '' @ exn_str e) else e)
      | Inr r \<Rightarrow> Inr r)"

definition file_lines :: "string \<Rightarrow> string list result" where
  "file_lines t =
     (case utf8_chars t of
        None \<Rightarrow> Inl UnicodeDecodeError
      | Some cs \<Rightarrow> Inr (split_lines (universal_newlines cs) []))"

fun parse_lines :: "(exn \<Rightarrow> string) \<Rightarrow> string \<Rightarrow> nat \<Rightarrow> string list \<Rightarrow> audit_record list result" where
  "parse_lines exn_str path n [] = Inr []"
| "parse_lines exn_str path n (l # ls) =
     (if strip l = [] then parse_lines exn_str path (n + 1) ls
      else bindE (parse_line exn_str (path @ '':'' @ dec_nat n) l) (\<lambda>r.
           bindE (parse_lines exn_str path (n + 1) ls) (\<lambda>rs. Inr (r # rs))))"

definition jsonl_load :: "(exn \<Rightarrow> string) \<Rightarrow> string \<Rightarrow> (disk_file, audit_record list) action" where
  "jsonl_load exn_str path f =
     ((case f of None \<Rightarrow> Inr [] | Some t \<Rightarrow> bindE (file_lines t) (parse_lines exn_str path 1)), f)"

text \<open>\<open>load_last\<close> reads chunks of bytes from the end of the file until they hold two lines that are
  not blank, or the start of the file is reached.\<close>

definition CHUNK :: nat where "CHUNK = 65536"

text \<open>\<open>buffer.split(b"\n")\<close>, and \<open>bytes.strip\<close> on one piece.\<close>

fun split_at :: "char \<Rightarrow> string \<Rightarrow> string list" where
  "split_at c [] = [[]]"
| "split_at c (d # s) =
     (if d = c then [] # split_at c s
      else case split_at c s of [] \<Rightarrow> [[d]] | p # ps \<Rightarrow> (d # p) # ps)"

definition blank :: "string \<Rightarrow> bool" where
  "blank s = list_all is_ascii_space s"

definition full_lines :: "string \<Rightarrow> string list" where
  "full_lines s = filter (\<lambda>l. \<not> blank l) (split_at LF s)"

text \<open>\<open>s\<close> is the file, of which \<open>buffer\<close> holds everything from \<open>position\<close> on.\<close>

function scan_back :: "string \<Rightarrow> nat \<Rightarrow> string \<Rightarrow> string option" where
  "scan_back s position buffer =
     (if position = 0 then None
      else let step = min CHUNK position;
               position' = position - step;
               buffer' = take step (drop position' s) @ buffer;
               ls = full_lines buffer'
           in if 1 < length ls \<or> position' = 0 \<and> ls \<noteq> [] then Some (last ls)
              else scan_back s position' buffer')"
  by pat_completeness auto
termination
  by (relation "measure (\<lambda>(s, position, buffer). position)") (auto simp: CHUNK_def)

declare scan_back.simps [simp del]

definition jsonl_load_last :: "(exn \<Rightarrow> string) \<Rightarrow> string \<Rightarrow> (disk_file, audit_record option) action" where
  "jsonl_load_last exn_str path f =
     ((case f of
         None \<Rightarrow> Inr None
       | Some t \<Rightarrow>
           (case scan_back t (length t) [] of
              None \<Rightarrow> Inr None
            | Some line \<Rightarrow>
                (case utf8_chars line of
                   None \<Rightarrow> Inl UnicodeDecodeError
                 | Some _ \<Rightarrow>
                     if line = [] then Inr None
                     else bindE (parse_line exn_str (path @ '': last line'') line) (\<lambda>r. Inr (Some r))))), f)"

definition jsonl_ops :: "(exn \<Rightarrow> string) \<Rightarrow> string \<Rightarrow> disk_file backend_ops" where
  "jsonl_ops exn_str path =
     \<lparr>b_init = returnS (), b_append = jsonl_append, b_append_many = jsonl_append_many,
      b_load = jsonl_load exn_str path, b_load_last = jsonl_load_last exn_str path, b_close = returnS ()\<rparr>"

section \<open>The last line\<close>

lemma split_at_nonempty [simp]: "split_at c s \<noteq> []"
  by (cases s) (auto split: list.splits)

lemma split_at_append:
  "split_at c (a @ b) = butlast (split_at c a) @ (last (split_at c a) @ hd (split_at c b)) # tl (split_at c b)"
proof (induction a)
  case (Cons d a)
  obtain p ps where "split_at c a = p # ps" by (cases "split_at c a") auto
  with Cons show ?case by (cases ps) auto
qed (simp add: split_at.simps)

lemma full_lines_suffix:
  assumes "1 < length (full_lines b)"
  shows "full_lines (a @ b) \<noteq> [] \<and> last (full_lines (a @ b)) = last (full_lines b)"
proof -
  obtain p ps where b: "split_at LF b = p # ps" by (cases "split_at LF b") auto
  let ?f = "filter (\<lambda>l. \<not> blank l)"
  have "?f ps \<noteq> []" using assms by (auto simp: full_lines_def b split: if_splits)
  then have "last (full_lines b) = last (?f ps)" by (auto simp: full_lines_def b)
  moreover from \<open>?f ps \<noteq> []\<close> have "full_lines (a @ b) \<noteq> []" "last (full_lines (a @ b)) = last (?f ps)"
    by (auto simp: full_lines_def split_at_append [of LF a b] b)
  ultimately show ?thesis by simp
qed

lemma scan_back_suffix:
  "position \<le> length s \<Longrightarrow> 0 < position \<Longrightarrow>
   scan_back s position (drop position s) = (if full_lines s = [] then None else Some (last (full_lines s)))"
proof (induction position rule: less_induct)
  case (less position)
  define p where "p = position - min CHUNK position"
  have p: "p < position" using less.prems by (simp add: p_def CHUNK_def)
  have buffer: "take (min CHUNK position) (drop p s) @ drop position s = drop p s"
  proof -
    have "position = min CHUNK position + p" by (simp add: p_def)
    then show ?thesis by (metis append_take_drop_id drop_drop)
  qed
  have "(position = 0) = False" using less.prems(2) by simp
  then have step: "scan_back s position (drop position s) =
      (if 1 < length (full_lines (drop p s)) \<or> p = 0 \<and> full_lines (drop p s) \<noteq> []
       then Some (last (full_lines (drop p s))) else scan_back s p (drop p s))"
    by (simp only: scan_back.simps [of s position] Let_def p_def [symmetric] buffer if_False)
  show ?case
  proof (cases "p = 0")
    case True
    have "scan_back s 0 s = None" by (simp add: scan_back.simps)
    then show ?thesis using step True by auto
  next
    case False
    show ?thesis
    proof (cases "1 < length (full_lines (drop p s))")
      case True
      with full_lines_suffix [OF this, of "take p s"] step show ?thesis by simp
    next
      case False
      with less.IH [OF p] less.prems p \<open>p \<noteq> 0\<close> step show ?thesis by auto
    qed
  qed
qed

text \<open>Whatever the length of the lines and of the chunks.\<close>

lemma scan_back_correct:
  "scan_back s (length s) [] = (if full_lines s = [] then None else Some (last (full_lines s)))"
proof (cases "s = []")
  case True
  then show ?thesis by (simp add: scan_back.simps full_lines_def blank_def)
next
  case False
  with scan_back_suffix [of "length s" s] show ?thesis by simp
qed

section \<open>Reading what was written\<close>

text \<open>A record that comes back: its strings do not break lines, and its metadata is a JSON value.\<close>

definition jsonl_ok :: "audit_record \<Rightarrow> bool" where
  "jsonl_ok r =
     (wf_record r \<and> dumpable (PyDict (metadata r)) \<and> strings_safe (PyDict (metadata r)) \<and>
      list_all (\<lambda>f. string_safe (f r))
        [timestamp, actor, action, subject, prev_hash, hash, key_id, signer_id, signature])"

text \<open>The metadata as it is read back.\<close>

definition sorted_metadata :: "audit_record \<Rightarrow> audit_record" where
  "sorted_metadata r = r\<lparr>metadata := map (map_prod id canon) (sort_key fst (metadata r))\<rparr>"

definition line_of :: "audit_record \<Rightarrow> string" where
  "line_of r = (case jsonl_serialize r of Inl e \<Rightarrow> [] | Inr l \<Rightarrow> l)"

definition payload_members :: "audit_record \<Rightarrow> pydict" where
  "payload_members r = (case jsonl_payload r of PyDict d \<Rightarrow> d | _ \<Rightarrow> [])"

lemma payload_is_dict: "jsonl_payload r = PyDict (payload_members r)"
  by (simp add: payload_members_def jsonl_payload_def)

lemma payload_distinct: "distinct (map fst (payload_members r))"
  by (simp add: payload_members_def jsonl_payload_def)

lemma payload_lookup:
  "map_of (payload_members r) ''seq'' = Some (PyInt (seq r))"
  "map_of (payload_members r) ''ts'' = Some (PyStr (timestamp r))"
  "map_of (payload_members r) ''actor'' = Some (PyStr (actor r))"
  "map_of (payload_members r) ''action'' = Some (PyStr (action r))"
  "map_of (payload_members r) ''subject'' = Some (PyStr (subject r))"
  "map_of (payload_members r) ''meta'' = Some (PyDict (metadata r))"
  "map_of (payload_members r) ''prev_hash'' = Some (PyStr (prev_hash r))"
  "map_of (payload_members r) ''hash'' = Some (PyStr (hash r))"
  "map_of (payload_members r) ''key_id'' = (if key_id r = [] then None else Some (PyStr (key_id r)))"
  "map_of (payload_members r) ''signer_id'' = (if signer_id r = [] then None else Some (PyStr (signer_id r)))"
  "map_of (payload_members r) ''signature'' = (if signature r = [] then None else Some (PyStr (signature r)))"
  by (simp_all add: payload_members_def jsonl_payload_def)

lemma map_of_sort:
  assumes "distinct (map fst d)"
  shows "map_of (sort_key fst d) = map_of d"
proof (rule map_of_inject_set [THEN iffD2])
  show "distinct (map fst (sort_key fst d))" using assms by (simp add: distinct_map)
qed (use assms in simp_all)

lemma canon_lookup:
  "distinct (map fst d) \<Longrightarrow> map_of (map (map_prod id canon) (sort_key fst d)) k = map_option canon (map_of d k)"
  by (simp add: map_of_map map_prod_def flip: map_of_sort [of d])

lemma from_stored_payload: "from_stored (canon (jsonl_payload r)) = Inr (sorted_metadata r)"
proof -
  let ?m = "metadata (sorted_metadata r)"
  have meta: "canon (PyDict (metadata r)) = PyDict ?m" by (simp add: canon_dict sorted_metadata_def)
  have dict: "py_dict (PyDict d) = Inr d" for d by (simp add: py_dict_def)
  have "(if truthy (PyDict ?m) then PyDict ?m else PyDict []) = PyDict ?m" by simp
  then show ?thesis
    unfolding payload_is_dict canon_dict
    by (simp add: from_stored_def dict_get_def dict_item_def canon_lookup [OF payload_distinct] payload_lookup
        py_str_def Let_def meta dict del: truthy.simps) (simp add: sorted_metadata_def)
qed

lemma wf_payload_record: "wf_record r \<Longrightarrow> wf_value False (jsonl_payload r)"
  by (auto simp: wf_record_def jsonl_payload_def wf_dict text_ok_def)

lemma dumpable_payload_record: "dumpable (jsonl_payload r) \<longleftrightarrow> dumpable (PyDict (metadata r))"
  by (auto simp: jsonl_payload_def dumpable_dict [of "_ @ _"] dumpable_dict [of "_ # _"])

lemma strings_safe_payload:
  assumes "jsonl_ok r"
  shows "strings_safe (jsonl_payload r)"
proof -
  have "string_safe k" if "is_ascii k" for k
    using that by (auto simp: string_safe_def utf8_chars_ascii)
  with assms show ?thesis
    by (auto simp: jsonl_payload_def jsonl_ok_def texts_ok_dict [where d = "_ @ _"] texts_ok_dict [where d = "_ # _"])
qed

text \<open>The line of a record, and of one that comes back.\<close>

lemma serialize_value:
  assumes "wf_record r" and "dumpable (PyDict (metadata r))"
  shows "jsonl_serialize r = Inr (line_of r)" and "dump_value compact (jsonl_payload r) 0 = Some (line_of r)"
    and "\<exists>mid. line_of r = CHR ''{'' # mid @ ''}''" and "loads (line_of r) = Inr (canon (jsonl_payload r))"
proof -
  obtain s where s: "dumps compact (jsonl_payload r) = Inr s"
    using assms dumps_Inr [of compact "jsonl_payload r"] by (auto simp: dumpable_payload_record)
  then show serialize: "jsonl_serialize r = Inr (line_of r)" by (simp add: jsonl_serialize_def line_of_def)
  with s show l: "dump_value compact (jsonl_payload r) 0 = Some (line_of r)"
    by (auto simp: jsonl_serialize_def dumps_def split: option.splits)
  have "\<exists>mid. enclose compact 0 CHR ''{'' CHR ''}'' ts = CHR ''{'' # mid @ ''}''" for ts
    by (cases "ts = []") (simp_all add: enclose_def compact_layout)
  moreover from l obtain ts where "enclose compact 0 CHR ''{'' CHR ''}'' ts = line_of r"
    by (auto simp: payload_is_dict dump_dict)
  ultimately show "\<exists>mid. line_of r = CHR ''{'' # mid @ ''}''" by metis
  show "loads (line_of r) = Inr (canon (jsonl_payload r))"
    using loads_dumps [of compact "jsonl_payload r" "line_of r"] assms wf_payload_record serialize
    by (simp add: jsonl_serialize_def)
qed

lemma jsonl_okD: "jsonl_ok r \<Longrightarrow> wf_record r \<and> dumpable (PyDict (metadata r))"
  by (simp add: jsonl_ok_def)

lemma serialize_ok:
  assumes "jsonl_ok r"
  shows "jsonl_serialize r = Inr (line_of r)" and "line_safe (line_of r)"
    and "\<exists>mid. line_of r = CHR ''{'' # mid @ ''}''"
  using serialize_value [of r] jsonl_okD [OF assms] dump_line_safe [OF _ strings_safe_payload [OF assms]] by blast+

lemma parse_value_line:
  "wf_record r \<Longrightarrow> dumpable (PyDict (metadata r)) \<Longrightarrow> parse_line exn_str place (line_of r) = Inr (sorted_metadata r)"
  by (simp add: parse_line_def serialize_value from_stored_payload)

lemma parse_serialized: "jsonl_ok r \<Longrightarrow> parse_line exn_str place (line_of r) = Inr (sorted_metadata r)"
  by (simp add: parse_value_line jsonl_okD)

lemma drop_spaces_nonempty:
  assumes "s \<noteq> []" and "plain_char (hd s)" and "hd s \<noteq> CHR '' ''"
    and "\<forall>p \<in> set wide. p \<noteq> [] \<longrightarrow> \<not> plain_char (hd p)"
  shows "drop_spaces wide s = s"
proof -
  obtain c t where s: "s = c # t" using assms(1) by (cases s) auto
  have "\<not> is_str_space c"
    using assms(2,3) char_eq_of_nat [of c "CHR '' ''"]
    by (auto simp: s is_str_space_def is_ascii_space_def plain_char_def)
  moreover have "first_prefix (filter (\<lambda>p. p \<noteq> []) wide) (c # t) = None"
  proof (rule ccontr)
    assume "first_prefix (filter (\<lambda>p. p \<noteq> []) wide) (c # t) \<noteq> None"
    then obtain r where "first_prefix (filter (\<lambda>p. p \<noteq> []) wide) (c # t) = Some r" by blast
    from first_prefix_Some [OF this] obtain p where "p \<in> set wide" "p \<noteq> []" "c # t = p @ r" by auto
    with assms(2,4) s show False by (cases p) auto
  qed
  ultimately show ?thesis by (simp add: s)
qed

lemma braces_not_blank:
  "strip (CHR ''{'' # mid @ ''}'') \<noteq> []" "\<not> blank (CHR ''{'' # mid @ ''}'')"
proof -
  have wide: "\<forall>p \<in> set wide_spaces. p \<noteq> [] \<longrightarrow> \<not> plain_char (hd p)"
    "\<forall>p \<in> set (map rev wide_spaces). p \<noteq> [] \<longrightarrow> \<not> plain_char (hd p)"
    by (auto simp: wide_spaces_def plain_char_def)
  have "plain_char CHR ''{''" "plain_char CHR ''}''" by (simp_all add: plain_char_def)
  then show "strip (CHR ''{'' # mid @ ''}'') \<noteq> []"
    using drop_spaces_nonempty [OF _ _ _ wide(1), of "CHR ''{'' # mid @ ''}''"]
      drop_spaces_nonempty [OF _ _ _ wide(2), of "rev (CHR ''{'' # mid @ ''}'')"] by (simp add: strip_def)
qed (simp add: blank_def is_ascii_space_def)

section \<open>The promises of a backend\<close>

definition jsonl_file :: "audit_record list \<Rightarrow> string" where
  "jsonl_file rs = file_of (map line_of rs)"

definition jsonl_usable :: "disk_file \<Rightarrow> bool" where
  "jsonl_usable f = (\<exists>rs. list_all jsonl_ok rs \<and> contents f = jsonl_file rs)"

definition jsonl_stored :: "disk_file \<Rightarrow> audit_record list" where
  "jsonl_stored f = (case fst (jsonl_load (\<lambda>_. []) [] f) of Inl e \<Rightarrow> [] | Inr rs \<Rightarrow> rs)"

lemma jsonl_file_append: "jsonl_file (rs @ rs') = jsonl_file rs @ jsonl_file rs'"
  by (simp add: jsonl_file_def file_of_append)

lemma ok_line:
  assumes "jsonl_ok r"
  shows "line_safe (line_of r)" "strip (line_of r) \<noteq> []" "\<not> blank (line_of r)" "line_of r \<noteq> []"
    "\<exists>cs. utf8_chars (line_of r) = Some cs"
proof -
  show "line_safe (line_of r)" by (rule serialize_ok(2) [OF assms])
  then show "\<exists>cs. utf8_chars (line_of r) = Some cs" by (auto elim: line_safeE)
  obtain mid where "line_of r = CHR ''{'' # mid @ ''}''" using serialize_ok(3) [OF assms] by blast
  with braces_not_blank show "strip (line_of r) \<noteq> []" "\<not> blank (line_of r)" "line_of r \<noteq> []" by simp_all
qed

lemma parse_ok_lines:
  "list_all jsonl_ok rs \<Longrightarrow> parse_lines exn_str path n (map line_of rs) = Inr (map sorted_metadata rs)"
  by (induction rs arbitrary: n) (simp_all add: ok_line parse_serialized)

lemma load_ok_file:
  assumes "list_all jsonl_ok rs" and "contents f = jsonl_file rs"
  shows "jsonl_load exn_str path f = (Inr (map sorted_metadata rs), f)"
proof (cases f)
  case None
  with assms have "rs = []" by (cases rs) (auto simp: contents_def jsonl_file_def file_of_def)
  with None show ?thesis by (simp add: jsonl_load_def)
next
  case (Some t)
  have "list_all line_safe (map line_of rs)" using assms(1) ok_line(1) by (auto simp: list_all_iff)
  from file_of_lines [OF this] assms(2) Some have "file_lines t = Inr (map line_of rs)"
    by (auto simp: file_lines_def contents_def jsonl_file_def)
  with Some parse_ok_lines [OF assms(1)] show ?thesis by (simp add: jsonl_load_def)
qed

text \<open>No line of the file holds a line feed, so the pieces between line feeds are its lines.\<close>

lemma line_safe_no_LF: "line_safe s \<Longrightarrow> LF \<notin> set s"
proof (elim line_safeE)
  fix cs assume "utf8_chars s = Some cs" "\<forall>c \<in> set cs. c \<notin> set line_breaks"
  then show ?thesis
  proof (induction rule: utf8_induct)
    case (Char c w t ds)
    have "c \<noteq> LF"
    proof
      assume "c = LF"
      with Char(2) have "w = []" by (auto simp: utf8_width_def LF_def)
      with \<open>c = LF\<close> Char.prems LF_break show False by simp
    qed
    moreover have "LF \<notin> set w" using Char(3) by (auto simp: list_all_iff cont_def LF_def)
    ultimately show ?case using Char by simp
  qed simp
qed

lemma split_at_id: "c \<notin> set s \<Longrightarrow> split_at c s = [s]"
  by (induction s) auto

lemma split_file_of: "list_all (\<lambda>l. LF \<notin> set l) ls \<Longrightarrow> split_at LF (file_of ls) = ls @ [[]]"
  by (induction ls) (auto simp: file_of_def split_at_append split_at_id)

lemma load_last_ok_file:
  assumes "list_all jsonl_ok rs" and "contents f = jsonl_file rs"
  shows "jsonl_load_last exn_str path f = (Inr (last_record (map sorted_metadata rs)), f)"
proof (cases f)
  case None
  with assms have "rs = []" by (cases rs) (auto simp: contents_def jsonl_file_def file_of_def)
  with None show ?thesis by (simp add: jsonl_load_last_def last_record_def)
next
  case (Some t)
  have "list_all (\<lambda>l. LF \<notin> set l) (map line_of rs)"
    using assms(1) ok_line(1) line_safe_no_LF by (auto simp: list_all_iff)
  from split_file_of [OF this] have "full_lines t = filter (\<lambda>l. \<not> blank l) (map line_of rs)"
    using Some assms(2) by (simp add: full_lines_def contents_def jsonl_file_def blank_def)
  also have "\<dots> = map line_of rs" using assms(1) ok_line(3) by (simp add: filter_id_conv list_all_iff)
  finally have lines: "full_lines t = map line_of rs" .
  show ?thesis
  proof (cases "rs = []")
    case True
    with lines Some show ?thesis by (simp add: jsonl_load_last_def scan_back_correct last_record_def)
  next
    case False
    then have ok: "jsonl_ok (last rs)" using assms(1) by (simp add: list_all_iff)
    from ok_line(5) [OF ok] obtain cs where "utf8_chars (line_of (last rs)) = Some cs" ..
    with False lines Some ok show ?thesis
      by (simp add: jsonl_load_last_def scan_back_correct last_record_def last_map ok_line parse_serialized)
  qed
qed

lemma stored_ok_file:
  "list_all jsonl_ok rs \<Longrightarrow> contents f = jsonl_file rs \<Longrightarrow> jsonl_stored f = map sorted_metadata rs"
  by (simp add: jsonl_stored_def load_ok_file)

lemma ok_no_surrogate: "jsonl_ok r \<Longrightarrow> \<not> has_surrogate (line_of r)"
  using ok_line(5) utf8_no_surrogate by blast

lemma jsonl_append_ok:
  "jsonl_ok r \<Longrightarrow> jsonl_append r f = (Inr (), Some (contents f @ jsonl_file [r]))"
  using has_surrogate_sep [of LF "line_of r" "[]"] ok_no_surrogate [of r]
  by (simp add: jsonl_append_def serialize_ok append_text_def jsonl_file_def file_of_def LF_def)

lemma join_LF: "ls \<noteq> [] \<Longrightarrow> join [LF] ls @ [LF] = file_of ls"
  by (induction "[LF]" ls rule: join.induct) (simp_all add: file_of_def)

lemma jsonl_append_many_ok:
  assumes "list_all jsonl_ok rs"
  shows "jsonl_append_many rs f = (Inr (), Some (contents f @ jsonl_file rs))"
proof -
  have ls: "mapE jsonl_serialize rs = Inr (map line_of rs)"
    using assms by (intro mapE_Inr) (auto simp: serialize_ok list_all_iff)
  have "\<not> has_surrogate (join [LF] (map line_of rs))"
    using assms ok_no_surrogate by (subst join_clean) (auto simp: LF_def list_all_iff)
  then show ?thesis using ls join_LF [of "map line_of rs"]
    by (cases "rs = []")
      (simp_all add: jsonl_append_many_def append_text_def contents_def jsonl_file_def file_of_def)
qed

lemma sorted_metadata_same: "jsonl_ok r \<Longrightarrow> same_record r (sorted_metadata r) \<and> wf_record (sorted_metadata r)"
  using wf_canon [of "PyDict (metadata r)"] canon_canon [of "PyDict (metadata r)"]
  by (simp add: jsonl_ok_def wf_record_def same_record_def same_content_def sorted_metadata_def canon_dict)

lemma jsonl_usable_load:
  assumes "jsonl_usable s"
  shows "jsonl_load exn_str path s = (Inr (jsonl_stored s), s)"
    and "jsonl_load_last exn_str path s = (Inr (last_record (jsonl_stored s)), s)"
proof -
  obtain old where old: "list_all jsonl_ok old" "contents s = jsonl_file old" using assms by (auto simp: jsonl_usable_def)
  show "jsonl_load exn_str path s = (Inr (jsonl_stored s), s)"
    and "jsonl_load_last exn_str path s = (Inr (last_record (jsonl_stored s)), s)"
    using load_ok_file [OF old] load_last_ok_file [OF old] stored_ok_file [OF old] by simp_all
qed

lemma jsonl_storage:
  "storage (jsonl_ops exn_str path) jsonl_usable jsonl_stored (\<lambda>_. jsonl_ok) sorted_metadata"
proof
  fix r :: audit_record and rs :: "audit_record list" and s
  show "jsonl_ok r \<Longrightarrow> same_record r (sorted_metadata r) \<and> (wf_record r \<longrightarrow> wf_record (sorted_metadata r))"
    using sorted_metadata_same by blast
  assume "jsonl_usable s"
  then obtain old where old: "list_all jsonl_ok old" "contents s = jsonl_file old" by (auto simp: jsonl_usable_def)
  note stored = stored_ok_file [OF old]
  show "\<exists>s'. b_init (jsonl_ops exn_str path) s = (Inr (), s') \<and> jsonl_usable s' \<and> jsonl_stored s' = jsonl_stored s"
    using \<open>jsonl_usable s\<close> by (simp add: jsonl_ops_def)
  show "\<exists>s'. b_load (jsonl_ops exn_str path) s = (Inr (jsonl_stored s), s') \<and> jsonl_usable s' \<and> jsonl_stored s' = jsonl_stored s"
    "\<exists>s'. b_load_last (jsonl_ops exn_str path) s = (Inr (last_record (jsonl_stored s)), s') \<and> jsonl_usable s' \<and>
      jsonl_stored s' = jsonl_stored s"
    using jsonl_usable_load [OF \<open>jsonl_usable s\<close>] \<open>jsonl_usable s\<close> by (simp_all add: jsonl_ops_def)
  have grown: "jsonl_usable (Some (contents s @ jsonl_file new)) \<and>
      jsonl_stored (Some (contents s @ jsonl_file new)) = jsonl_stored s @ map sorted_metadata new"
    if "list_all jsonl_ok new" for new
  proof -
    have "list_all jsonl_ok (old @ new)" using old(1) that by simp
    moreover have "contents (Some (contents s @ jsonl_file new)) = jsonl_file (old @ new)"
      using old(2) by (simp add: contents_def jsonl_file_append)
    ultimately show ?thesis using stored_ok_file [of "old @ new"] stored
      by (auto simp: jsonl_usable_def simp del: list_all_append)
  qed
  show "\<exists>s'. b_append (jsonl_ops exn_str path) r s = (Inr (), s') \<and> jsonl_usable s' \<and>
      jsonl_stored s' = jsonl_stored s @ [sorted_metadata r]" if "jsonl_ok r"
    using grown [of "[r]"] jsonl_append_ok [OF that] that by (simp add: jsonl_ops_def)
  show "\<exists>s'. b_append_many (jsonl_ops exn_str path) rs s = (Inr (), s') \<and> jsonl_usable s' \<and>
      jsonl_stored s' = jsonl_stored s @ map sorted_metadata rs" if "\<forall>i < length rs. jsonl_ok (rs ! i)"
  proof -
    have "list_all jsonl_ok rs" using that by (simp add: list_all_length)
    with grown [of rs] jsonl_append_many_ok [of rs s] show ?thesis by (simp add: jsonl_ops_def)
  qed
qed

interpretation jsonl: storage "jsonl_ops exn_str path" jsonl_usable jsonl_stored "\<lambda>_. jsonl_ok" sorted_metadata
  for exn_str path
  by (rule jsonl_storage)

end
