(* ===== verification/Log_System.thy ===== *)
theory Log_System
  imports Jsonl
begin

text \<open>
  Several logs that write to one storage: a state is the storage and the objects of the writers;
  a step is one method of one writer, or a new writer. The methods are atomic here, which is what
  the lock of \<open>locks.py\<close> is for.

  \<open>sys_inv\<close> is the invariant: the stored chain is valid, and every writer reads the tail again or is the
  only one. \<open>log_step_inv\<close> keeps it for any backend; the properties below state it for the memory and
  the JSONL backend.
\<close>

section \<open>Writers\<close>

text \<open>Python's \<open>append\<close>, \<open>append_many\<close>, \<open>rotate\<close>, \<open>read\<close> and \<open>close\<close>, with the time of the call.\<close>

datatype log_op =
    Append string string string "pydict option" "string option" string
  | AppendMany "log_entry list"
  | Rotate bytes string string string
  | Read
  | Close

definition run_op :: "ed25519 \<Rightarrow> 's backend_ops \<Rightarrow> log_op \<Rightarrow> 's audit_log \<Rightarrow> 's audit_log" where
  "run_op lib ops p lg =
     (case p of
        Append ac an sub meta ts now \<Rightarrow> snd (log_append lib ops now ac an sub meta ts lg)
      | AppendMany es \<Rightarrow> snd (log_append_many lib ops es lg)
      | Rotate key kid ac now \<Rightarrow> snd (log_rotate lib ops now key kid ac lg)
      | Read \<Rightarrow> snd (log_read ops lg)
      | Close \<Rightarrow> snd (log_close ops lg))"

text \<open>A system in which the writers \<open>ws\<close> share the storage \<open>s\<close>. \<open>allowed\<close> restricts the operations,
  \<open>joins\<close> the writers.\<close>

type_synonym 's system = "'s \<times> 's audit_log list"

definition write_as :: "ed25519 \<Rightarrow> 's backend_ops \<Rightarrow> log_op \<Rightarrow> nat \<Rightarrow> 's system \<Rightarrow> 's system" where
  "write_as lib ops p i sys =
     (let lg = run_op lib ops p ((snd sys ! i)\<lparr>store := fst sys\<rparr>) in (store lg, (snd sys)[i := lg]))"

inductive log_step ::
  "ed25519 \<Rightarrow> 's backend_ops \<Rightarrow> (log_op \<Rightarrow> bool) \<Rightarrow> ('s audit_log \<Rightarrow> bool) \<Rightarrow> 's system \<Rightarrow> 's system \<Rightarrow> bool"
  for lib ops allowed joins where
  act: "i < length (snd sys) \<Longrightarrow> allowed p \<Longrightarrow> log_step lib ops allowed joins sys (write_as lib ops p i sys)"
| join: "joins w \<Longrightarrow> \<not> log_inited w \<Longrightarrow> log_step lib ops allowed joins (s, ws) (s, ws @ [w])"

inductive log_reachable ::
  "ed25519 \<Rightarrow> 's backend_ops \<Rightarrow> (log_op \<Rightarrow> bool) \<Rightarrow> ('s audit_log \<Rightarrow> bool) \<Rightarrow> 's system \<Rightarrow> 's system \<Rightarrow> bool"
  for lib ops allowed joins sys0 where
  start: "log_reachable lib ops allowed joins sys0 sys0"
| step: "log_reachable lib ops allowed joins sys0 sys \<Longrightarrow> log_step lib ops allowed joins sys sys' \<Longrightarrow>
     log_reachable lib ops allowed joins sys0 sys'"

section \<open>The invariant\<close>

text \<open>What an operation asks: metadata are Python values, and a new key is in the verifier's keyring.\<close>

definition op_ok :: "keyring option \<Rightarrow> log_op \<Rightarrow> bool" where
  "op_ok ring p =
     (case p of
        Append ac an sub meta ts now \<Rightarrow> wf_value False (PyDict (or_empty meta))
      | AppendMany es \<Rightarrow> list_all (\<lambda>(ac, an, sub, meta, now). wf_value False (PyDict (or_empty meta))) es
      | Rotate key kid ac now \<Rightarrow>
          kid \<noteq> [] \<and> (case ring of None \<Rightarrow> False | Some m \<Rightarrow> map_of m kid = Some key)
      | _ \<Rightarrow> True)"

definition rotation_metadata :: "'s audit_log \<Rightarrow> string \<Rightarrow> pydict" where
  "rotation_metadata lg kid =
     [(''from_key_id'', if log_seal_key lg = None then PyNone else PyStr (log_key_id lg)),
      (''to_key_id'', PyStr kid)]"

text \<open>The records an operation is going to store can be stored.\<close>

definition op_fits ::
  "(audit_record list \<Rightarrow> audit_record \<Rightarrow> bool) \<Rightarrow> (audit_record \<Rightarrow> audit_record) \<Rightarrow> ed25519 \<Rightarrow> audit_record list \<Rightarrow>
     's audit_log \<Rightarrow> log_op \<Rightarrow> bool" where
  "op_fits storable norm lib old lg p =
     (case p of
        Append ac an sub meta ts now \<Rightarrow>
          (\<forall>r. seal_record lib lg (build_record lg ac an sub (or_empty meta) (or_now now ts)
             (last_record old)) = Inr r \<longrightarrow> storable old r)
      | AppendMany es \<Rightarrow>
          (\<forall>rs. seal_entries lib lg (last_record old) es = Inr rs \<longrightarrow>
             (\<forall>i < length rs. storable (old @ map norm (take i rs)) (rs ! i)))
      | Rotate key kid ac now \<Rightarrow>
          (\<forall>r. seal_record lib lg (build_record lg ac ''key.rotate'' (''key:'' @ kid)
             (rotation_metadata lg kid) now (last_record old)) = Inr r \<longrightarrow> storable old r)
      | _ \<Rightarrow> True)"

definition sys_inv ::
  "('s \<Rightarrow> bool) \<Rightarrow> ('s \<Rightarrow> audit_record list) \<Rightarrow> ed25519 \<Rightarrow> bytes option \<Rightarrow> keyring option \<Rightarrow> signers option \<Rightarrow>
     's system \<Rightarrow> bool" where
  "sys_inv usable stored lib sk ring sgs sys =
     (usable (fst sys) \<and> valid_chain lib sk ring sgs (stored (fst sys)) \<and>
      (\<forall>w \<in> set (snd sys). writer_ok lib sk ring sgs w \<and> tail_known (stored (fst sys)) w) \<and>
      (list_all shared (snd sys) \<or> length (snd sys) \<le> 1))"

lemma same_config_shared: "same_config lg lg' \<Longrightarrow> shared lg' = shared lg"
  by (simp add: same_config_def shared_def)

lemma same_config_fits: "same_config lg lg' \<Longrightarrow> op_fits st nm lib old lg' p = op_fits st nm lib old lg p"
proof -
  assume a: "same_config lg lg'"
  have "seal_entries lib lg' p es = seal_entries lib lg p es" for p es
    by (induction es arbitrary: p) (auto simp: same_config_build [OF a] same_config_seal [OF a])
  moreover have "rotation_metadata lg' kid = rotation_metadata lg kid" for kid
    using a by (simp add: rotation_metadata_def same_config_def)
  ultimately show ?thesis by (simp add: op_fits_def same_config_build [OF a] same_config_seal [OF a] cong: log_op.case_cong)
qed

lemma wf_rotation: "wf_value False (PyDict (rotation_metadata lg kid))"
  by (simp add: rotation_metadata_def wf_dict text_ok_def)

text \<open>What an operation leaves behind.\<close>

definition grows ::
  "('s \<Rightarrow> bool) \<Rightarrow> ('s \<Rightarrow> audit_record list) \<Rightarrow> ed25519 \<Rightarrow> bytes option \<Rightarrow> keyring option \<Rightarrow> signers option \<Rightarrow>
     's audit_log \<Rightarrow> 's audit_log \<Rightarrow> bool" where
  "grows usable stored lib sk ring sgs lg lg' =
     (usable (store lg') \<and> valid_chain lib sk ring sgs (stored (store lg')) \<and>
      writer_ok lib sk ring sgs lg' \<and> shared lg' = shared lg \<and> tail_known (stored (store lg')) lg' \<and>
      (\<exists>new. stored (store lg') = stored (store lg) @ new))"

context storage
begin

lemma growsI:
  assumes "usable (store lg')" and "valid_chain lib sk ring sgs (stored (store lg'))" and "same_config lg lg'"
    and "writer_ok lib sk ring sgs lg" and "tail_known (stored (store lg')) lg'"
    and "stored (store lg') = stored (store lg) @ new"
  shows "grows usable stored lib sk ring sgs lg lg'"
  using assms same_config_writer [OF assms(3)] same_config_shared [OF assms(3)] by (auto simp: grows_def)

lemma append_grows:
  assumes "usable (store lg)" and "tail_known (stored (store lg)) lg"
    and "valid_chain lib sk ring sgs (stored (store lg))" and "writer_ok lib sk ring sgs lg"
    and "wf_value False (PyDict (or_empty meta))"
    and "op_fits storable norm lib (stored (store lg)) lg (Append ac an sub meta ts now)"
  shows "grows usable stored lib sk ring sgs lg (snd (log_append lib ops now ac an sub meta ts lg))"
proof -
  from assms(6) have "\<forall>r. seal_record lib lg (build_record lg ac an sub (or_empty meta) (or_now now ts)
      (last_record (stored (store lg)))) = Inr r \<longrightarrow> storable (stored (store lg)) r" by (simp add: op_fits_def)
  with assms(1-5) show ?thesis
    by (cases rule: append_step) (auto intro!: growsI [where new = "[]"] growsI simp: assms tail_known_def)
qed

lemma append_many_grows:
  assumes "usable (store lg)" and "tail_known (stored (store lg)) lg"
    and "valid_chain lib sk ring sgs (stored (store lg))" and "writer_ok lib sk ring sgs lg"
    and "op_ok ring (AppendMany es)" and "op_fits storable norm lib (stored (store lg)) lg (AppendMany es)"
  shows "grows usable stored lib sk ring sgs lg (snd (log_append_many lib ops es lg))"
proof -
  from assms(5,6) have "list_all (\<lambda>(ac, an, sub, meta, now). wf_value False (PyDict (or_empty meta))) es"
    "\<forall>rs. seal_entries lib lg (last_record (stored (store lg))) es = Inr rs \<longrightarrow>
      (\<forall>i < length rs. storable (stored (store lg) @ map norm (take i rs)) (rs ! i))"
    by (simp_all add: op_fits_def op_ok_def)
  with assms(1-4) show ?thesis
    by (cases rule: append_many_step) (auto intro!: growsI [where new = "[]"] growsI simp: assms tail_known_def)
qed

lemma rotate_run:
  assumes "usable (store lg)" and "tail_known (stored (store lg)) lg" and "MIN_KEY_LENGTH \<le> length key"
  obtains lg1 where "usable (store lg1)" "stored (store lg1) = stored (store lg)" "same_config lg lg1"
    "tail_known (stored (store lg)) lg1"
    "log_rotate lib ops now key kid ac lg =
       (case log_append lib ops now ac ''key.rotate'' (''key:'' @ kid) (Some (rotation_metadata lg kid)) None lg1 of
          (Inl e, lg2) \<Rightarrow> (Inl e, lg2)
        | (Inr r, lg2) \<Rightarrow>
            (Inr r, lg2\<lparr>log_seal_key := Some key, log_key_id := kid,
                       log_keyring := dict_put (log_keyring lg2) kid key\<rparr>))"
proof -
  obtain lg1 where 1: "ensure_inited ops lg = (Inr (), lg1)" "usable (store lg1)"
    "stored (store lg1) = stored (store lg)" "same_config lg lg1" "log_inited lg1"
    "shared lg1 \<or> tail_ok (stored (store lg)) lg1"
    using ensure_inited_run [OF assms(1,2)] .
  have config: "log_seal_key lg1 = log_seal_key lg" "log_key_id lg1 = log_key_id lg"
    using 1(4) by (simp_all add: same_config_def)
  with that [of lg1] 1 assms(3) show ?thesis
    by (simp add: log_rotate_def rotation_metadata_def tail_known_def bindS_def modify_def returnS_def
        split: prod.splits sum.splits)
qed

lemma rotate_writer_ok:
  assumes "writer_ok lib sk ring sgs lg" and "op_ok ring (Rotate key kid ac now)"
  shows "writer_ok lib sk ring sgs (lg\<lparr>log_seal_key := Some key, log_key_id := kid, log_keyring := m\<rparr>)"
  using assms by (simp add: writer_ok_def op_ok_def cong: option.case_cong)

lemma rotate_grows:
  assumes "usable (store lg)" and "tail_known (stored (store lg)) lg"
    and "valid_chain lib sk ring sgs (stored (store lg))" and "writer_ok lib sk ring sgs lg"
    and "op_ok ring (Rotate key kid ac now)"
    and fits: "op_fits storable norm lib (stored (store lg)) lg (Rotate key kid ac now)"
  shows "grows usable stored lib sk ring sgs lg (snd (log_rotate lib ops now key kid ac lg))"
proof (cases "MIN_KEY_LENGTH \<le> length key")
  case False
  then have "snd (log_rotate lib ops now key kid ac lg) = lg" by (simp add: log_rotate_def)
  with growsI [of lg lib sk ring sgs lg "[]"] assms show ?thesis by simp
next
  case True
  let ?meta = "Some (rotation_metadata lg kid)"
  obtain lg1 where 1: "usable (store lg1)" "stored (store lg1) = stored (store lg)" "same_config lg lg1"
    "tail_known (stored (store lg)) lg1"
    "log_rotate lib ops now key kid ac lg =
       (case log_append lib ops now ac ''key.rotate'' (''key:'' @ kid) ?meta None lg1 of
          (Inl e, lg2) \<Rightarrow> (Inl e, lg2)
        | (Inr r, lg2) \<Rightarrow>
            (Inr r, lg2\<lparr>log_seal_key := Some key, log_key_id := kid,
                       log_keyring := dict_put (log_keyring lg2) kid key\<rparr>))"
    using rotate_run [OF assms(1,2) True] .
  have "op_fits storable norm lib (stored (store lg1)) lg1
      (Append ac ''key.rotate'' (''key:'' @ kid) ?meta None now)"
    using fits 1(2) by (simp add: op_fits_def or_empty_def or_now_def same_config_build [OF 1(3)] same_config_seal [OF 1(3)])
  moreover have "writer_ok lib sk ring sgs lg1" using assms(4) same_config_writer [OF 1(3)] by blast
  ultimately have g: "grows usable stored lib sk ring sgs lg1
      (snd (log_append lib ops now ac ''key.rotate'' (''key:'' @ kid) ?meta None lg1))"
    using 1(1,2,4) assms(3) wf_rotation by (intro append_grows) (simp_all add: or_empty_def)
  have "shared lg1 = shared lg" by (rule same_config_shared [OF 1(3)])
  then show ?thesis
    using g 1(2,5) rotate_writer_ok [OF _ assms(5)]
    by (auto simp: grows_def shared_def tail_known_def tail_ok_def split: prod.splits sum.splits)
qed

lemma op_grows:
  assumes "usable (store lg)" and "tail_known (stored (store lg)) lg"
    and "valid_chain lib sk ring sgs (stored (store lg))" and "writer_ok lib sk ring sgs lg"
    and "op_ok ring p" and "op_fits storable norm lib (stored (store lg)) lg p"
    and close: "p = Close \<Longrightarrow> usable (snd (b_close ops (store lg))) \<and>
      stored (snd (b_close ops (store lg))) = stored (store lg)"
  shows "grows usable stored lib sk ring sgs lg (run_op lib ops p lg)"
proof (cases p)
  case (Append ac an sub meta ts now)
  with assms append_grows show ?thesis by (simp add: run_op_def op_ok_def)
next
  case (AppendMany es)
  with assms append_many_grows show ?thesis by (simp add: run_op_def)
next
  case (Rotate key kid ac now)
  with assms rotate_grows show ?thesis by (simp add: run_op_def)
next
  case Read
  obtain lg1 where 1: "log_read ops lg = (Inr (stored (store lg)), lg1)" "usable (store lg1)"
    "stored (store lg1) = stored (store lg)" "same_config lg lg1" "tail_known (stored (store lg)) lg1"
    using log_read_run [OF assms(1,2)] .
  with growsI [OF 1(2) _ 1(4) assms(4), of "[]"] assms(3) show ?thesis
    by (simp add: run_op_def Read)
next
  case Close
  from close [OF Close] obtain r s' where "b_close ops (store lg) = (r, s')" "usable s'" "stored s' = stored (store lg)"
    by (cases "b_close ops (store lg)") auto
  with growsI [of "lg\<lparr>store := s'\<rparr>" lib sk ring sgs lg "[]"] assms(2-4) show ?thesis
    by (simp add: run_op_def Close log_close_def on_store_def tail_known_def tail_ok_def shared_def)
qed

text \<open>One step: the writer that moved, and the others.\<close>

lemma tail_known_other: "shared w \<Longrightarrow> tail_known rs w"
  by (simp add: tail_known_def)

lemma write_as_inv:
  assumes inv: "sys_inv usable stored lib sk ring sgs sys" and i: "i < length (snd sys)" and p: "op_ok ring p"
    and fits: "op_fits storable norm lib (stored (fst sys)) (snd sys ! i) p"
    and close: "p = Close \<Longrightarrow> usable (snd (b_close ops (fst sys))) \<and>
      stored (snd (b_close ops (fst sys))) = stored (fst sys)"
  shows "sys_inv usable stored lib sk ring sgs (write_as lib ops p i sys)"
    and "\<exists>new. stored (fst (write_as lib ops p i sys)) = stored (fst sys) @ new"
proof -
  obtain s ws where sys: "sys = (s, ws)" by (cases sys)
  let ?w = "(ws ! i)\<lparr>store := s\<rparr>"
  have same: "same_config (ws ! i) ?w" by (simp add: same_config_def)
  have w: "writer_ok lib sk ring sgs (ws ! i)" "tail_known (stored s) (ws ! i)"
    using inv i by (auto simp: sys_inv_def sys)
  have "grows usable stored lib sk ring sgs ?w (run_op lib ops p ?w)"
  proof (rule op_grows)
    show "tail_known (stored (store ?w)) ?w" using w(2) by (simp add: tail_known_def tail_ok_def shared_def)
    show "op_fits storable norm lib (stored (store ?w)) ?w p"
      using fits same_config_fits [OF same] by (simp add: sys)
  qed (use inv w p close same_config_writer [OF same] in \<open>auto simp: sys_inv_def sys\<close>)
  then have g: "usable (store (run_op lib ops p ?w))"
    "valid_chain lib sk ring sgs (stored (store (run_op lib ops p ?w)))"
    "writer_ok lib sk ring sgs (run_op lib ops p ?w)" "shared (run_op lib ops p ?w) = shared (ws ! i)"
    "tail_known (stored (store (run_op lib ops p ?w))) (run_op lib ops p ?w)"
    "\<exists>new. stored (store (run_op lib ops p ?w)) = stored s @ new"
    by (simp_all add: grows_def shared_def)
  let ?ws = "ws[i := run_op lib ops p ?w]"
  have ws: "list_all shared ?ws \<or> length ?ws \<le> 1"
    using inv i g(4) by (auto simp: sys_inv_def sys list_all_length nth_list_update)
  have "tail_known (stored (store (run_op lib ops p ?w))) v" if "v \<in> set ?ws" for v
  proof (cases "list_all shared ?ws")
    case True
    with that show ?thesis by (auto simp: list_all_iff tail_known_other)
  next
    case False
    with ws i have "ws = [ws ! 0]" "i = 0" by (auto simp: sys le_Suc_eq length_Suc_conv)
    then have "?ws = [run_op lib ops p ?w]" by (metis list_update_code(2))
    with that g(5) show ?thesis by simp
  qed
  moreover have "writer_ok lib sk ring sgs v" if "v \<in> set ?ws" for v
    using that inv g(3) set_update_subset_insert [of ws i "run_op lib ops p ?w"] by (auto simp: sys_inv_def sys)
  ultimately show "sys_inv usable stored lib sk ring sgs (write_as lib ops p i sys)"
    using g(1,2) ws by (simp add: sys_inv_def write_as_def sys Let_def)
  show "\<exists>new. stored (fst (write_as lib ops p i sys)) = stored (fst sys) @ new"
    using g(6) by (simp add: write_as_def sys Let_def)
qed

end

section \<open>What no method changes\<close>

definition keeps :: "('s audit_log, 'a) action \<Rightarrow> bool" where
  "keeps act = (\<forall>lg. same_config lg (snd (act lg)))"

lemma keeps_bindS: "keeps m \<Longrightarrow> (\<And>x. keeps (f x)) \<Longrightarrow> keeps (bindS m f)"
  unfolding keeps_def bindS_def
  by (auto split: prod.split sum.split) (metis same_config_trans snd_conv)+

lemma keeps_here: "(\<And>x. keeps (f x)) \<Longrightarrow> keeps (\<lambda>lg. f lg lg)"
  by (simp add: keeps_def)

lemma keeps_basic:
  "keeps (returnS x)" "keeps (liftS r)" "keeps (raiseS e)" "keeps (on_store act)"
  "keeps (modify (\<lambda>lg. lg\<lparr>log_last := l\<rparr>))" "keeps (modify (\<lambda>lg. lg\<lparr>log_last := l, log_inited := b\<rparr>))"
  by (simp_all add: keeps_def on_store_def modify_def split: prod.split)

lemma keeps_init: "keeps (ensure_inited ops)" "keeps (refresh_tail ops)" "keeps (log_init ops)"
proof -
  show "keeps (log_init ops)" by (simp add: log_init_def keeps_bindS keeps_basic)
  then show "keeps (ensure_inited ops)" by (simp add: keeps_def ensure_inited_def)
  have "keeps (bindS (on_store (b_load_last ops)) (\<lambda>l. modify (\<lambda>lg. lg\<lparr>log_last := l\<rparr>)))"
    by (intro keeps_bindS keeps_basic)
  then show "keeps (refresh_tail ops)" by (simp add: keeps_def refresh_tail_def)
qed

lemma keeps_append: "keeps (log_append lib ops now ac an sub meta ts)"
  unfolding log_append_def
  by (intro keeps_bindS keeps_init, rule keeps_here, intro keeps_bindS keeps_basic)

lemma keeps_append_many: "keeps (log_append_many lib ops es)"
  unfolding log_append_many_def
  by (intro keeps_bindS keeps_init, rule keeps_here, rule keeps_bindS [OF keeps_basic(2)])
    (simp add: keeps_bindS keeps_basic)

lemma run_op_ids:
  "log_signer_id (run_op lib ops p lg) = log_signer_id lg"
  "log_lock (run_op lib ops p lg) = log_lock lg"
  "log_key_id (run_op lib ops p lg) = log_key_id lg \<or>
     (\<exists>key kid ac now. p = Rotate key kid ac now \<and> log_key_id (run_op lib ops p lg) = kid)"
proof -
  have "log_signer_id (run_op lib ops p lg) = log_signer_id lg \<and> log_lock (run_op lib ops p lg) = log_lock lg \<and>
     (log_key_id (run_op lib ops p lg) = log_key_id lg \<or>
     (\<exists>key kid ac now. p = Rotate key kid ac now \<and> log_key_id (run_op lib ops p lg) = kid))"
  proof (cases p)
    case (Append ac an sub meta ts now)
    then show ?thesis using keeps_append [of lib ops now ac an sub meta ts]
      by (simp add: run_op_def keeps_def same_config_def)
  next
    case (AppendMany es)
    then show ?thesis using keeps_append_many [of lib ops es] by (simp add: run_op_def keeps_def same_config_def)
  next
    case (Rotate key kid ac now)
    obtain r1 lg1 where 1: "ensure_inited ops lg = (r1, lg1)" by (cases "ensure_inited ops lg")
    then have c1: "same_config lg lg1" using keeps_init(1) [of ops] by (metis keeps_def snd_conv)
    let ?append = "log_append lib ops now ac ''key.rotate'' (''key:'' @ kid) (Some
      [(''from_key_id'', if log_seal_key lg1 = None then PyNone else PyStr (log_key_id lg1)),
       (''to_key_id'', PyStr kid)]) None lg1"
    obtain r2 lg2 where 2: "?append = (r2, lg2)" by (cases ?append)
    then have "same_config lg1 lg2" using keeps_append by (metis keeps_def snd_conv)
    with c1 have c2: "same_config lg lg2" by (rule same_config_trans)
    have "snd (log_rotate lib ops now key kid ac lg) \<in> {lg, lg1, lg2, lg2\<lparr>log_seal_key := Some key,
        log_key_id := kid, log_keyring := dict_put (log_keyring lg2) kid key\<rparr>}"
      using 1 2 by (auto simp: log_rotate_def bindS_def modify_def returnS_def raiseS_def split: sum.split)
    with c1 c2 show ?thesis by (auto simp: run_op_def Rotate same_config_def)
  next
    case Read
    then show ?thesis using keeps_init(1) [of ops] keeps_basic(4) [of "b_load ops"]
        keeps_bindS [of "ensure_inited ops" "\<lambda>_. on_store (b_load ops)"]
      by (simp add: run_op_def log_read_def keeps_def same_config_def)
  next
    case Close
    then show ?thesis using keeps_basic(4) [of "b_close ops"] by (simp add: run_op_def log_close_def keeps_def same_config_def)
  qed
  then show "log_signer_id (run_op lib ops p lg) = log_signer_id lg"
    "log_lock (run_op lib ops p lg) = log_lock lg"
    "log_key_id (run_op lib ops p lg) = log_key_id lg \<or>
     (\<exists>key kid ac now. p = Rotate key kid ac now \<and> log_key_id (run_op lib ops p lg) = kid)" by simp_all
qed

end
