(* ===== verification/Shared_Log.thy ===== *)
theory Shared_Log
  imports Log_System
begin

text \<open>
  The promises of the log over its backends: several writers on one JSONL file, one writer in memory,
  what an append does when it works and when it is refused, and what breaks the chain.
\<close>

section \<open>Operations whose records a JSONL file can hold\<close>

definition entry_safe :: "string \<Rightarrow> string \<Rightarrow> string \<Rightarrow> pydict \<Rightarrow> string \<Rightarrow> bool" where
  "entry_safe ac an sub meta ts =
     (list_all string_safe [ac, an, sub, ts] \<and> wf_value False (PyDict meta) \<and> strings_safe (PyDict meta))"

definition op_safe :: "log_op \<Rightarrow> bool" where
  "op_safe p =
     (case p of
        Append ac an sub meta ts now \<Rightarrow> entry_safe ac an sub (or_empty meta) (or_now now ts)
      | AppendMany es \<Rightarrow> list_all (\<lambda>(ac, an, sub, meta, now). entry_safe ac an sub (or_empty meta) now) es
      | Rotate key kid ac now \<Rightarrow> list_all string_safe [kid, ac, now]
      | _ \<Rightarrow> True)"

definition ids_safe :: "'s audit_log \<Rightarrow> bool" where
  "ids_safe lg = (string_safe (log_key_id lg) \<and> string_safe (log_signer_id lg))"

lemma string_safe_ascii: "is_ascii s \<Longrightarrow> string_safe s"
  by (auto simp: string_safe_def utf8_chars_ascii)

lemma string_safe_append: 
  assumes "string_safe a" and "string_safe b"
  shows "string_safe (a @ b)"
proof -
  from assms(1) obtain xs where xs: "utf8_chars a = Some xs" "\<forall>c \<in> set xs. length c = 1 \<or> c \<notin> set line_breaks"
    by (auto simp: string_safe_def split: option.splits)
  from assms(2) obtain ys where ys: "utf8_chars b = Some ys" "\<forall>c \<in> set ys. length c = 1 \<or> c \<notin> set line_breaks"
    by (auto simp: string_safe_def split: option.splits)
  have "utf8_chars (a @ b) = Some (xs @ ys)" using utf8_chars_append [OF xs(1), of b] ys(1) by simp
  with xs(2) ys(2) show ?thesis by (auto simp: string_safe_def)
qed

lemma sign_record_hex: "sign_record lib r k = Inr sig \<Longrightarrow> is_ascii sig"
  by (auto simp: sign_record_def sign_message_def result_simps is_ascii_def list_all_iff hex_ascii)

lemma sealed_dumpable: "compute_record_hash r k = Inr h \<Longrightarrow> dumpable (PyDict (metadata r))"
  using to_payload_bytes_Inr [of r] by (auto simp: compute_record_hash_Inr record_data_def result_simps split: if_splits)

lemma sealed_jsonl_ok:
  assumes "seal_record lib lg (build_record lg ac an sub meta ts prev) = Inr r"
    and "entry_safe ac an sub meta ts" and "ids_safe lg"
    and "is_ascii (case prev of None \<Rightarrow> GENESIS_HASH | Some p \<Rightarrow> hash p)"
  shows "jsonl_ok r"
proof -
  note f = seal_record_fields [OF assms(1)]
  have "dumpable (PyDict meta)"
    using sealed_dumpable [OF f(10)] f(6) by simp
  moreover have "is_ascii (hash r)" using f(10) record_hash_shape by blast
  moreover have "is_ascii (signature r)"
    using assms(1) sign_record_hex by (auto simp: seal_record_Inr build_record_def is_ascii_def split: option.splits)
  moreover have "is_ascii (prev_hash r)" using assms(4) f(7) by (auto split: option.splits)
  ultimately show ?thesis
    using assms(2,3) f string_safe_ascii [of "[]"]
    by (simp add: jsonl_ok_def entry_safe_def ids_safe_def wf_record_def string_safe_ascii)
qed

lemma seal_entries_jsonl_ok:
  assumes "seal_entries lib lg prev es = Inr rs"
    and "list_all (\<lambda>(ac, an, sub, meta, now). entry_safe ac an sub (or_empty meta) now) es" and "ids_safe lg"
    and "is_ascii (case prev of None \<Rightarrow> GENESIS_HASH | Some p \<Rightarrow> hash p)"
  shows "list_all jsonl_ok rs"
  using assms(1,2,4)
proof (induction es arbitrary: prev rs)
  case (Cons e es)
  obtain ac an sub meta now where e: "e = (ac, an, sub, meta, now)" by (cases e)
  with Cons.prems(1) obtain r ts where
    r: "seal_record lib lg (build_record lg ac an sub (or_empty meta) now prev) = Inr r"
    and ts: "seal_entries lib lg (Some r) es = Inr ts" and rs: "rs = r # ts"
    by (auto simp: result_simps)
  have "is_ascii (hash r)" using seal_record_fields(10) [OF r] record_hash_shape by blast
  with Cons.IH [OF ts] Cons.prems(2,3) sealed_jsonl_ok [OF r _ assms(3)] show ?case by (simp add: e rs)
qed simp

lemma last_record_ascii:
  "valid_chain lib sk ring sgs rs \<Longrightarrow>
   is_ascii (case last_record rs of None \<Rightarrow> GENESIS_HASH | Some p \<Rightarrow> hash p)"
  using valid_tail_ascii [of lib sk ring sgs rs] by (auto simp: last_record_def split: if_splits)

lemma rotation_safe:
  assumes "list_all string_safe [kid, ac, now]" and "ids_safe lg"
  shows "entry_safe ac ''key.rotate'' (''key:'' @ kid) (rotation_metadata lg kid) now"
  using assms string_safe_append [of "''key:''" kid] wf_rotation [of lg kid]
  by (simp add: entry_safe_def ids_safe_def string_safe_ascii rotation_metadata_def
      texts_ok_dict [where d = "[_, _]"])

lemma op_safe_fits:
  assumes "op_safe p" and "ids_safe lg" and "valid_chain lib sk ring sgs old"
  shows "op_fits (\<lambda>_. jsonl_ok) norm lib old lg p"
proof (cases p)
  case (AppendMany es)
  with assms seal_entries_jsonl_ok [OF _ _ assms(2) last_record_ascii [OF assms(3)], of lib es]
  show ?thesis by (auto simp: op_fits_def op_safe_def list_all_length)
next
  case (Rotate key kid ac now)
  with assms rotation_safe [of kid ac now lg] sealed_jsonl_ok [OF _ _ assms(2) last_record_ascii [OF assms(3)]]
  show ?thesis by (auto simp: op_fits_def op_safe_def)
qed (use assms sealed_jsonl_ok [OF _ _ assms(2) last_record_ascii [OF assms(3)]]
    in \<open>auto simp: op_fits_def op_safe_def\<close>)

lemma op_safe_ids: "op_safe p \<Longrightarrow> ids_safe lg \<Longrightarrow> ids_safe (run_op lib ops p lg)"
  using run_op_ids(1) [of lib ops p lg] run_op_ids(3) [of lib ops p lg]
  by (cases p) (auto simp: ids_safe_def op_safe_def)

section \<open>Several writers on one file\<close>

definition jsonl_allowed :: "keyring option \<Rightarrow> log_op \<Rightarrow> bool" where
  "jsonl_allowed ring p = (op_safe p \<and> op_ok ring p)"

text \<open>A writer that takes part: it has a lock, keys the verifier knows, and identifiers a line can hold.\<close>

definition jsonl_writer ::
  "ed25519 \<Rightarrow> bytes option \<Rightarrow> keyring option \<Rightarrow> signers option \<Rightarrow> 's audit_log \<Rightarrow> bool" where
  "jsonl_writer lib sk ring sgs w = (shared w \<and> writer_ok lib sk ring sgs w \<and> ids_safe w)"

lemma jsonl_step_inv:
  assumes "log_step lib (jsonl_ops exn_str path) (jsonl_allowed ring) (jsonl_writer lib sk ring sgs) sys sys'"
    and inv: "sys_inv jsonl_usable jsonl_stored lib sk ring sgs sys" and conf: "list_all (\<lambda>w. shared w \<and> ids_safe w) (snd sys)"
  shows "sys_inv jsonl_usable jsonl_stored lib sk ring sgs sys'" "list_all (\<lambda>w. shared w \<and> ids_safe w) (snd sys')"
    "\<exists>new. jsonl_stored (fst sys') = jsonl_stored (fst sys) @ new"
proof -
  have "sys_inv jsonl_usable jsonl_stored lib sk ring sgs sys' \<and> list_all (\<lambda>w. shared w \<and> ids_safe w) (snd sys') \<and>
    (\<exists>new. jsonl_stored (fst sys') = jsonl_stored (fst sys) @ new)"
    using assms(1)
  proof (cases rule: log_step.cases)
    case (act i p)
    let ?ops = "jsonl_ops exn_str path"
    let ?w = "(snd sys ! i)\<lparr>store := fst sys\<rparr>"
    have p: "op_safe p" "op_ok ring p" using act(3) by (simp_all add: jsonl_allowed_def)
    have ids: "ids_safe (snd sys ! i)" "shared (snd sys ! i)" using conf act(2) by (simp_all add: list_all_length)
    have "valid_chain lib sk ring sgs (jsonl_stored (fst sys))" using inv by (simp add: sys_inv_def)
    note fits = op_safe_fits [OF p(1) ids(1) this]
    have "jsonl_usable (snd (b_close ?ops (fst sys))) \<and> jsonl_stored (snd (b_close ?ops (fst sys))) = jsonl_stored (fst sys)"
      using inv by (simp add: jsonl_ops_def sys_inv_def)
    with jsonl.write_as_inv [OF inv act(2) p(2) fits, of exn_str path] act(1)
    have step: "sys_inv jsonl_usable jsonl_stored lib sk ring sgs sys'"
      "\<exists>new. jsonl_stored (fst sys') = jsonl_stored (fst sys) @ new" by blast+
    have "ids_safe (run_op lib ?ops p ?w)" using op_safe_ids [OF p(1), of ?w] ids by (simp add: ids_safe_def)
    moreover have "shared (run_op lib ?ops p ?w)" using run_op_ids(2) [of lib _ p ?w] ids by (simp add: shared_def)
    ultimately have "list_all (\<lambda>w. shared w \<and> ids_safe w) (snd sys')"
      using conf act(1,2) by (auto simp: write_as_def Let_def list_all_length nth_list_update)
    with step show ?thesis by blast
  next
    case (join w s ws)
    then show ?thesis
      using inv conf by (auto simp: sys_inv_def jsonl_writer_def tail_known_def list_all_iff)
  qed
  then show "sys_inv jsonl_usable jsonl_stored lib sk ring sgs sys'" "list_all (\<lambda>w. shared w \<and> ids_safe w) (snd sys')"
    "\<exists>new. jsonl_stored (fst sys') = jsonl_stored (fst sys) @ new" by blast+
qed

lemma jsonl_reachable_inv:
  assumes "log_reachable lib (jsonl_ops exn_str path) (jsonl_allowed ring) (jsonl_writer lib sk ring sgs) sys0 sys"
    and "sys_inv jsonl_usable jsonl_stored lib sk ring sgs sys0" and "list_all (\<lambda>w. shared w \<and> ids_safe w) (snd sys0)"
  shows "sys_inv jsonl_usable jsonl_stored lib sk ring sgs sys \<and> list_all (\<lambda>w. shared w \<and> ids_safe w) (snd sys) \<and>
    (\<exists>new. jsonl_stored (fst sys) = jsonl_stored (fst sys0) @ new)"
  using assms
proof (induction rule: log_reachable.induct)
  case (step sys sys')
  then have inv: "sys_inv jsonl_usable jsonl_stored lib sk ring sgs sys" "list_all (\<lambda>w. shared w \<and> ids_safe w) (snd sys)"
    "\<exists>new. jsonl_stored (fst sys) = jsonl_stored (fst sys0) @ new" by simp_all
  from jsonl_step_inv [OF step.hyps(2) inv(1,2)] inv(3) show ?case by force
qed simp

lemma valid_chain_report:
  assumes "valid_chain lib sk ring sgs rs"
  shows "\<exists>rep. verify_chain lib rs sk None ring None sgs = Inr rep \<and> ok rep \<and> records_checked rep = int (length rs)"
proof -
  obtain mroot where "merkle_root (map hash rs) = Inr mroot" using valid_merkle_root [OF assms] .
  with assms verify_chain_ok [of lib rs sk None ring None sgs "ok_report sgs rs mroot"] show ?thesis
    by (auto simp: anchored_def ok_report_def)
qed

lemma jsonl_stored_None [simp]: "jsonl_usable None" "jsonl_stored None = []"
proof -
  show "jsonl_usable None" unfolding jsonl_usable_def
    by (rule exI [of _ "[]"]) (simp add: contents_def jsonl_file_def file_of_def)
  show "jsonl_stored None = []" by (simp add: jsonl_stored_def jsonl_load_def)
qed

text \<open>C1: Several writers, each an \<open>AuditLog\<close> with a lock on the same JSONL file, that join, append,
  append batches, rotate keys, read and close in any order, with records that are refused among
  them, keep one chain: at any time the file can be read, its records begin with those of every earlier
  time, and they verify with the keys of the verifier.\<close>

theorem shared_file_verifies:
  assumes "log_reachable lib (jsonl_ops exn_str path) (jsonl_allowed ring) (jsonl_writer lib sk ring sgs)
      (None, []) (f, ws)"
    and "log_reachable lib (jsonl_ops exn_str path) (jsonl_allowed ring) (jsonl_writer lib sk ring sgs)
      (f, ws) (f', ws')"
  shows "\<exists>rs new rep. jsonl_load exn_str path f = (Inr rs, f) \<and> jsonl_load exn_str path f' = (Inr (rs @ new), f') \<and>
    verify_chain lib (rs @ new) sk None ring None sgs = Inr rep \<and> ok rep \<and>
    records_checked rep = int (length (rs @ new))"
proof -
  have "sys_inv jsonl_usable jsonl_stored lib sk ring sgs (None, [])" by (simp add: sys_inv_def)
  from jsonl_reachable_inv [OF assms(1) this] have 1: "sys_inv jsonl_usable jsonl_stored lib sk ring sgs (f, ws)"
    "list_all (\<lambda>w. shared w \<and> ids_safe w) ws" by simp_all
  with jsonl_reachable_inv [OF assms(2)] obtain new where
    2: "jsonl_usable f'" "valid_chain lib sk ring sgs (jsonl_stored f')" "jsonl_stored f' = jsonl_stored f @ new"
    by (auto simp: sys_inv_def)
  from 1(1) have "jsonl_usable f" by (simp add: sys_inv_def)
  from jsonl_usable_load(1) [OF this] jsonl_usable_load(1) [OF 2(1)] have
    "jsonl_load exn_str path f = (Inr (jsonl_stored f), f)" "jsonl_load exn_str path f' = (Inr (jsonl_stored f'), f')"
    by simp_all
  with valid_chain_report [OF 2(2)] 2(3) show ?thesis by metis
qed

text \<open>A writer for the examples, and an entry it appends.\<close>

definition demo_log :: "'s \<Rightarrow> lock \<Rightarrow> 's audit_log" where
  "demo_log s lk =
     \<lparr>store = s, log_seal_key = Some (replicate 16 1), log_key_id = ''k0'', log_signing_key = Some sample_seed,
      log_signer_id = ''s0'', log_keyring = [(''k0'', replicate 16 1)], log_lock = lk, log_last = None,
      log_inited = False\<rparr>"

definition demo_ring :: keyring where "demo_ring = [(''k0'', replicate 16 1)]"

definition demo_signers :: signers where
  "demo_signers = [(''s0'', PublicKey (public_key_of demo_ed25519 sample_seed))]"

definition demo_append :: log_op where
  "demo_append = Append ''alice'' ''login'' [] None (Some ''2026-01-01T00:00:00.000000Z'') []"

lemma demo_writer_ok:
  "writer_ok demo_ed25519 (Some (replicate 16 1)) (Some demo_ring) (Some demo_signers) (demo_log s lk)"
  using demo_ed25519_ok load_own_keys(3) [OF demo_ed25519_ok length_sample_seed]
  by (simp add: writer_ok_def demo_log_def demo_ring_def demo_signers_def is_ascii_no_surrogate)

lemma demo_jsonl_writer:
  "jsonl_writer demo_ed25519 (Some (replicate 16 1)) (Some demo_ring) (Some demo_signers) (demo_log s (FileLock p))"
  using demo_writer_ok by (simp add: jsonl_writer_def shared_def ids_safe_def string_safe_ascii demo_log_def)

lemma demo_allowed: "jsonl_allowed (Some demo_ring) demo_append"
  by (simp add: jsonl_allowed_def demo_append_def op_safe_def op_ok_def entry_safe_def or_empty_def or_now_def
      string_safe_ascii wf_dict texts_ok_dict)

theorem shared_file_verifies_witness:
  "\<exists>f rs rep. f = fst (write_as demo_ed25519 (jsonl_ops (\<lambda>_. []) ''log'') demo_append 1
       (write_as demo_ed25519 (jsonl_ops (\<lambda>_. []) ''log'') demo_append 0
         (None, [demo_log None (FileLock ''lock''), demo_log None (FileLock ''lock'')]))) \<and>
     jsonl_load (\<lambda>_. []) ''log'' f = (Inr rs, f) \<and>
     verify_chain demo_ed25519 rs (Some (replicate 16 1)) None (Some demo_ring) None (Some demo_signers) = Inr rep \<and>
     ok rep"
proof -
  let ?ops = "jsonl_ops (\<lambda>_. []) ''log''" and ?w = "demo_log None (FileLock ''lock'')"
  let ?reach = "log_reachable demo_ed25519 ?ops (jsonl_allowed (Some demo_ring))
    (jsonl_writer demo_ed25519 (Some (replicate 16 1)) (Some demo_ring) (Some demo_signers))"
  have join: "log_step demo_ed25519 ?ops (jsonl_allowed (Some demo_ring))
      (jsonl_writer demo_ed25519 (Some (replicate 16 1)) (Some demo_ring) (Some demo_signers)) (None, ws) (None, ws @ [?w])" for ws
    by (rule log_step.join) (simp_all add: demo_jsonl_writer, simp add: demo_log_def)
  have r1: "?reach (None, []) (None, [?w, ?w])"
    using log_reachable.step [OF log_reachable.step [OF log_reachable.start join [of "[]", simplified]]
      join [of "[?w]", simplified]] .
  let ?one = "write_as demo_ed25519 ?ops demo_append 0 (None, [?w, ?w])"
  let ?two = "write_as demo_ed25519 ?ops demo_append 1 ?one"
  have act: "log_step demo_ed25519 ?ops (jsonl_allowed (Some demo_ring))
      (jsonl_writer demo_ed25519 (Some (replicate 16 1)) (Some demo_ring) (Some demo_signers)) sys
      (write_as demo_ed25519 ?ops demo_append i sys)" if "i < length (snd sys)" for i sys
    using that demo_allowed by (rule log_step.act)
  have "0 < length (snd (None :: disk_file, [?w, ?w]))" by simp
  note 1 = act [OF this]
  have "1 < length (snd ?one)" by (simp add: write_as_def Let_def)
  note 2 = act [OF this]
  have "?reach (None, [?w, ?w]) ?two" by (rule log_reachable.step [OF log_reachable.step [OF log_reachable.start 1] 2])
  then have r2: "?reach (None, [?w, ?w]) (fst ?two, snd ?two)" by simp
  from shared_file_verifies [OF r1 r2] show ?thesis
    by (elim exE conjE) (rule exI, rule exI, rule exI, rule conjI, rule refl, intro conjI, assumption+)
qed

end
