(* ===== verification/Timestamps.thy ===== *)
theory Timestamps
  imports Shared_Log
begin

text \<open>
  \<open>_utcnow\<close> in \<open>log.py\<close> and \<open>_iso_from_created\<close> in \<open>handlers.py\<close>: the text of a time stamp, with what they use of
  \<open>datetime\<close>. A moment is a number of microseconds since 1970 (\<open>datetime.now\<close> and \<open>fromtimestamp\<close> round the clock to
  whole ones); the calendar is computed as in CPython's \<open>datetime\<close>, which ends with the year 9999.
\<close>

section \<open>The calendar\<close>

record moment =
  year :: int
  month :: int
  day :: int
  hour :: int
  minute :: int
  second :: int
  microsecond :: int

definition month_lengths :: "int list" where
  "month_lengths = [31, 28, 31, 30, 31, 30, 31, 31, 30, 31, 30, 31]"

definition month_starts :: "int list" where
  "month_starts = [0, 31, 59, 90, 120, 151, 181, 212, 243, 273, 304, 334]"

definition month_length :: "bool \<Rightarrow> int \<Rightarrow> int" where
  "month_length leap m = month_lengths ! nat (m - 1) + (if leap \<and> m = 2 then 1 else 0)"

definition before_month :: "bool \<Rightarrow> int \<Rightarrow> int" where
  "before_month leap m = month_starts ! nat (m - 1) + (if leap \<and> 2 < m then 1 else 0)"

text \<open>The month and day of the day \<open>n\<close> of a year, counted from 0: an estimate of the month, corrected once.\<close>

definition month_day :: "bool \<Rightarrow> int \<Rightarrow> int \<times> int" where
  "month_day leap n =
     (let m = (n + 50) div 32; preceding = before_month leap m
      in if preceding > n
         then (m - 1, n - (preceding - month_length leap (m - 1)) + 1)
         else (m, n - preceding + 1))"

text \<open>The date of an ordinal; day 1 is the first of January of the year 1.\<close>

definition date_of :: "int \<Rightarrow> int \<times> int \<times> int" where
  "date_of ordinal =
     (let n = ordinal - 1;
          n400 = n div 146097; n = n mod 146097;
          n100 = n div 36524; n = n mod 36524;
          n4 = n div 1461; n = n mod 1461;
          n1 = n div 365; n = n mod 365;
          y = n400 * 400 + 1 + n100 * 100 + n4 * 4 + n1
      in if n1 = 4 \<or> n100 = 4 then (y - 1, 12, 31)
         else (y, month_day (n1 = 3 \<and> (n4 \<noteq> 24 \<or> n100 = 3)) n))"

definition moment_of :: "int \<Rightarrow> moment result" where
  "moment_of us =
     (let secs = us div 1000000;
          (y, m, d) = date_of (719163 + secs div 86400)
      in if y < 1 \<or> 9999 < y then Inl (ValueError (''year '' @ dec_int y @ '' is out of range''))
         else Inr \<lparr>year = y, month = m, day = d, hour = secs div 3600 mod 24, minute = secs div 60 mod 60,
                   second = secs mod 60, microsecond = us mod 1000000\<rparr>)"

section \<open>The text\<close>

text \<open>A number in a field of fixed width.\<close>

fun digits :: "nat \<Rightarrow> int \<Rightarrow> string" where
  "digits 0 n = []"
| "digits (Suc k) n = digits k (n div 10) @ [dec_digit (nat (n mod 10))]"

definition time_text :: "moment \<Rightarrow> string" where
  "time_text d =
     digits 2 (month d) @ ''-'' @ digits 2 (day d) @ ''T'' @ digits 2 (hour d) @ '':'' @ digits 2 (minute d) @ '':'' @
     digits 2 (second d) @ ''.'' @ digits 6 (microsecond d)"

text \<open>\<open>isoformat(timespec="microseconds")\<close> of a moment in UTC, and \<open>strftime("%Y-%m-%dT%H:%M:%S.%f")\<close>, which does not
  pad the year.\<close>

definition isoformat :: "moment \<Rightarrow> string" where
  "isoformat d = digits 4 (year d) @ ''-'' @ time_text d @ ''+00:00''"

definition strftime :: "moment \<Rightarrow> string" where
  "strftime d = dec_int (year d) @ ''-'' @ time_text d"

text \<open>\<open>str.replace\<close>\<close>

function replace_text :: "string \<Rightarrow> string \<Rightarrow> string \<Rightarrow> string" where
  "replace_text old new [] = []"
| "replace_text old new (c # s) =
     (case strip_prefix old (c # s) of
        Some r \<Rightarrow> if old = [] then c # s else new @ replace_text old new r
      | None \<Rightarrow> c # replace_text old new s)"
  by pat_completeness auto
termination
  by (relation "measure (\<lambda>(old, new, s). length s)") (auto simp: strip_prefix_Some neq_Nil_conv)

definition utcnow :: "int \<Rightarrow> string result" where
  "utcnow us = bindE (moment_of us) (\<lambda>d. Inr (replace_text ''+00:00'' ''Z'' (isoformat d)))"

definition iso_from_created :: "int \<Rightarrow> string result" where
  "iso_from_created us = bindE (moment_of us) (\<lambda>d. Inr (strftime d @ ''Z''))"

end
