(* ===== verification/Timestamps_Properties.thy ===== *)
theory Timestamps_Properties
  imports Timestamps
begin

text \<open>
  The dates that \<open>date_of\<close> computes are those of the Gregorian calendar (\<open>date_of_correct\<close>), in the order of the days
  (\<open>date_of_mono\<close>); hence time stamps sort like the moments they stand for.
\<close>

section \<open>Dates and their ordinals\<close>

definition leap :: "int \<Rightarrow> bool" where
  "leap y \<longleftrightarrow> y mod 4 = 0 \<and> (y mod 100 \<noteq> 0 \<or> y mod 400 = 0)"

definition before_year :: "int \<Rightarrow> int" where
  "before_year y = (y - 1) * 365 + (y - 1) div 4 - (y - 1) div 100 + (y - 1) div 400"

definition valid_date :: "int \<Rightarrow> int \<Rightarrow> int \<Rightarrow> bool" where
  "valid_date y m d \<longleftrightarrow> 1 \<le> m \<and> m \<le> 12 \<and> 1 \<le> d \<and> d \<le> month_length (leap y) m"

definition ordinal :: "int \<Rightarrow> int \<Rightarrow> int \<Rightarrow> int" where
  "ordinal y m d = before_year y + before_month (leap y) m + d"

definition day_of_year_ok :: "bool \<Rightarrow> int \<Rightarrow> bool" where
  "day_of_year_ok b n =
     (case month_day b n of (m, d) \<Rightarrow>
        1 \<le> m \<and> m \<le> 12 \<and> 1 \<le> d \<and> d \<le> month_length b m \<and> before_month b m + d = n + 1)"

lemma month_day_table: "list_all (day_of_year_ok True) [0..365]" "list_all (day_of_year_ok False) [0..364]"
  by code_simp+

lemma month_day_correct:
  assumes "0 \<le> n" and "n < 365 \<or> b \<and> n = 365" and "month_day b n = (m, d)"
  shows "1 \<le> m \<and> m \<le> 12 \<and> 1 \<le> d \<and> d \<le> month_length b m \<and> before_month b m + d = n + 1"
proof -
  have "day_of_year_ok b n"
    using month_day_table [unfolded list_all_iff] assms(1,2) by (cases b) auto
  with assms(3) show ?thesis by (simp add: day_of_year_ok_def)
qed

text \<open>The parts of a day count: centuries, four-year groups, years and days.\<close>

lemma date_parts:
  fixes N :: int
  defines "b \<equiv> N mod 146097 div 36524" and "c \<equiv> N mod 146097 mod 36524 div 1461"
    and "e \<equiv> N mod 146097 mod 36524 mod 1461 div 365" and "r \<equiv> N mod 146097 mod 36524 mod 1461 mod 365"
  shows "N = 146097 * (N div 146097) + 36524 * b + 1461 * c + 365 * e + r"
    "0 \<le> b \<and> b \<le> 4 \<and> 0 \<le> c \<and> c \<le> 24 \<and> 0 \<le> e \<and> e \<le> 4 \<and> 0 \<le> r \<and> r < 365"
    "b = 4 \<Longrightarrow> c = 0 \<and> e = 0 \<and> r = 0" "e = 4 \<Longrightarrow> r = 0 \<and> c < 24"
proof -
  let ?x = "N mod 146097" and ?y = "N mod 146097 mod 36524" and ?z = "N mod 146097 mod 36524 mod 1461"
  have x: "N = 146097 * (N div 146097) + ?x" "0 \<le> ?x" "?x < 146097" by simp_all
  have y: "?x = 36524 * b + ?y" "0 \<le> ?y" "?y < 36524" by (simp_all add: b_def)
  have z: "?y = 1461 * c + ?z" "0 \<le> ?z" "?z < 1461" by (simp_all add: c_def)
  have r: "?z = 365 * e + r" "0 \<le> r" "r < 365" by (simp_all add: e_def r_def)
  show "N = 146097 * (N div 146097) + 36524 * b + 1461 * c + 365 * e + r" using x(1) y(1) z(1) r(1) by linarith
  have bounds: "0 \<le> b" "b \<le> 4" "0 \<le> c" "c \<le> 24" "0 \<le> e" "e \<le> 4"
    using x(2,3) y z r by linarith+
  then show "0 \<le> b \<and> b \<le> 4 \<and> 0 \<le> c \<and> c \<le> 24 \<and> 0 \<le> e \<and> e \<le> 4 \<and> 0 \<le> r \<and> r < 365" using r by simp
  show "c = 0 \<and> e = 0 \<and> r = 0" if "b = 4"
  proof -
    have "?y = 0" using that x(3) y by linarith
    then have "c = 0 \<and> ?z = 0" using z bounds(3) by linarith
    then show ?thesis using r bounds(5) by linarith
  qed
  show "r = 0 \<and> c < 24" if "e = 4"
  proof
    show "r = 0" using that z r by linarith
    show "c < 24" using that y(3) z r by linarith
  qed
qed

lemma year_parts:
  fixes a :: int
  assumes "0 \<le> b" "b \<le> 3" and "0 \<le> c" "c \<le> 24" and "0 \<le> e" "e \<le> 3"
  shows "before_year (400 * a + 100 * b + 4 * c + e + 1) = 146097 * a + 36524 * b + 1461 * c + 365 * e"
    and "leap (400 * a + 100 * b + 4 * c + e + 1) \<longleftrightarrow> e = 3 \<and> (c \<noteq> 24 \<or> b = 3)"
proof -
  let ?p = "400 * a + 100 * b + 4 * c + e"
  have "?p div 4 = 100 * a + 25 * b + c" by (rule int_div_pos_eq [where r = e]) (use assms in simp_all)
  moreover have "?p div 100 = 4 * a + b" by (rule int_div_pos_eq [where r = "4 * c + e"]) (use assms in simp_all)
  moreover have "?p div 400 = a" by (rule int_div_pos_eq [where r = "100 * b + 4 * c + e"]) (use assms in simp_all)
  ultimately show "before_year (?p + 1) = 146097 * a + 36524 * b + 1461 * c + 365 * e" by (simp add: before_year_def)
  have "(?p + 1) mod 4 = (if e = 3 then 0 else e + 1)"
    by (rule int_mod_pos_eq [where q = "100 * a + 25 * b + c + (if e = 3 then 1 else 0)"]) (use assms in auto)
  moreover have "(?p + 1) mod 100 = (if c = 24 \<and> e = 3 then 0 else 4 * c + e + 1)"
    by (rule int_mod_pos_eq [where q = "4 * a + b + (if c = 24 \<and> e = 3 then 1 else 0)"]) (use assms in auto)
  moreover have "(?p + 1) mod 400 = (if b = 3 \<and> c = 24 \<and> e = 3 then 0 else 100 * b + 4 * c + e + 1)"
    by (rule int_mod_pos_eq [where q = "a + (if b = 3 \<and> c = 24 \<and> e = 3 then 1 else 0)"]) (use assms in auto)
  ultimately show "leap (?p + 1) \<longleftrightarrow> e = 3 \<and> (c \<noteq> 24 \<or> b = 3)"
    using assms by (auto simp: leap_def split: if_splits)
qed


lemma date_of_correct:
  assumes "date_of n = (y, m, d)"
  shows "valid_date y m d" and "ordinal y m d = n"
proof -
  define N a b c e r where parts: "N = n - 1" "a = N div 146097" "b = N mod 146097 div 36524"
    "c = N mod 146097 mod 36524 div 1461" "e = N mod 146097 mod 36524 mod 1461 div 365"
    "r = N mod 146097 mod 36524 mod 1461 mod 365"
  note facts = date_parts [of N, folded parts]
  have date: "date_of n =
    (if e = 4 \<or> b = 4 then (a * 400 + 1 + b * 100 + c * 4 + e - 1, 12, 31)
     else (a * 400 + 1 + b * 100 + c * 4 + e, month_day (e = 3 \<and> (c \<noteq> 24 \<or> b = 3)) r))"
    by (simp add: date_of_def Let_def parts)
  have "valid_date y m d \<and> ordinal y m d = n"
  proof (cases "e = 4 \<or> b = 4")
    case True
    define b' c' where prev: "b' = (if b = 4 then 3 else b)" "c' = (if b = 4 then 24 else c)"
    have y: "y = 400 * a + 100 * b' + 4 * c' + 3 + 1" "m = 12" "d = 31"
      using True assms date facts(3) by (auto simp: prev)
    have "0 \<le> b'" "b' \<le> 3" "0 \<le> c'" "c' \<le> 24" "c' \<noteq> 24 \<or> b' = 3"
      using True facts(2,3,4) by (auto simp: prev)
    with year_parts [of b' c' 3 a] True facts y show ?thesis
      by (auto simp: valid_date_def ordinal_def month_length_def before_month_def month_lengths_def month_starts_def prev
          parts(1) split: if_splits)
  next
    case False
    then have y: "y = 400 * a + 100 * b + 4 * c + e + 1" and md: "month_day (e = 3 \<and> (c \<noteq> 24 \<or> b = 3)) r = (m, d)"
      using assms date by simp_all
    have "0 \<le> b" "b \<le> 3" "0 \<le> c" "c \<le> 24" "0 \<le> e" "e \<le> 3" using False facts(2) by auto
    note year = year_parts [OF this, of a]
    from month_day_correct [OF _ _ md] facts(2) year facts(1) show ?thesis
      by (simp add: valid_date_def ordinal_def y parts(1))
  qed
  then show "valid_date y m d" "ordinal y m d = n" by simp_all
qed

text \<open>Later dates have greater ordinals.\<close>

definition earlier :: "int \<times> int \<times> int \<Rightarrow> int \<times> int \<times> int \<Rightarrow> bool" where
  "earlier p q \<longleftrightarrow>
     (case (p, q) of ((y, m, d), (y', m', d')) \<Rightarrow> y < y' \<or> y = y' \<and> (m < m' \<or> m = m' \<and> d < d'))"

lemma div_step:
  fixes k :: int
  assumes "0 < k"
  shows "y div k = (y - 1) div k + (if y mod k = 0 then 1 else 0)"
proof -
  let ?q = "(y - 1) div k" and ?r = "(y - 1) mod k"
  have y: "y = k * ?q + (?r + 1)" by simp
  have r: "0 \<le> ?r" "?r < k" using assms by simp_all
  show ?thesis
  proof (cases "?r + 1 = k")
    case True
    with y have "y = k * ?q + k" by linarith
    then have "y = k * (?q + 1) + 0" by (simp add: distrib_left)
    with assms have "y div k = ?q + 1" "y mod k = 0"
      by (intro int_div_pos_eq [of y k _ 0] int_mod_pos_eq [of y k "?q + 1"]; simp)+
    then show ?thesis by simp
  next
    case False
    with r have "y div k = ?q" "y mod k = ?r + 1"
      by (intro int_div_pos_eq [OF y] int_mod_pos_eq [OF y]; simp)+
    with r show ?thesis by simp
  qed
qed

lemma before_year_step: "before_year (y + 1) = before_year y + 365 + (if leap y then 1 else 0)"
proof -
  have "y mod 400 = 0 \<Longrightarrow> y mod 100 = 0" "y mod 100 = 0 \<Longrightarrow> y mod 4 = 0"
    unfolding mod_eq_0_iff_dvd by (erule dvd_trans [rotated], simp)+
  note multiples = this
  have choice: "x + (if A then 1 else 0) - (if B then 1 else 0) + (if C then 1 else 0) = x + (if A \<and> (\<not> B \<or> C) then 1 else 0)"
    if "C \<Longrightarrow> B" "B \<Longrightarrow> A" for x :: int and A B C
    using that by (cases A; cases B; cases C; simp)
  have sum: "y * 365 + a - b + c = (y - 1) * 365 + a' - b' + c' + 365 + i - j + k"
    if "a = a' + i" "b = b' + j" "c = c' + k" for a b c a' b' c' i j k :: int
    using that by simp
  have "before_year (y + 1) = y * 365 + y div 4 - y div 100 + y div 400" by (simp add: before_year_def)
  also have "\<dots> = before_year y + 365 + (if y mod 4 = 0 then 1 else 0) - (if y mod 100 = 0 then 1 else 0) +
      (if y mod 400 = 0 then 1 else 0)"
    unfolding before_year_def by (rule sum; rule div_step) simp_all
  also have "\<dots> = before_year y + 365 + (if leap y then 1 else 0)"
    unfolding leap_def by (rule choice) (rule multiples, assumption)+
  finally show ?thesis .
qed

lemma before_year_mono: "y \<le> y' \<Longrightarrow> before_year y \<le> before_year y'"
proof (induction y' rule: int_ge_induct)
  case (step y')
  then show ?case using before_year_step [of y'] by (simp split: if_splits)
qed simp

definition months_ok :: "bool \<Rightarrow> bool" where
  "months_ok b \<longleftrightarrow>
     list_all (\<lambda>m. before_month b m + month_length b m \<le> (if b then 366 else 365) \<and> 0 \<le> before_month b m \<and> month_length b m \<le> 31 \<and>
       list_all (\<lambda>m'. m < m' \<longrightarrow> before_month b m + month_length b m \<le> before_month b m') [1..12]) [1..12]"

lemma months_table: "months_ok True" "months_ok False"
  by code_simp+

lemma month_bounds:
  assumes "1 \<le> m" and "m \<le> 12"
  shows "before_month b m + month_length b m \<le> (if b then 366 else 365)" "0 \<le> before_month b m" "month_length b m \<le> 31"
    and "m < m' \<Longrightarrow> m' \<le> 12 \<Longrightarrow> before_month b m + month_length b m \<le> before_month b m'"
proof -
  have "months_ok b" using months_table by (cases b) simp_all
  then have "\<forall>m \<in> {1..12}. before_month b m + month_length b m \<le> (if b then 366 else 365) \<and> 0 \<le> before_month b m \<and>
      month_length b m \<le> 31 \<and> (\<forall>m' \<in> {1..12}. m < m' \<longrightarrow> before_month b m + month_length b m \<le> before_month b m')"
    unfolding months_ok_def list_all_iff set_upto .
  with assms show "before_month b m + month_length b m \<le> (if b then 366 else 365)" "0 \<le> before_month b m" "month_length b m \<le> 31"
    "m < m' \<Longrightarrow> m' \<le> 12 \<Longrightarrow> before_month b m + month_length b m \<le> before_month b m'" by auto
qed

lemma ordinal_mono:
  assumes "valid_date y m d" and "valid_date y' m' d'" and "earlier (y, m, d) (y', m', d')"
  shows "ordinal y m d < ordinal y' m' d'"
proof -
  have m: "1 \<le> m" "m \<le> 12" "d \<le> month_length (leap y) m" "1 \<le> m'" "m' \<le> 12" "1 \<le> d'"
    using assms(1,2) by (simp_all add: valid_date_def)
  from assms(3) consider "y < y'" | "y = y'" "m < m'" | "y = y'" "m = m'" "d < d'"
    by (auto simp: earlier_def)
  then show ?thesis
  proof cases
    case 1
    then have "before_year (y + 1) \<le> before_year y'" by (intro before_year_mono) simp
    with m month_bounds(1) [OF m(1,2), of "leap y"] month_bounds(2) [OF m(4,5), of "leap y'"] show ?thesis
      by (simp add: ordinal_def before_year_step split: if_splits)
  next
    case 2
    with m month_bounds(4) [OF m(1,2), of m' "leap y"] show ?thesis by (simp add: ordinal_def)
  next
    case 3
    then show ?thesis by (simp add: ordinal_def)
  qed
qed

lemma date_of_mono:
  assumes "n < n'"
  shows "earlier (date_of n) (date_of n')"
proof -
  obtain y m d y' m' d' where d: "date_of n = (y, m, d)" "date_of n' = (y', m', d')" by (metis prod_cases3)
  note v = date_of_correct [OF d(1)] date_of_correct [OF d(2)]
  show ?thesis
  proof (rule ccontr)
    assume "\<not> ?thesis"
    then have "earlier (y', m', d') (y, m, d) \<or> (y', m', d') = (y, m, d)" by (auto simp: d earlier_def)
    with ordinal_mono [OF v(3,1)] v(2,4) assms show False by auto
  qed
qed


section \<open>Fields and their order\<close>

text \<open>Strings are compared character by character.\<close>

definition before_char :: "(char \<times> char) set" where
  "before_char = {(c, d). (of_char c :: nat) < of_char d}"

definition sorts_before :: "string \<Rightarrow> string \<Rightarrow> bool" where
  "sorts_before s t \<longleftrightarrow> (s, t) \<in> lexord before_char"

lemma length_digits [simp]: "length (digits k n) = k"
  by (induction k arbitrary: n) simp_all

lemma digits_digits: "list_all is_digit (digits k n)"
  by (induction k arbitrary: n) (simp_all add: dec_digit_facts(1) nat_less_iff)

lemma sorts_append: "sorts_before s t \<Longrightarrow> length s = length t \<Longrightarrow> sorts_before (s @ u) (t @ v)"
  unfolding sorts_before_def by (rule lexord_sufI) simp_all

lemma sorts_same: "sorts_before u v \<Longrightarrow> sorts_before (s @ u) (s @ v)"
  unfolding sorts_before_def by (rule lexord_append_leftI)

lemma dec_digit_order: "n < m \<Longrightarrow> m < 10 \<Longrightarrow> sorts_before [dec_digit n] [dec_digit m]"
  using less_10_cases [of m] less_10_cases [of n]
  by (auto simp: sorts_before_def before_char_def dec_digit_def)

lemma digits_order:
  assumes "0 \<le> n" and "n < m" and "m < 10 ^ k"
  shows "sorts_before (digits k n) (digits k m)"
  using assms
proof (induction k arbitrary: n m)
  case (Suc k)
  show ?case
  proof (cases "n div 10 = m div 10")
    case True
    then have "n mod 10 < m mod 10" using Suc.prems(2) by (metis div_mult_mod_eq add_less_cancel_left)
    then have "nat (n mod 10) < nat (m mod 10)" "nat (m mod 10) < 10" by (simp_all add: nat_less_iff)
    then have "sorts_before [dec_digit (nat (n mod 10))] [dec_digit (nat (m mod 10))]"
      by (rule dec_digit_order)
    with True show ?thesis by (simp add: sorts_same)
  next
    case False
    then have "n div 10 < m div 10" using Suc.prems(2) zdiv_mono1 [of n m 10] by linarith
    moreover have "m div 10 < 10 ^ k" using Suc.prems(3) by simp
    ultimately have "sorts_before (digits k (n div 10)) (digits k (m div 10))"
      using Suc.prems(1) by (intro Suc.IH) simp_all
    then show ?thesis by (simp add: sorts_append)
  qed
qed simp


section \<open>Time stamps\<close>

text \<open>A moment before the year 10000, by its fields.\<close>

lemma moment_of_Inr:
  assumes "moment_of us = Inr d"
  shows "date_of (719163 + us div 86400000000) = (year d, month d, day d)" "1 \<le> year d" "year d \<le> 9999"
    "hour d = us div 3600000000 mod 24" "minute d = us div 60000000 mod 60" "second d = us div 1000000 mod 60"
    "microsecond d = us mod 1000000"
  using assms by (auto simp: moment_of_def Let_def zdiv_zmult2_eq [symmetric] split: prod.splits if_splits)

definition fields :: "moment \<Rightarrow> int list" where
  "fields d = [year d, month d, day d, hour d, minute d, second d, microsecond d]"

lemma moment_bounds:
  assumes "moment_of us = Inr d"
  shows "1 \<le> month d" "month d \<le> 12" "1 \<le> day d" "day d \<le> 31" "0 \<le> hour d" "hour d < 24" "0 \<le> minute d" "minute d < 60"
    "0 \<le> second d" "second d < 60" "0 \<le> microsecond d" "microsecond d < 1000000"
proof -
  note f = moment_of_Inr [OF assms]
  have "valid_date (year d) (month d) (day d)" by (rule date_of_correct(1) [OF f(1)])
  then show "1 \<le> month d" "month d \<le> 12" "1 \<le> day d" "day d \<le> 31"
    using month_bounds(3) [of "month d" "leap (year d)"] by (auto simp: valid_date_def)
qed (simp_all add: moment_of_Inr [OF assms])

text \<open>The time of day, by its parts.\<close>

lemma day_parts:
  fixes us :: int
  shows "us = us div 86400000000 * 86400000000 + us div 3600000000 mod 24 * 3600000000 +
    us div 60000000 mod 60 * 60000000 + us div 1000000 mod 60 * 1000000 + us mod 1000000"
proof -
  have "us div 1000000 = us div 60000000 * 60 + us div 1000000 mod 60"
    "us div 60000000 = us div 3600000000 * 60 + us div 60000000 mod 60"
    "us div 3600000000 = us div 86400000000 * 24 + us div 3600000000 mod 24"
    using zdiv_zmult2_eq [of 60 us 1000000] zdiv_zmult2_eq [of 60 us 60000000] zdiv_zmult2_eq [of 24 us 3600000000] by simp_all
  moreover have "us = us div 1000000 * 1000000 + us mod 1000000" by simp
  ultimately show ?thesis by linarith
qed

lemma clock_order:
  fixes h :: int
  assumes "h * 3600000000 + i * 60000000 + j * 1000000 + k < h' * 3600000000 + i' * 60000000 + j' * 1000000 + k'"
    and "0 \<le> i" "i < 60" "0 \<le> i'" "i' < 60" "0 \<le> j" "j < 60" "0 \<le> j'" "j' < 60" "0 \<le> k" "k < 1000000"
    and "0 \<le> k'" "k' < 1000000"
  shows "h < h' \<or> h = h' \<and> (i < i' \<or> i = i' \<and> (j < j' \<or> j = j' \<and> k < k'))"
proof -
  have "h \<le> h'" using assms by linarith
  moreover have "i \<le> i'" if "h = h'" using assms that by linarith
  moreover have "j \<le> j'" if "h = h'" "i = i'" using assms that by linarith
  moreover have "k < k'" if "h = h'" "i = i'" "j = j'" using assms(1) that by linarith
  ultimately show ?thesis by (meson order.order_iff_strict)
qed

lemma fields_order:
  assumes "moment_of us = Inr d" and "moment_of us' = Inr d'" and "us < us'"
  shows "(fields d, fields d') \<in> lexord {(x, y). x < y}"
proof -
  note f = moment_of_Inr [OF assms(1)] and f' = moment_of_Inr [OF assms(2)]
  let ?day = "us div 86400000000" and ?day' = "us' div 86400000000"
  have "?day \<le> ?day'" using assms(3) by (simp add: zdiv_mono1)
  then consider "?day < ?day'" | "?day = ?day'" by linarith
  then show ?thesis
  proof cases
    case 1
    then have "earlier (year d, month d, day d) (year d', month d', day d')"
      using date_of_mono [of "719163 + ?day" "719163 + ?day'"] f(1) f'(1) by simp
    then show ?thesis by (auto simp: earlier_def fields_def)
  next
    case 2
    then have "(year d, month d, day d) = (year d', month d', day d')" using f(1) f'(1) by simp
    moreover have "hour d < hour d' \<or> hour d = hour d' \<and> (minute d < minute d' \<or> minute d = minute d' \<and>
        (second d < second d' \<or> second d = second d' \<and> microsecond d < microsecond d'))"
    proof (rule clock_order)
      show "hour d * 3600000000 + minute d * 60000000 + second d * 1000000 + microsecond d <
        hour d' * 3600000000 + minute d' * 60000000 + second d' * 1000000 + microsecond d'"
        using day_parts [of us, folded f(4-7)] day_parts [of us', folded f'(4-7)] 2 assms(3) by linarith
    qed (use moment_bounds [OF assms(1)] moment_bounds [OF assms(2)] in simp_all)
    ultimately show ?thesis by (auto simp: fields_def)
  qed
qed

text \<open>A text of fields of fixed width, with a separator after each.\<close>

fun field_text :: "(nat \<times> char) list \<Rightarrow> int list \<Rightarrow> string" where
  "field_text ((k, c) # ws) (n # ns) = digits k n @ c # field_text ws ns"
| "field_text _ _ = []"

definition stamp_shape :: "(nat \<times> char) list" where
  "stamp_shape = [(4, CHR ''-''), (2, CHR ''-''), (2, CHR ''T''), (2, CHR '':''), (2, CHR '':''), (2, CHR ''.''), (6, CHR ''Z'')]"

lemma field_order:
  "(ns, ms) \<in> lexord {(x, y). x < y} \<Longrightarrow> length ns = length ms \<Longrightarrow> length ws = length ns \<Longrightarrow>
   list_all2 (\<lambda>(k, c) n. 0 \<le> n \<and> n < 10 ^ k) ws ns \<Longrightarrow> list_all2 (\<lambda>(k, c) n. 0 \<le> n \<and> n < 10 ^ k) ws ms \<Longrightarrow>
   sorts_before (field_text ws ns) (field_text ws ms)"
proof (induction ws arbitrary: ns ms)
  case (Cons w ws)
  obtain k c where w: "w = (k, c)" by (cases w)
  from Cons.prems(2,3) obtain n ns' m ms' where ns: "ns = n # ns'" "ms = m # ms'"
    by (cases ns; cases ms) auto
  from Cons.prems(1) consider "n < m" | "n = m" "(ns', ms') \<in> lexord {(x, y). x < y}" by (auto simp: ns)
  then show ?case
  proof cases
    case 1
    then have "sorts_before (digits k n) (digits k m)" using Cons.prems(4,5) by (intro digits_order) (simp_all add: ns w)
    then show ?thesis by (simp add: ns w sorts_append)
  next
    case 2
    then have "sorts_before (field_text ws ns') (field_text ws ms')" using Cons.prems by (intro Cons.IH) (simp_all add: ns w)
    then have "sorts_before ((digits k n @ [c]) @ field_text ws ns') ((digits k n @ [c]) @ field_text ws ms')" by (rule sorts_same)
    then show ?thesis using 2(1) by (simp add: ns w)
  qed
qed simp


lemma replace_suffix:
  "CHR ''+'' \<notin> set s \<Longrightarrow> replace_text ''+00:00'' ''Z'' (s @ ''+00:00'') = s @ ''Z''"
proof (induction s)
  case (Cons c s)
  then have "strip_prefix ''+00:00'' (c # s @ ''+00:00'') = None" by auto
  with Cons show ?case by simp
qed simp

lemma digits_no_plus: "CHR ''+'' \<notin> set (digits k n)"
  using digits_digits [of k n] by (auto simp: list_all_iff is_digit_def)

lemma utcnow_text: "moment_of us = Inr d \<Longrightarrow> utcnow us = Inr (field_text stamp_shape (fields d))"
proof -
  have "isoformat d = (digits 4 (year d) @ ''-'' @ time_text d) @ ''+00:00''" by (simp add: isoformat_def)
  moreover have "CHR ''+'' \<notin> set (digits 4 (year d) @ ''-'' @ time_text d)"
    by (simp add: time_text_def digits_no_plus del: digits.simps)
  ultimately have "replace_text ''+00:00'' ''Z'' (isoformat d) = (digits 4 (year d) @ ''-'' @ time_text d) @ ''Z''"
    using replace_suffix by metis
  then show "moment_of us = Inr d \<Longrightarrow> utcnow us = Inr (field_text stamp_shape (fields d))"
    by (simp add: utcnow_def stamp_shape_def fields_def time_text_def del: digits.simps)
qed

text \<open>A number that fills its field is printed the same without padding.\<close>

lemma digits_full: "10 ^ k \<le> n \<Longrightarrow> n < 10 ^ Suc k \<Longrightarrow> digits (Suc k) (int n) = dec_nat n"
proof (induction k arbitrary: n)
  case 0
  then show ?case by (simp add: dec_nat.simps [of n])
next
  case (Suc k)
  have "digits (Suc k) (int (n div 10)) = dec_nat (n div 10)" using Suc.prems by (intro Suc.IH) auto
  moreover have "10 \<le> n" using Suc.prems(1) power_increasing [of 1 "Suc k" "10 :: nat"] by (simp only: power_one_right) (rule le_trans; simp)
  then have "dec_nat n = dec_nat (n div 10) @ [dec_digit (n mod 10)]" by (simp add: dec_nat.simps [of n])
  moreover have "nat (int n mod 10) = n mod 10" by (simp add: nat_mod_distrib)
  ultimately show ?case by (simp add: zdiv_int)
qed

lemma year_range: "0 \<le> us \<Longrightarrow> moment_of us = Inr d \<Longrightarrow> 1970 \<le> year d"
proof -
  assume us: "0 \<le> us" "moment_of us = Inr d"
  let ?n = "719163 + us div 86400000000"
  have epoch: "date_of 719163 = (1970, 1, 1)" by code_simp
  have "0 \<le> us div 86400000000" using us(1) by (simp add: pos_imp_zdiv_nonneg_iff)
  then consider "?n = 719163" | "719163 < ?n" by linarith
  then show ?thesis
  proof cases
    case 1
    then show ?thesis using moment_of_Inr(1) [OF us(2)] epoch by simp
  next
    case 2
    with date_of_mono [OF 2] moment_of_Inr(1) [OF us(2)] epoch show ?thesis by (auto simp: earlier_def)
  qed
qed

lemma created_text:
  assumes "0 \<le> us" and "moment_of us = Inr d"
  shows "iso_from_created us = Inr (field_text stamp_shape (fields d))"
proof -
  have y: "1970 \<le> year d" "year d \<le> 9999" using year_range [OF assms] moment_of_Inr(3) [OF assms(2)] by simp_all
  then have "dec_int (year d) = dec_nat (nat (year d))" by (simp add: dec_int_def)
  also have "\<dots> = digits (Suc 3) (int (nat (year d)))" by (rule digits_full [symmetric]) (use y in \<open>simp_all add: le_nat_iff nat_less_iff\<close>)
  finally have "dec_int (year d) = digits 4 (year d)" using y by (simp del: digits.simps)
  then show ?thesis using assms(2)
    by (simp add: iso_from_created_def strftime_def stamp_shape_def fields_def time_text_def del: digits.simps)
qed

lemma stamp_fits:
  assumes "moment_of us = Inr d"
  shows "list_all2 (\<lambda>(k, c) n. 0 \<le> n \<and> n < 10 ^ k) stamp_shape (fields d)"
  using moment_bounds [OF assms] moment_of_Inr(2,3) [OF assms] by (simp add: stamp_shape_def fields_def)

lemma stamp_ascii: "is_ascii (digits k n)"
  using digits_digits [of k n] by (auto simp: is_ascii_def list_all_iff is_digit_def)

lemma moment_before:
  assumes "moment_of us' = Inr d'" and "0 \<le> us" and "us < us'"
  shows "\<exists>d. moment_of us = Inr d"
proof -
  let ?n = "719163 + us div 86400000000" and ?n' = "719163 + us' div 86400000000"
  obtain y m d where date: "date_of ?n = (y, m, d)" by (metis prod_cases3)
  have epoch: "date_of 719163 = (1970, 1, 1)" by code_simp
  have "719163 \<le> ?n" using assms(2) by (simp add: pos_imp_zdiv_nonneg_iff)
  then have low: "1970 \<le> y" using date_of_mono [of 719163 ?n] epoch date by (cases "719163 = ?n") (auto simp: earlier_def)
  have "?n \<le> ?n'" using assms(3) by (simp add: zdiv_mono1)
  then have "y \<le> year d'" using date_of_mono [of ?n ?n'] moment_of_Inr(1) [OF assms(1)] date
    by (cases "?n = ?n'") (auto simp: earlier_def)
  with low moment_of_Inr(3) [OF assms(1)] date show ?thesis
    by (simp add: moment_of_def Let_def zdiv_zmult2_eq [symmetric])
qed

text \<open>C40: Before the year 10000, \<open>_utcnow\<close> and \<open>_iso_from_created\<close> write a moment in the same way, as 27 ASCII
  characters that every backend can hold, and a later moment gives a text that sorts later.\<close>

theorem timestamps_sort:
  assumes "0 \<le> us" and "us < us'" and "utcnow us' = Inr t'"
  shows "\<exists>t. utcnow us = Inr t \<and> iso_from_created us = Inr t \<and> length t = 27 \<and> string_safe t \<and> sorts_before t t'"
proof -
  obtain d' where d': "moment_of us' = Inr d'" using assms(3) by (auto simp: utcnow_def result_simps)
  obtain d where d: "moment_of us = Inr d" using moment_before [OF d' assms(1,2)] ..
  let ?t = "field_text stamp_shape (fields d)"
  have "sorts_before ?t (field_text stamp_shape (fields d'))"
    by (rule field_order [OF fields_order [OF d d' assms(2)] _ _ stamp_fits [OF d] stamp_fits [OF d']])
      (simp_all add: fields_def stamp_shape_def)
  then have "sorts_before ?t t'" using utcnow_text [OF d'] assms(3) by simp
  moreover have "length ?t = 27 \<and> is_ascii ?t"
    by (simp add: stamp_shape_def fields_def stamp_ascii del: digits.simps)
  ultimately show ?thesis using utcnow_text [OF d] created_text [OF assms(1) d] string_safe_ascii by blast
qed

theorem timestamps_sort_witness:
  "utcnow 946684799999999 = Inr ''1999-12-31T23:59:59.999999Z'' \<and>
   sorts_before ''1999-12-31T23:59:59.999999Z'' ''2000-02-29T00:00:00.000001Z''"
proof -
  have "utcnow 951782400000001 = Inr ''2000-02-29T00:00:00.000001Z''" "utcnow 946684799999999 = Inr ''1999-12-31T23:59:59.999999Z''"
    by code_simp+
  with timestamps_sort [of 946684799999999 951782400000001] show ?thesis by auto
qed

end
