(* ===== verification/Locks.thy ===== *)
theory Locks
  imports Prelude
begin

text \<open>
  \<open>locks.py\<close>: the advisory file lock, as a state machine of threads of several processes.

  A state (\<open>world\<close>) holds the \<open>FileLock\<close> objects, the in-process mutexes, which open file the
  operating system has locked for each file, and for every thread where it stands in \<open>acquire\<close> or
  \<open>release\<close> and which locks it has entered by \<open>with\<close>. A step is one stage of these methods: what lies
  between two stages may be interrupted by any other thread.

  \<open>file_at\<close>, which file an absolute path leads to, is a parameter: several paths may lead to one file,
  and no lock file is ever deleted. \<open>can_lock\<close> says whether the platform has \<open>fcntl\<close> or
  \<open>msvcrt\<close>. Times are ticks of \<open>time.monotonic\<close>.
\<close>

section \<open>The objects\<close>

text \<open>\<open>lk_key\<close> is the absolute path, the key of the mutex; \<open>lk_timeout\<close> the seconds to wait with their text.\<close>

record lock_object =
  lk_process :: nat
  lk_path :: string
  lk_key :: string
  lk_timeout :: "(nat \<times> string) option"
  lk_fd :: "nat option"
  lk_depth :: nat
  lk_owner :: "nat option"

definition new_lock :: "nat \<Rightarrow> string \<Rightarrow> string \<Rightarrow> (nat \<times> string) option \<Rightarrow> lock_object" where
  "new_lock p given absolute limit =
     \<lparr>lk_process = p, lk_path = given, lk_key = absolute, lk_timeout = limit, lk_fd = None, lk_depth = 0,
      lk_owner = None\<rparr>"

definition held :: "lock_object \<Rightarrow> bool" where
  "held l = (0 < lk_depth l)"

text \<open>Where a thread is: elsewhere, or in a stage of \<open>acquire\<close> or \<open>release\<close> of the lock object it names.\<close>

datatype stage = Elsewhere | AtMutex nat | AtOpen nat | AtTry nat "nat option" | AtUnlock nat | AtFinish nat

record thread_state =
  th_stage :: stage
  th_inside :: "nat list"
  th_raised :: "exn option"

type_synonym thread_id = "nat \<times> nat"

text \<open>A mutex (\<open>threading.RLock\<close>) has an owner and a count.\<close>

type_synonym rlock = "(nat \<times> nat) option"

record world =
  objs :: "nat \<Rightarrow> lock_object"
  mutexes :: "nat \<times> string \<Rightarrow> rlock"
  os_locks :: "nat \<Rightarrow> nat option"
  next_fd :: nat
  threads :: "thread_id \<Rightarrow> thread_state"

definition rlock_count :: "rlock \<Rightarrow> nat \<Rightarrow> nat" where
  "rlock_count m t = (case m of None \<Rightarrow> 0 | Some (t', n) \<Rightarrow> if t' = t then n else 0)"

definition rlock_acquire :: "rlock \<Rightarrow> nat \<Rightarrow> rlock option" where
  "rlock_acquire m t =
     (case m of None \<Rightarrow> Some (Some (t, 1)) | Some (t', n) \<Rightarrow> if t' = t then Some (Some (t, n + 1)) else None)"

definition rlock_release :: "rlock \<Rightarrow> rlock" where
  "rlock_release m = (case m of None \<Rightarrow> None | Some (t, n) \<Rightarrow> if n \<le> 1 then None else Some (t, n - 1))"

definition mutex_for :: "world \<Rightarrow> nat \<Rightarrow> nat \<times> string" where
  "mutex_for w i = (lk_process (objs w i), lk_key (objs w i))"

definition set_obj :: "nat \<Rightarrow> lock_object \<Rightarrow> world \<Rightarrow> world" where
  "set_obj i l w = w\<lparr>objs := (objs w)(i := l)\<rparr>"

definition set_thread :: "thread_id \<Rightarrow> thread_state \<Rightarrow> world \<Rightarrow> world" where
  "set_thread x th w = w\<lparr>threads := (threads w)(x := th)\<rparr>"

definition set_mutex :: "nat \<times> string \<Rightarrow> rlock \<Rightarrow> world \<Rightarrow> world" where
  "set_mutex k m w = w\<lparr>mutexes := (mutexes w)(k := m)\<rparr>"

section \<open>The operating system's lock\<close>

text \<open>\<open>flock\<close> belongs to the open file: it succeeds when the file is free or locked through this very
  descriptor. \<open>None\<close> is the \<open>LockError\<close> of a platform without a primitive.\<close>

definition try_os_lock :: "(string \<Rightarrow> nat) \<Rightarrow> bool \<Rightarrow> nat \<Rightarrow> world \<Rightarrow> (bool \<times> world) option" where
  "try_os_lock file_at can_lock i w =
     (let k = file_at (lk_key (objs w i))
      in if \<not> can_lock then None
         else if os_locks w k = None \<or> os_locks w k = lk_fd (objs w i)
         then Some (True, w\<lparr>os_locks := (os_locks w)(k := lk_fd (objs w i))\<rparr>)
         else Some (False, w))"

text \<open>Unlocking, and closing the descriptor, free the file if it is locked through it.\<close>

definition unlock_os :: "(string \<Rightarrow> nat) \<Rightarrow> nat \<Rightarrow> world \<Rightarrow> world" where
  "unlock_os file_at i w =
     (let k = file_at (lk_key (objs w i))
      in if lk_fd (objs w i) \<noteq> None \<and> os_locks w k = lk_fd (objs w i)
         then w\<lparr>os_locks := (os_locks w)(k := None)\<rparr> else w)"

definition close_fd :: "(string \<Rightarrow> nat) \<Rightarrow> nat \<Rightarrow> world \<Rightarrow> world" where
  "close_fd file_at i w = set_obj i ((objs w i)\<lparr>lk_fd := None\<rparr>) (unlock_os file_at i w)"

section \<open>Acquiring\<close>

text \<open>The thread \<open>t\<close> of process \<open>p\<close> calls \<open>acquire\<close> of object \<open>i\<close>: it is inside already, or it goes for the
  mutex.\<close>

definition enter_object :: "nat \<Rightarrow> nat \<Rightarrow> nat \<Rightarrow> world \<Rightarrow> world" where
  "enter_object p t i w =
     set_thread (p, t) \<lparr>th_stage = Elsewhere, th_inside = i # th_inside (threads w (p, t)), th_raised = None\<rparr> w"

definition acquire_start :: "nat \<Rightarrow> nat \<Rightarrow> nat \<Rightarrow> world \<Rightarrow> world" where
  "acquire_start p t i w =
     (let l = objs w i
      in if 0 < lk_depth l \<and> lk_owner l = Some t
         then enter_object p t i (set_obj i (l\<lparr>lk_depth := lk_depth l + 1\<rparr>) w)
         else set_thread (p, t) ((threads w (p, t))\<lparr>th_stage := AtMutex i, th_raised := None\<rparr>) w)"

text \<open>\<open>None\<close> while another thread has the mutex: the call blocks.\<close>

definition take_mutex :: "nat \<Rightarrow> nat \<Rightarrow> nat \<Rightarrow> world \<Rightarrow> world option" where
  "take_mutex p t i w =
     map_option (\<lambda>m. set_thread (p, t) ((threads w (p, t))\<lparr>th_stage := AtOpen i\<rparr>) (set_mutex (mutex_for w i) m w))
       (rlock_acquire (mutexes w (mutex_for w i)) t)"

text \<open>The \<open>except\<close> clause: close the descriptor, give the mutex back, let the exception through.\<close>

definition acquire_failed :: "(string \<Rightarrow> nat) \<Rightarrow> nat \<Rightarrow> nat \<Rightarrow> nat \<Rightarrow> exn \<Rightarrow> world \<Rightarrow> world" where
  "acquire_failed file_at p t i e w =
     set_thread (p, t) ((threads w (p, t))\<lparr>th_stage := Elsewhere, th_raised := Some e\<rparr>)
       (set_mutex (mutex_for w i) (rlock_release (mutexes w (mutex_for w i))) (close_fd file_at i w))"

definition open_file :: "nat \<Rightarrow> nat \<Rightarrow> nat \<Rightarrow> nat \<Rightarrow> world \<Rightarrow> world" where
  "open_file now p t i w =
     (let deadline = map_option (\<lambda>(secs, s). now + secs) (lk_timeout (objs w i))
      in set_thread (p, t) ((threads w (p, t))\<lparr>th_stage := AtTry i deadline\<rparr>)
           (set_obj i ((objs w i)\<lparr>lk_fd := Some (next_fd w)\<rparr>) (w\<lparr>next_fd := next_fd w + 1\<rparr>)))"

definition timeout_error :: "lock_object \<Rightarrow> exn" where
  "timeout_error l =
     LockTimeout (''could not lock '' @ lk_path l @ '' within '' @
       (case lk_timeout l of None \<Rightarrow> ''None'' | Some (n, s) \<Rightarrow> s) @ ''s: another writer is holding it'')"

definition no_primitive :: exn where
  "no_primitive = LockError ''no cross-process locking primitive available on this platform; pass a lock implementation of your own''"

text \<open>One turn of the loop; a turn that does not get the lock before the deadline sleeps and comes again.\<close>

definition try_lock :: "(string \<Rightarrow> nat) \<Rightarrow> bool \<Rightarrow> nat \<Rightarrow> nat \<Rightarrow> nat \<Rightarrow> nat \<Rightarrow> nat option \<Rightarrow> world \<Rightarrow> world" where
  "try_lock file_at can_lock now p t i deadline w =
     (case try_os_lock file_at can_lock i w of
        None \<Rightarrow> acquire_failed file_at p t i no_primitive w
      | Some (got, w') \<Rightarrow>
          if got
          then enter_object p t i (set_obj i ((objs w' i)\<lparr>lk_depth := 1, lk_owner := Some t\<rparr>) w')
          else if (case deadline of None \<Rightarrow> False | Some d \<Rightarrow> d \<le> now)
          then acquire_failed file_at p t i (timeout_error (objs w i)) w'
          else w')"

section \<open>Releasing\<close>

definition release_start :: "nat \<Rightarrow> nat \<Rightarrow> nat \<Rightarrow> world \<Rightarrow> world" where
  "release_start p t i w =
     (let l = objs w i; th = (threads w (p, t))\<lparr>th_inside := tl (th_inside (threads w (p, t)))\<rparr>
      in if lk_depth l = 0 then set_thread (p, t) th w
         else if lk_depth l - 1 \<noteq> 0
         then set_thread (p, t) th (set_obj i (l\<lparr>lk_depth := lk_depth l - 1\<rparr>) w)
         else set_thread (p, t) (th\<lparr>th_stage := AtUnlock i\<rparr>) (set_obj i (l\<lparr>lk_depth := 0\<rparr>) w))"

definition release_unlock :: "(string \<Rightarrow> nat) \<Rightarrow> nat \<Rightarrow> nat \<Rightarrow> nat \<Rightarrow> world \<Rightarrow> world" where
  "release_unlock file_at p t i w =
     set_thread (p, t) ((threads w (p, t))\<lparr>th_stage := AtFinish i\<rparr>) (unlock_os file_at i w)"

text \<open>The \<open>finally\<close> clause.\<close>

definition release_finish :: "(string \<Rightarrow> nat) \<Rightarrow> nat \<Rightarrow> nat \<Rightarrow> nat \<Rightarrow> world \<Rightarrow> world" where
  "release_finish file_at p t i w =
     (let w' = close_fd file_at i w
      in set_thread (p, t) ((threads w (p, t))\<lparr>th_stage := Elsewhere\<rparr>)
           (set_mutex (mutex_for w i) (rlock_release (mutexes w (mutex_for w i)))
              (set_obj i ((objs w' i)\<lparr>lk_owner := None\<rparr>) w')))"

section \<open>Steps\<close>

text \<open>A process that dies loses its objects, its mutexes and its descriptors, and with these the
  operating system's locks.\<close>

definition idle_thread :: thread_state where
  "idle_thread = \<lparr>th_stage = Elsewhere, th_inside = [], th_raised = None\<rparr>"

definition die :: "(string \<Rightarrow> nat) \<Rightarrow> nat \<Rightarrow> world \<Rightarrow> world" where
  "die file_at p w =
     w\<lparr>objs := (\<lambda>i. if lk_process (objs w i) = p
                      then (objs w i)\<lparr>lk_fd := None, lk_depth := 0, lk_owner := None\<rparr> else objs w i),
       mutexes := (\<lambda>k. if fst k = p then None else mutexes w k),
       os_locks := (\<lambda>k. if \<exists>i. lk_process (objs w i) = p \<and> lk_fd (objs w i) \<noteq> None \<and> os_locks w k = lk_fd (objs w i)
                          then None else os_locks w k),
       threads := (\<lambda>x. if fst x = p then idle_thread else threads w x)\<rparr>"

text \<open>\<open>with\<close> leaves the lock it entered last.\<close>

inductive lock_step :: "(string \<Rightarrow> nat) \<Rightarrow> bool \<Rightarrow> world \<Rightarrow> world \<Rightarrow> bool" for file_at can_lock where
  call: "th_stage (threads w (p, t)) = Elsewhere \<Longrightarrow> lk_process (objs w i) = p \<Longrightarrow>
     lock_step file_at can_lock w (acquire_start p t i w)"
| mutex: "th_stage (threads w (p, t)) = AtMutex i \<Longrightarrow> take_mutex p t i w = Some w' \<Longrightarrow>
     lock_step file_at can_lock w w'"
| opened: "th_stage (threads w (p, t)) = AtOpen i \<Longrightarrow> lock_step file_at can_lock w (open_file now p t i w)"
| refused: "th_stage (threads w (p, t)) = AtOpen i \<Longrightarrow>
     lock_step file_at can_lock w (acquire_failed file_at p t i (OSError e) w)"
| attempt: "th_stage (threads w (p, t)) = AtTry i deadline \<Longrightarrow>
     lock_step file_at can_lock w (try_lock file_at can_lock now p t i deadline w)"
| leave: "th_stage (threads w (p, t)) = Elsewhere \<Longrightarrow> th_inside (threads w (p, t)) = i # outer \<Longrightarrow>
     lock_step file_at can_lock w (release_start p t i w)"
| unlock: "th_stage (threads w (p, t)) = AtUnlock i \<Longrightarrow>
     lock_step file_at can_lock w (release_unlock file_at p t i w)"
| finish: "th_stage (threads w (p, t)) = AtFinish i \<Longrightarrow>
     lock_step file_at can_lock w (release_finish file_at p t i w)"
| crash: "lock_step file_at can_lock w (die file_at p w)"

text \<open>At first nothing is locked, and the objects are as \<open>__init__\<close> leaves them.\<close>

definition first_world :: "(nat \<Rightarrow> lock_object) \<Rightarrow> world" where
  "first_world os =
     \<lparr>objs = (\<lambda>i. new_lock (lk_process (os i)) (lk_path (os i)) (lk_key (os i)) (lk_timeout (os i))),
      mutexes = (\<lambda>_. None), os_locks = (\<lambda>_. None), next_fd = 0, threads = (\<lambda>_. idle_thread)\<rparr>"

inductive lock_reachable :: "(string \<Rightarrow> nat) \<Rightarrow> bool \<Rightarrow> world \<Rightarrow> bool" for file_at can_lock where
  start: "lock_reachable file_at can_lock (first_world os)"
| step: "lock_reachable file_at can_lock w \<Longrightarrow> lock_step file_at can_lock w w' \<Longrightarrow> lock_reachable file_at can_lock w'"

end
