(* ===== verification/Lock_Invariant.thy ===== *)
theory Lock_Invariant
  imports Locks
begin

text \<open>
  The invariant of the file lock: who is inside which object agrees with its depth and owner, the
  mutexes count the objects each thread works on, an entered object has its file locked by its own
  descriptor, and a locked file belongs to an object that is entered or being given back.

  Most stages change one object, one thread, one mutex and one file; \<open>change_inv\<close> says when such a change
  keeps the invariant, and the lemmas after it go through the stages. \<open>lock_reachable_inv\<close> is the result.
\<close>

section \<open>The invariant\<close>

definition stage_object :: "stage \<Rightarrow> nat option" where
  "stage_object s =
     (case s of Elsewhere \<Rightarrow> None | AtMutex i \<Rightarrow> Some i | AtOpen i \<Rightarrow> Some i | AtTry i d \<Rightarrow> Some i
      | AtUnlock i \<Rightarrow> Some i | AtFinish i \<Rightarrow> Some i)"

text \<open>The object whose mutex a thread has without being inside, and for the last three stages its file.\<close>

definition busy_with :: "stage \<Rightarrow> nat list" where
  "busy_with s =
     (case s of AtOpen i \<Rightarrow> [i] | AtTry i d \<Rightarrow> [i] | AtUnlock i \<Rightarrow> [i] | AtFinish i \<Rightarrow> [i] | _ \<Rightarrow> [])"

definition file_open :: "stage \<Rightarrow> nat list" where
  "file_open s = (case s of AtTry i d \<Rightarrow> [i] | AtUnlock i \<Rightarrow> [i] | AtFinish i \<Rightarrow> [i] | _ \<Rightarrow> [])"

text \<open>How often a thread has the mutex of a key.\<close>

definition holds :: "thread_state \<Rightarrow> nat set" where
  "holds th = set (th_inside th) \<union> set (busy_with (th_stage th))"

definition claims :: "(nat \<Rightarrow> string) \<Rightarrow> thread_state \<Rightarrow> string \<Rightarrow> nat" where
  "claims key th k = card {i \<in> holds th. key i = k}"

definition inv_inside :: "world \<Rightarrow> bool" where
  "inv_inside w = (\<forall>p t i. count_list (th_inside (threads w (p, t))) i =
     (if lk_process (objs w i) = p \<and> lk_owner (objs w i) = Some t then lk_depth (objs w i) else 0))"

definition inv_owner :: "world \<Rightarrow> bool" where
  "inv_owner w = (\<forall>i. 0 < lk_depth (objs w i) \<longrightarrow> lk_owner (objs w i) \<noteq> None)"

definition inv_stage :: "world \<Rightarrow> bool" where
  "inv_stage w = (\<forall>p t i. stage_object (th_stage (threads w (p, t))) = Some i \<longrightarrow>
     lk_process (objs w i) = p \<and> i \<notin> set (th_inside (threads w (p, t))))"

definition inv_mutex :: "world \<Rightarrow> bool" where
  "inv_mutex w = (\<forall>p t k. rlock_count (mutexes w (p, k)) t = claims (\<lambda>i. lk_key (objs w i)) (threads w (p, t)) k)"

definition inv_rlock :: "world \<Rightarrow> bool" where
  "inv_rlock w = (\<forall>k t n. mutexes w k = Some (t, n) \<longrightarrow> 0 < n)"

definition inv_os :: "(string \<Rightarrow> nat) \<Rightarrow> world \<Rightarrow> bool" where
  "inv_os file_at w = (\<forall>i. 0 < lk_depth (objs w i) \<longrightarrow>
     (\<exists>f. lk_fd (objs w i) = Some f \<and> os_locks w (file_at (lk_key (objs w i))) = Some f))"

definition inv_fd :: "world \<Rightarrow> bool" where
  "inv_fd w = (\<forall>i j f. lk_fd (objs w i) = Some f \<longrightarrow> f < next_fd w \<and> (lk_fd (objs w j) = Some f \<longrightarrow> i = j))"

definition inv_open :: "world \<Rightarrow> bool" where
  "inv_open w = (\<forall>i. lk_fd (objs w i) \<noteq> None \<longrightarrow>
     (\<exists>t. let th = threads w (lk_process (objs w i), t) in i \<in> set (th_inside th) \<or> i \<in> set (file_open (th_stage th))))"

definition inv_try :: "world \<Rightarrow> bool" where
  "inv_try w = (\<forall>x i d. th_stage (threads w x) = AtTry i d \<longrightarrow> lk_fd (objs w i) \<noteq> None)"

definition inv_held :: "(string \<Rightarrow> nat) \<Rightarrow> world \<Rightarrow> bool" where
  "inv_held file_at w = (\<forall>k f. os_locks w k = Some f \<longrightarrow>
     (\<exists>i. lk_fd (objs w i) = Some f \<and> file_at (lk_key (objs w i)) = k \<and>
        (0 < lk_depth (objs w i) \<or> (\<exists>t. th_stage (threads w (lk_process (objs w i), t)) = AtUnlock i))))"

definition lock_inv :: "(string \<Rightarrow> nat) \<Rightarrow> world \<Rightarrow> bool" where
  "lock_inv file_at w =
     (inv_inside w \<and> inv_owner w \<and> inv_stage w \<and> inv_mutex w \<and> inv_rlock w \<and> inv_os file_at w \<and> inv_fd w \<and>
      inv_open w \<and> inv_try w \<and> inv_held file_at w)"

lemma set_simps [simp]:
  "objs (set_obj i l w) = (objs w)(i := l)" "mutexes (set_obj i l w) = mutexes w" "os_locks (set_obj i l w) = os_locks w"
  "next_fd (set_obj i l w) = next_fd w" "threads (set_obj i l w) = threads w"
  "objs (set_thread x th w) = objs w" "mutexes (set_thread x th w) = mutexes w" "os_locks (set_thread x th w) = os_locks w"
  "next_fd (set_thread x th w) = next_fd w" "threads (set_thread x th w) = (threads w)(x := th)"
  "objs (set_mutex k m w) = objs w" "mutexes (set_mutex k m w) = (mutexes w)(k := m)"
  "os_locks (set_mutex k m w) = os_locks w" "next_fd (set_mutex k m w) = next_fd w" "threads (set_mutex k m w) = threads w"
  by (simp_all add: set_obj_def set_thread_def set_mutex_def)

lemma stage_simps [simp]:
  "stage_object Elsewhere = None" "stage_object (AtMutex i) = Some i" "stage_object (AtOpen i) = Some i"
  "stage_object (AtTry i d) = Some i" "stage_object (AtUnlock i) = Some i" "stage_object (AtFinish i) = Some i"
  "busy_with Elsewhere = []" "busy_with (AtMutex i) = []" "busy_with (AtOpen i) = [i]"
  "busy_with (AtTry i d) = [i]" "busy_with (AtUnlock i) = [i]" "busy_with (AtFinish i) = [i]"
  "file_open Elsewhere = []" "file_open (AtMutex i) = []" "file_open (AtOpen i) = []"
  "file_open (AtTry i d) = [i]" "file_open (AtUnlock i) = [i]" "file_open (AtFinish i) = [i]"
  by (simp_all add: stage_object_def busy_with_def file_open_def)

lemma busy_object: "i \<in> set (busy_with s) \<Longrightarrow> stage_object s = Some i"
  by (cases s) auto

lemma file_busy: "i \<in> set (file_open s) \<Longrightarrow> i \<in> set (busy_with s)"
  by (cases s) auto

text \<open>Consequences of the invariant: one thread at a time works on an object, and none while another is inside.\<close>

lemma inside_owner:
  assumes "lock_inv file_at w"
  shows "i \<in> set (th_inside (threads w (p, t))) \<longleftrightarrow>
    lk_process (objs w i) = p \<and> lk_owner (objs w i) = Some t \<and> 0 < lk_depth (objs w i)"
proof -
  have "count_list (th_inside (threads w (p, t))) i =
     (if lk_process (objs w i) = p \<and> lk_owner (objs w i) = Some t then lk_depth (objs w i) else 0)"
    using assms by (simp add: lock_inv_def inv_inside_def)
  moreover have "i \<in> set xs \<longleftrightarrow> 0 < count_list xs i" for xs by (metis count_list_0_iff neq0_conv)
  ultimately show ?thesis by auto
qed

lemma finite_holds [simp]: "finite (holds th)"
  by (simp add: holds_def)

lemma claims_pos: "i \<in> holds th \<Longrightarrow> 0 < claims key th (key i)"
  by (auto simp: claims_def card_gt_0_iff)

text \<open>The holdings of a thread change at one object.\<close>

lemma claims_change:
  assumes "holds th - {i} = holds th' - {i}"
  shows "claims key th k + of_bool (i \<in> holds th' \<and> key i = k) = claims key th' k + of_bool (i \<in> holds th \<and> key i = k)"
proof -
  let ?A = "\<lambda>th. {j \<in> holds th. key j = k}"
  have "card (?A th) = card (?A th - {i}) + of_bool (i \<in> holds th \<and> key i = k)" for th
    using card_Suc_Diff1 [of "?A th" i] by (cases "i \<in> ?A th") auto
  moreover have "?A th - {i} = ?A th' - {i}" using assms by auto
  ultimately show ?thesis by (simp add: claims_def)
qed

lemma rlock_count_unique: "0 < rlock_count m t \<Longrightarrow> 0 < rlock_count m t' \<Longrightarrow> t = t'"
  by (auto simp: rlock_count_def split: option.splits prod.splits if_splits)

lemma holds_unique:
  assumes "lock_inv file_at w" and "i \<in> holds (threads w (p, t))" and "i \<in> holds (threads w (p, t'))"
  shows "t = t'"
proof (rule rlock_count_unique)
  have "rlock_count (mutexes w (p, k)) t = claims (\<lambda>i. lk_key (objs w i)) (threads w (p, t)) k" for k t
    using assms(1) by (simp add: lock_inv_def inv_mutex_def)
  with claims_pos [of i _ "\<lambda>i. lk_key (objs w i)"] assms(2,3)
  show "0 < rlock_count (mutexes w (p, lk_key (objs w i))) t" "0 < rlock_count (mutexes w (p, lk_key (objs w i))) t'"
    by simp_all
qed

lemma holds_cases:
  assumes "lock_inv file_at w"
  shows "i \<in> holds (threads w (p, t)) \<Longrightarrow> lk_process (objs w i) = p"
    and "i \<in> set (busy_with (th_stage (threads w (p, t)))) \<Longrightarrow> i \<notin> set (th_inside (threads w (p, t)))"
proof -
  have busy: "lk_process (objs w i) = p \<and> i \<notin> set (th_inside (threads w (p, t)))"
    if "i \<in> set (busy_with (th_stage (threads w (p, t))))"
    using assms busy_object [OF that] by (simp add: lock_inv_def inv_stage_def)
  then show "i \<in> set (busy_with (th_stage (threads w (p, t)))) \<Longrightarrow> i \<notin> set (th_inside (threads w (p, t)))" by blast
  show "i \<in> holds (threads w (p, t)) \<Longrightarrow> lk_process (objs w i) = p"
    using inside_owner [OF assms, of i p t] busy by (auto simp: holds_def)
qed

lemma busy_depth:
  assumes "lock_inv file_at w" and "i \<in> set (busy_with (th_stage (threads w (p, t))))"
  shows "lk_depth (objs w i) = 0"
proof (rule ccontr)
  assume d: "lk_depth (objs w i) \<noteq> 0"
  then obtain t' where "lk_owner (objs w i) = Some t'"
    using assms(1) by (auto simp: lock_inv_def inv_owner_def)
  moreover have p: "lk_process (objs w i) = p" using holds_cases(1) [OF assms(1), of i p t] assms(2) by (simp add: holds_def)
  ultimately have "i \<in> set (th_inside (threads w (p, t')))"
    using inside_owner [OF assms(1)] d by simp
  with holds_unique [OF assms(1), of i p t t'] assms(2) holds_cases(2) [OF assms] show False by (simp add: holds_def)
qed

section \<open>Every stage keeps the invariant\<close>

text \<open>What most stages do: thread \<open>t\<close> of process \<open>p\<close> works on one object, its mutex and its file.\<close>

definition lock_change ::
  "(string \<Rightarrow> nat) \<Rightarrow> world \<Rightarrow> nat \<Rightarrow> nat \<Rightarrow> nat \<Rightarrow> lock_object \<Rightarrow> thread_state \<Rightarrow> rlock \<Rightarrow> nat option \<Rightarrow> world \<Rightarrow> bool" where
  "lock_change file_at w p t i l th m os w' =
     (objs w' = (objs w)(i := l) \<and> threads w' = (threads w)((p, t) := th) \<and>
      mutexes w' = (mutexes w)(mutex_for w i := m) \<and>
      os_locks w' = (os_locks w)(file_at (lk_key (objs w i)) := os) \<and> next_fd w \<le> next_fd w' \<and>
      lk_process (objs w i) = p \<and> lk_process l = p \<and> lk_key l = lk_key (objs w i))"

text \<open>When such a change is harmless for the objects, threads and mutexes, and for the files.\<close>

definition change_ok :: "world \<Rightarrow> nat \<Rightarrow> nat \<Rightarrow> nat \<Rightarrow> lock_object \<Rightarrow> thread_state \<Rightarrow> rlock \<Rightarrow> bool" where
  "change_ok w p t i l th m =
     ((\<forall>t'. t' \<noteq> t \<longrightarrow> i \<notin> holds (threads w (p, t'))) \<and>
      (lk_owner l = Some t \<or> lk_depth l = 0) \<and> count_list (th_inside th) i = lk_depth l \<and>
      (\<forall>j. j \<noteq> i \<longrightarrow> count_list (th_inside th) j = count_list (th_inside (threads w (p, t))) j) \<and>
      stage_object (th_stage th) \<in> {None, Some i} \<and> (stage_object (th_stage th) = None \<or> lk_depth l = 0) \<and>
      stage_object (th_stage (threads w (p, t))) \<in> {None, Some i} \<and>
      rlock_count m t + of_bool (i \<in> holds (threads w (p, t))) =
        rlock_count (mutexes w (mutex_for w i)) t + of_bool (i \<in> holds th) \<and>
      (\<forall>t'. t' \<noteq> t \<longrightarrow> rlock_count m t' = rlock_count (mutexes w (mutex_for w i)) t') \<and>
      (\<forall>t' n. m = Some (t', n) \<longrightarrow> 0 < n))"

definition file_ok :: "world \<Rightarrow> nat option \<Rightarrow> nat \<Rightarrow> lock_object \<Rightarrow> thread_state \<Rightarrow> nat option \<Rightarrow> world \<Rightarrow> bool" where
  "file_ok w old i l th os w' =
     ((lk_fd l = lk_fd (objs w i) \<or> lk_fd l = None \<or> lk_fd l = Some (next_fd w) \<and> next_fd w < next_fd w') \<and>
      (lk_fd l \<noteq> None \<longrightarrow> 0 < lk_depth l \<or> i \<in> set (file_open (th_stage th))) \<and>
      (0 < lk_depth l \<longrightarrow> lk_fd l \<noteq> None \<and> os = lk_fd l) \<and>
      (\<forall>d. th_stage th = AtTry i d \<longrightarrow> lk_fd l \<noteq> None) \<and>
      (os = old \<or> os = None \<and> old = lk_fd (objs w i) \<or> os = lk_fd l \<and> old = None) \<and>
      (os \<noteq> None \<longrightarrow> os = lk_fd (objs w i) \<or> os = lk_fd l \<longrightarrow>
         os = lk_fd l \<and> (0 < lk_depth l \<or> th_stage th = AtUnlock i)))"

lemma lock_changeD:
  assumes "lock_change file_at w p t i l th m os w'"
  shows "objs w' j = (if j = i then l else objs w j)" "threads w' (q, u) = (if q = p \<and> u = t then th else threads w (q, u))"
    "mutexes w' (q, k) = (if q = p \<and> k = lk_key (objs w i) then m else mutexes w (q, k))"
    "os_locks w' n = (if n = file_at (lk_key (objs w i)) then os else os_locks w n)"
    "lk_process (objs w' j) = lk_process (objs w j)" "lk_key (objs w' j) = lk_key (objs w j)"
    "lk_process (objs w i) = p" "lk_process l = p" "next_fd w \<le> next_fd w'" "lk_key l = lk_key (objs w i)"
  using assms by (auto simp: lock_change_def mutex_for_def)

lemma change_okD:
  assumes "change_ok w p t i l th m"
  shows "t' \<noteq> t \<Longrightarrow> i \<notin> holds (threads w (p, t'))" "lk_owner l = Some t \<or> lk_depth l = 0"
    "count_list (th_inside th) i = lk_depth l"
    "j \<noteq> i \<Longrightarrow> count_list (th_inside th) j = count_list (th_inside (threads w (p, t))) j"
    "stage_object (th_stage th) = Some j \<Longrightarrow> j = i \<and> lk_depth l = 0"
    "stage_object (th_stage (threads w (p, t))) = Some j \<Longrightarrow> j = i"
    "rlock_count m t + of_bool (i \<in> holds (threads w (p, t))) =
        rlock_count (mutexes w (mutex_for w i)) t + of_bool (i \<in> holds th)"
    "t' \<noteq> t \<Longrightarrow> rlock_count m t' = rlock_count (mutexes w (mutex_for w i)) t'"
    "m = Some (t', n) \<Longrightarrow> 0 < n"
  using assms by (auto simp: change_ok_def)

lemma change_inside:
  assumes "lock_inv file_at w" and c: "lock_change file_at w p t i l th m os w'" and ok: "change_ok w p t i l th m"
  shows "inv_inside w'"
  unfolding inv_inside_def
proof (intro allI)
  fix q u j
  have old: "count_list (th_inside (threads w (q, u))) j =
     (if lk_process (objs w j) = q \<and> lk_owner (objs w j) = Some u then lk_depth (objs w j) else 0)" for q u j
    using assms(1) by (simp add: lock_inv_def inv_inside_def)
  have none: "count_list (th_inside (threads w (p, u))) i = 0" if "u \<noteq> t" for u
    using change_okD(1) [OF ok that] by (simp add: holds_def count_list_0_iff)
  show "count_list (th_inside (threads w' (q, u))) j =
     (if lk_process (objs w' j) = q \<and> lk_owner (objs w' j) = Some u then lk_depth (objs w' j) else 0)"
  proof (cases "j = i")
    case True
    then show ?thesis
      using none [of u] old [of q u i] change_okD(2,3) [OF ok]
      by (auto simp: lock_changeD [OF c] split: if_splits)
  next
    case False
    then show ?thesis using old [of q u j] change_okD(4) [OF ok False] by (auto simp: lock_changeD(1,2,5) [OF c])
  qed
qed

lemma change_owner:
  assumes "lock_inv file_at w" and c: "lock_change file_at w p t i l th m os w'" and ok: "change_ok w p t i l th m"
  shows "inv_owner w'"
  using assms(1) change_okD(2) [OF ok] by (auto simp: inv_owner_def lock_inv_def lock_changeD(1) [OF c])

lemma change_stage:
  assumes "lock_inv file_at w" and c: "lock_change file_at w p t i l th m os w'" and ok: "change_ok w p t i l th m"
  shows "inv_stage w'"
  unfolding inv_stage_def
proof (intro allI impI)
  fix q u j
  assume j: "stage_object (th_stage (threads w' (q, u))) = Some j"
  show "lk_process (objs w' j) = q \<and> j \<notin> set (th_inside (threads w' (q, u)))"
  proof (cases "q = p \<and> u = t")
    case True
    with j change_okD(5) [OF ok, of j] change_okD(3) [OF ok] show ?thesis
      by (auto simp: lock_changeD [OF c] count_list_0_iff)
  next
    case False
    with j have "stage_object (th_stage (threads w (q, u))) = Some j" by (simp add: lock_changeD(2) [OF c] split: if_splits)
    with assms(1) have "lk_process (objs w j) = q \<and> j \<notin> set (th_inside (threads w (q, u)))"
      by (simp add: lock_inv_def inv_stage_def)
    with False show ?thesis by (auto simp: lock_changeD(2,5) [OF c])
  qed
qed

lemma change_holds:
  assumes "change_ok w p t i l th m"
  shows "holds th - {i} = holds (threads w (p, t)) - {i}"
proof -
  have "j \<in> set (th_inside th) \<longleftrightarrow> j \<in> set (th_inside (threads w (p, t)))" if "j \<noteq> i" for j
    using change_okD(4) [OF assms that] count_list_0_iff by metis
  moreover have "set (busy_with (th_stage th)) \<subseteq> {i}" "set (busy_with (th_stage (threads w (p, t)))) \<subseteq> {i}"
    using busy_object change_okD(5,6) [OF assms] by blast+
  ultimately show ?thesis by (auto simp: holds_def)
qed

lemma change_mutex:
  assumes "lock_inv file_at w" and c: "lock_change file_at w p t i l th m os w'" and ok: "change_ok w p t i l th m"
  shows "inv_mutex w'"
  unfolding inv_mutex_def
proof (intro allI)
  fix q u k
  let ?key = "\<lambda>j. lk_key (objs w j)"
  have old: "rlock_count (mutexes w (q, k)) u = claims ?key (threads w (q, u)) k" for q u k
    using assms(1) by (simp add: lock_inv_def inv_mutex_def)
  note change = claims_change [OF change_holds [OF ok], of ?key k]
  show "rlock_count (mutexes w' (q, k)) u = claims (\<lambda>j. lk_key (objs w' j)) (threads w' (q, u)) k"
  proof (cases "q = p \<and> k = ?key i")
    case True
    have key: "mutexes w (mutex_for w i) = mutexes w (p, ?key i)" by (simp add: mutex_for_def lock_changeD(7) [OF c])
    show ?thesis
    proof (cases "u = t")
      case True
      with \<open>q = p \<and> k = ?key i\<close> old [of p k t] change change_okD(7) [OF ok] show ?thesis
        by (simp add: lock_changeD(2,3,6) [OF c] key)
    next
      case False
      with \<open>q = p \<and> k = ?key i\<close> old [of p k u] change_okD(8) [OF ok False] show ?thesis
        by (simp add: lock_changeD(2,3,6) [OF c] key)
    qed
  next
    case False
    with old [of q k u] change show ?thesis by (auto simp: lock_changeD(2,3,6) [OF c])
  qed
qed

lemma change_rlock:
  assumes "lock_inv file_at w" and c: "lock_change file_at w p t i l th m os w'" and ok: "change_ok w p t i l th m"
  shows "inv_rlock w'"
  using assms(1) change_okD(9) [OF ok] by (auto simp: inv_rlock_def lock_inv_def lock_changeD(3) [OF c])

lemma other_fd:
  assumes "lock_inv file_at w" and "lk_fd (objs w j) = Some f"
  shows "f < next_fd w" and "lk_fd (objs w i) = Some f \<Longrightarrow> i = j"
  using assms by (simp_all add: lock_inv_def inv_fd_def)

lemma change_os:
  assumes inv: "lock_inv file_at w" and c: "lock_change file_at w p t i l th m os w'"
    and ok: "file_ok w (os_locks w (file_at (lk_key (objs w i)))) i l th os w'"
  shows "inv_os file_at w'"
  unfolding inv_os_def
proof (intro allI impI)
  fix j
  assume d: "0 < lk_depth (objs w' j)"
  show "\<exists>f. lk_fd (objs w' j) = Some f \<and> os_locks w' (file_at (lk_key (objs w' j))) = Some f"
  proof (cases "j = i")
    case True
    with d have "0 < lk_depth l" by (simp add: lock_changeD(1) [OF c])
    then have "lk_fd l \<noteq> None" "os = lk_fd l" using ok unfolding file_ok_def by blast+
    with True show ?thesis by (simp add: lock_changeD(1,4,10) [OF c])
  next
    case False
    with d inv obtain f where f: "lk_fd (objs w j) = Some f" "os_locks w (file_at (lk_key (objs w j))) = Some f"
      by (auto simp: lock_changeD(1) [OF c] lock_inv_def inv_os_def)
    have "lk_fd (objs w i) \<noteq> Some f" using other_fd(2) [OF inv f(1), of i] False by blast
    with f ok have "os = Some f" if "file_at (lk_key (objs w j)) = file_at (lk_key (objs w i))"
      using that by (auto simp: file_ok_def)
    with f False show ?thesis by (simp add: lock_changeD(1,4,6) [OF c])
  qed
qed

lemma change_fd:
  assumes inv: "lock_inv file_at w" and c: "lock_change file_at w p t i l th m os w'"
    and ok: "file_ok w old i l th os w'"
  shows "inv_fd w'"
proof -
  have l: "lk_fd l = lk_fd (objs w i) \<or> lk_fd l = None \<or> lk_fd l = Some (next_fd w) \<and> next_fd w < next_fd w'"
    using ok by (simp add: file_ok_def)
  have same: "lk_fd (objs w j) = Some f \<Longrightarrow> lk_fd (objs w k) = Some f \<Longrightarrow> j = k" for j k f
    using other_fd(2) [OF inv] by metis
  have old: "lk_fd (objs w j) = Some f \<or> j = i \<and> f = next_fd w \<and> next_fd w < next_fd w'"
    if "lk_fd (objs w' j) = Some f" for j f
    using that l by (cases "j = i") (simp_all add: lock_changeD(1) [OF c], metis option.distinct(1) option.inject)
  have "f < next_fd w'" if "lk_fd (objs w' j) = Some f" for j f
    using old [OF that] other_fd(1) [OF inv, of j f] lock_changeD(9) [OF c] by linarith
  moreover have "j = k" if "lk_fd (objs w' j) = Some f" "lk_fd (objs w' k) = Some f" for j k f
    using old [OF that(1)] old [OF that(2)] same other_fd(1) [OF inv, of j f] other_fd(1) [OF inv, of k f] by blast
  ultimately show ?thesis unfolding inv_fd_def by blast
qed

lemma change_open:
  assumes inv: "lock_inv file_at w" and c: "lock_change file_at w p t i l th m os w'" and ok: "change_ok w p t i l th m"
    and f: "file_ok w old i l th os w'"
  shows "inv_open w'"
  unfolding inv_open_def
proof (intro allI impI)
  fix j
  assume j: "lk_fd (objs w' j) \<noteq> None"
  show "\<exists>u. let th = threads w' (lk_process (objs w' j), u) in j \<in> set (th_inside th) \<or> j \<in> set (file_open (th_stage th))"
  proof (cases "j = i")
    case True
    then have "0 < lk_depth l \<or> i \<in> set (file_open (th_stage th))"
      using j f by (auto simp: lock_changeD(1) [OF c] file_ok_def)
    moreover have "i \<in> set (th_inside th)" if "0 < lk_depth l"
      using change_okD(3) [OF ok] that count_list_0_iff [of "th_inside th" i] by auto
    ultimately show ?thesis
      using True by (intro exI [of _ t]) (auto simp: lock_changeD [OF c])
  next
    case False
    then obtain u where u: "j \<in> set (th_inside (threads w (lk_process (objs w j), u))) \<or>
        j \<in> set (file_open (th_stage (threads w (lk_process (objs w j), u))))"
      using inv j by (auto simp: lock_inv_def inv_open_def Let_def lock_changeD(1) [OF c])
    have "j \<in> set (th_inside th)" if "lk_process (objs w j) = p" "u = t"
    proof -
      have "j \<notin> set (file_open (th_stage (threads w (p, t))))"
        using change_okD(6) [OF ok, of j] False busy_object file_busy by blast
      with u that have "j \<in> set (th_inside (threads w (p, t)))" by simp
      then show ?thesis using change_okD(4) [OF ok False] count_list_0_iff by metis
    qed
    with u show ?thesis by (intro exI [of _ u]) (auto simp: lock_changeD(2,5) [OF c])
  qed
qed

lemma change_try:
  assumes inv: "lock_inv file_at w" and c: "lock_change file_at w p t i l th m os w'" and ok: "change_ok w p t i l th m"
    and f: "file_ok w old i l th os w'"
  shows "inv_try w'"
proof -
  have "lk_fd (objs w' j) \<noteq> None" if j: "th_stage (threads w' (q, u)) = AtTry j d" for q u j d
  proof (cases "q = p \<and> u = t")
    case True
    with j have th: "th_stage th = AtTry j d" by (simp add: lock_changeD(2) [OF c])
    with change_okD(5) [OF ok, of j] have "j = i" by simp
    with th f have "lk_fd l \<noteq> None" unfolding file_ok_def by blast
    with \<open>j = i\<close> show ?thesis by (simp add: lock_changeD(1) [OF c])
  next
    case False
    with j have th: "th_stage (threads w (q, u)) = AtTry j d" by (simp add: lock_changeD(2) [OF c] split: if_splits)
    then have holds: "j \<in> holds (threads w (q, u))" by (simp add: holds_def)
    have "j \<noteq> i"
    proof
      assume "j = i"
      with holds_cases(1) [OF inv holds] have "q = p" by (simp add: lock_changeD(7) [OF c])
      with False holds \<open>j = i\<close> change_okD(1) [OF ok, of u] show False by simp
    qed
    moreover have "lk_fd (objs w j) \<noteq> None" using inv th unfolding lock_inv_def inv_try_def by blast
    ultimately show ?thesis by (simp add: lock_changeD(1) [OF c])
  qed
  then show ?thesis by (auto simp: inv_try_def)
qed

lemma change_held:
  assumes inv: "lock_inv file_at w" and c: "lock_change file_at w p t i l th m os w'" and ok: "change_ok w p t i l th m"
    and fo: "file_ok w (os_locks w (file_at (lk_key (objs w i)))) i l th os w'"
  shows "inv_held file_at w'"
  unfolding inv_held_def
proof (intro allI impI)
  fix k f
  assume k: "os_locks w' k = Some f"
  let ?goal = "\<lambda>j. lk_fd (objs w' j) = Some f \<and> file_at (lk_key (objs w' j)) = k \<and>
      (0 < lk_depth (objs w' j) \<or> (\<exists>u. th_stage (threads w' (lk_process (objs w' j), u)) = AtUnlock j))"
  show "\<exists>j. ?goal j"
  proof (cases "k = file_at (lk_key (objs w i)) \<and> (os = lk_fd (objs w i) \<or> os = lk_fd l)")
    case True
    then have "os = Some f" using k by (simp add: lock_changeD(4) [OF c])
    with True fo have "lk_fd l = Some f" "0 < lk_depth l \<or> th_stage th = AtUnlock i"
      by (simp_all add: file_ok_def)
    moreover have "threads w' (lk_process (objs w' i), t) = th" by (simp add: lock_changeD(2,5,7) [OF c])
    ultimately have "?goal i" using True by (auto simp: lock_changeD(1,10) [OF c])
    then show ?thesis ..
  next
    case False
    have "os_locks w k = Some f"
    proof (cases "k = file_at (lk_key (objs w i))")
      case True
      with k have "os = Some f" by (simp add: lock_changeD(4) [OF c])
      with fo False True show ?thesis by (auto simp: file_ok_def)
    next
      case False
      with k show ?thesis by (simp add: lock_changeD(4) [OF c])
    qed
    with inv obtain j where j: "lk_fd (objs w j) = Some f" "file_at (lk_key (objs w j)) = k"
      "0 < lk_depth (objs w j) \<or> (\<exists>u. th_stage (threads w (lk_process (objs w j), u)) = AtUnlock j)"
      unfolding lock_inv_def inv_held_def by blast
    have "j \<noteq> i"
    proof
      assume "j = i"
      with j k False show False by (simp add: lock_changeD(4) [OF c])
    qed
    moreover have "th_stage (threads w (p, t)) \<noteq> AtUnlock j"
      using change_okD(6) [OF ok, of j] \<open>j \<noteq> i\<close> by auto
    ultimately have "?goal j" using j by (auto simp: lock_changeD(1,2,5,6) [OF c])
    then show ?thesis ..
  qed
qed

lemma change_inv:
  assumes "lock_inv file_at w" and "lock_change file_at w p t i l th m os w'" and "change_ok w p t i l th m"
    and "file_ok w (os_locks w (file_at (lk_key (objs w i)))) i l th os w'"
  shows "lock_inv file_at w'"
  unfolding lock_inv_def
  by (intro conjI change_inside [OF assms(1-3)] change_owner [OF assms(1-3)] change_stage [OF assms(1-3)]
      change_mutex [OF assms(1-3)] change_rlock [OF assms(1-3)] change_os [OF assms(1,2,4)]
      change_fd [OF assms(1,2,4)] change_open [OF assms] change_try [OF assms] change_held [OF assms])


lemma obj_simps [simp]:
  "lk_process (objs (unlock_os file_at i w) j) = lk_process (objs w j)" "objs (unlock_os file_at i w) = objs w"
  "threads (unlock_os file_at i w) = threads w" "mutexes (unlock_os file_at i w) = mutexes w"
  "next_fd (unlock_os file_at i w) = next_fd w"
  by (simp_all add: unlock_os_def Let_def)

lemma rlock_release_count:
  assumes "0 < rlock_count m t" and "\<forall>t n. m = Some (t, n) \<longrightarrow> 0 < n"
  shows "rlock_count (rlock_release m) t + 1 = rlock_count m t"
    "t' \<noteq> t \<Longrightarrow> rlock_count (rlock_release m) t' = rlock_count m t'"
    "rlock_release m = Some (t', n) \<Longrightarrow> 0 < n"
  using assms by (auto simp: rlock_count_def rlock_release_def split: option.splits prod.splits if_splits)

lemma rlock_acquire_count:
  assumes "rlock_acquire m t = Some m'" and "\<forall>t n. m = Some (t, n) \<longrightarrow> 0 < n"
  shows "rlock_count m' t = rlock_count m t + 1" "t' \<noteq> t \<Longrightarrow> rlock_count m' t' = rlock_count m t'"
    "t' \<noteq> t \<Longrightarrow> rlock_count m t' = 0" "m' = Some (t', n) \<Longrightarrow> 0 < n"
  using assms by (auto simp: rlock_acquire_def rlock_count_def split: option.splits prod.splits if_splits)

lemma count_tl: "count_list (tl xs) i = (if xs \<noteq> [] \<and> hd xs = i then count_list xs i - 1 else count_list xs i)"
  by (cases xs) auto

text \<open>Facts about the object a thread works on.\<close>

lemma busy_facts:
  assumes inv: "lock_inv file_at w" and i: "i \<in> set (busy_with (th_stage (threads w (p, t))))"
  shows "lk_process (objs w i) = p" "i \<notin> set (th_inside (threads w (p, t)))" "lk_depth (objs w i) = 0"
    "t' \<noteq> t \<Longrightarrow> i \<notin> holds (threads w (p, t'))" "0 < rlock_count (mutexes w (mutex_for w i)) t"
    "\<forall>t' n. mutexes w (mutex_for w i) = Some (t', n) \<longrightarrow> 0 < n"
proof -
  have holds: "i \<in> holds (threads w (p, t))" using i by (simp add: holds_def)
  show p: "lk_process (objs w i) = p" by (rule holds_cases(1) [OF inv holds])
  show "i \<notin> set (th_inside (threads w (p, t)))" by (rule holds_cases(2) [OF inv i])
  show "lk_depth (objs w i) = 0" by (rule busy_depth [OF inv i])
  show "t' \<noteq> t \<Longrightarrow> i \<notin> holds (threads w (p, t'))" using holds_unique [OF inv holds] by blast
  have "rlock_count (mutexes w (p, lk_key (objs w i))) t = claims (\<lambda>j. lk_key (objs w j)) (threads w (p, t)) (lk_key (objs w i))"
    using inv by (simp add: lock_inv_def inv_mutex_def)
  then show "0 < rlock_count (mutexes w (mutex_for w i)) t"
    using claims_pos [OF holds, of "\<lambda>j. lk_key (objs w j)"] by (simp add: mutex_for_def p)
  show "\<forall>t' n. mutexes w (mutex_for w i) = Some (t', n) \<longrightarrow> 0 < n"
    using inv by (simp add: lock_inv_def inv_rlock_def mutex_for_def)
qed

lemma failed_inv:
  assumes inv: "lock_inv file_at w" and s: "th_stage (threads w (p, t)) = AtOpen i \<or> th_stage (threads w (p, t)) = AtTry i d"
  shows "lock_inv file_at (acquire_failed file_at p t i e w)"
proof -
  have i: "i \<in> set (busy_with (th_stage (threads w (p, t))))" using s by auto
  note facts = busy_facts [OF inv i]
  let ?m = "mutexes w (mutex_for w i)"
  note rel = rlock_release_count [of ?m t, OF facts(5,6)]
  let ?th = "(threads w (p, t))\<lparr>th_stage := Elsewhere, th_raised := Some e\<rparr>"
  let ?l = "(objs w i)\<lparr>lk_fd := None\<rparr>"
  have "lock_change file_at w p t i ?l ?th (rlock_release ?m) (os_locks (unlock_os file_at i w) (file_at (lk_key (objs w i))))
    (acquire_failed file_at p t i e w)"
    using facts by (auto simp: lock_change_def acquire_failed_def close_fd_def unlock_os_def Let_def mutex_for_def)
  moreover have "change_ok w p t i ?l ?th (rlock_release ?m)"
    using facts rel i s by (auto simp: change_ok_def holds_def count_list_0_iff)
  moreover have "file_ok w (os_locks w (file_at (lk_key (objs w i)))) i ?l ?th
     (os_locks (unlock_os file_at i w) (file_at (lk_key (objs w i)))) (acquire_failed file_at p t i e w)"
    using facts by (auto simp: file_ok_def unlock_os_def Let_def)
  ultimately show ?thesis by (rule change_inv [OF inv])
qed

lemma entered_inv:
  assumes inv: "lock_inv file_at w" and s: "th_stage (threads w (p, t)) = AtTry i d"
    and got: "try_os_lock file_at can_lock i w = Some (True, w1)"
  shows "lock_inv file_at (enter_object p t i (set_obj i ((objs w1 i)\<lparr>lk_depth := 1, lk_owner := Some t\<rparr>) w1))"
proof -
  have i: "i \<in> set (busy_with (th_stage (threads w (p, t))))" using s by simp
  note facts = busy_facts [OF inv i]
  let ?k = "file_at (lk_key (objs w i))"
  have w1: "w1 = w\<lparr>os_locks := (os_locks w)(?k := lk_fd (objs w i))\<rparr>"
    "os_locks w ?k = None \<or> os_locks w ?k = lk_fd (objs w i)"
    using got by (auto simp: try_os_lock_def Let_def split: if_splits)
  let ?th = "\<lparr>th_stage = Elsewhere, th_inside = i # th_inside (threads w (p, t)), th_raised = None\<rparr>"
  let ?l = "(objs w i)\<lparr>lk_depth := 1, lk_owner := Some t\<rparr>"
  have "lk_fd (objs w i) \<noteq> None" using inv s unfolding lock_inv_def inv_try_def by blast
  let ?w = "enter_object p t i (set_obj i ((objs w1 i)\<lparr>lk_depth := 1, lk_owner := Some t\<rparr>) w1)"
  have "lock_change file_at w p t i ?l ?th (mutexes w (mutex_for w i)) (lk_fd (objs w i)) ?w"
    using facts w1(1) by (auto simp: lock_change_def enter_object_def)
  moreover have "change_ok w p t i ?l ?th (mutexes w (mutex_for w i))"
    using facts i s by (auto simp: change_ok_def holds_def count_list_0_iff)
  moreover have "file_ok w (os_locks w ?k) i ?l ?th (lk_fd (objs w i)) ?w"
    using facts w1(2) \<open>lk_fd (objs w i) \<noteq> None\<close> by (auto simp: file_ok_def)
  ultimately show ?thesis by (rule change_inv [OF inv])
qed

lemma opened_inv:
  assumes inv: "lock_inv file_at w" and s: "th_stage (threads w (p, t)) = AtOpen i"
  shows "lock_inv file_at (open_file now p t i w)"
proof -
  have i: "i \<in> set (busy_with (th_stage (threads w (p, t))))" using s by simp
  note facts = busy_facts [OF inv i]
  let ?k = "file_at (lk_key (objs w i))"
  have none: "lk_fd (objs w i) = None"
  proof (rule ccontr)
    assume "lk_fd (objs w i) \<noteq> None"
    with inv obtain u where u: "i \<in> set (th_inside (threads w (p, u))) \<or> i \<in> set (file_open (th_stage (threads w (p, u))))"
      unfolding lock_inv_def inv_open_def Let_def facts(1) [symmetric] by blast
    then have "i \<in> holds (threads w (p, u))" using file_busy by (auto simp: holds_def)
    with facts(4) have "u = t" by blast
    with u s facts(2) show False by simp
  qed
  let ?th = "(threads w (p, t))\<lparr>th_stage := AtTry i (map_option (\<lambda>(secs, s). now + secs) (lk_timeout (objs w i)))\<rparr>"
  let ?l = "(objs w i)\<lparr>lk_fd := Some (next_fd w)\<rparr>"
  have "lock_change file_at w p t i ?l ?th (mutexes w (mutex_for w i)) (os_locks w ?k) (open_file now p t i w)"
    using facts by (auto simp: lock_change_def open_file_def Let_def)
  moreover have "change_ok w p t i ?l ?th (mutexes w (mutex_for w i))"
    using facts i s by (auto simp: change_ok_def holds_def count_list_0_iff)
  moreover have "os_locks w ?k \<noteq> Some (next_fd w)"
    using inv other_fd(1) [OF inv] unfolding lock_inv_def inv_held_def by blast
  then have "file_ok w (os_locks w ?k) i ?l ?th (os_locks w ?k) (open_file now p t i w)"
    using facts none by (auto simp: file_ok_def open_file_def Let_def)
  ultimately show ?thesis by (rule change_inv [OF inv])
qed

lemma waiting_inv:
  assumes inv: "lock_inv file_at w" and s: "th_stage (threads w (p, t)) = Elsewhere" and p: "lk_process (objs w i) = p"
    and i: "i \<notin> set (th_inside (threads w (p, t)))"
  shows "lock_inv file_at (set_thread (p, t) ((threads w (p, t))\<lparr>th_stage := AtMutex i, th_raised := None\<rparr>) w)"
proof -
  let ?th = "(threads w (p, t))\<lparr>th_stage := AtMutex i, th_raised := None\<rparr>"
  define w' where "w' = set_thread (p, t) ?th w"
  have same: "objs w' = objs w" "mutexes w' = mutexes w" "os_locks w' = os_locks w" "next_fd w' = next_fd w"
    by (simp_all add: w'_def)
  have inside: "th_inside (threads w' x) = th_inside (threads w x)" for x by (simp add: w'_def)
  have stage: "th_stage (threads w' x) = (if x = (p, t) then AtMutex i else th_stage (threads w x))" for x
    by (simp add: w'_def)
  have "holds (threads w' x) = holds (threads w x)" for x by (simp add: holds_def inside stage s)
  then have "inv_mutex w'" using inv by (simp add: lock_inv_def inv_mutex_def claims_def same)
  moreover have "inv_inside w'" "inv_owner w'" "inv_rlock w'" "inv_os file_at w'" "inv_fd w'"
    using inv by (simp_all add: lock_inv_def inv_inside_def inv_owner_def inv_rlock_def inv_os_def inv_fd_def inside same)
  moreover have "inv_stage w'" using inv p i by (simp add: lock_inv_def inv_stage_def inside stage same)
  moreover have "inv_open w'"
  proof -
    have "file_open (th_stage (threads w' x)) = file_open (th_stage (threads w x))" for x by (simp add: stage s)
    with inv show ?thesis by (simp add: lock_inv_def inv_open_def inside same Let_def)
  qed
  moreover have "inv_try w'" using inv by (simp add: lock_inv_def inv_try_def stage same)
  moreover have "inv_held file_at w'"
  proof -
    have "th_stage (threads w' x) = AtUnlock j \<longleftrightarrow> th_stage (threads w x) = AtUnlock j" for x j by (simp add: stage s)
    with inv show ?thesis by (simp add: lock_inv_def inv_held_def same)
  qed
  ultimately show ?thesis by (simp add: lock_inv_def w'_def)
qed

lemma start_inv:
  assumes inv: "lock_inv file_at w" and s: "th_stage (threads w (p, t)) = Elsewhere" and p: "lk_process (objs w i) = p"
  shows "lock_inv file_at (acquire_start p t i w)"
proof (cases "0 < lk_depth (objs w i) \<and> lk_owner (objs w i) = Some t")
  case True
  then have i: "i \<in> set (th_inside (threads w (p, t)))" using inside_owner [OF inv] p by simp
  then have holds: "i \<in> holds (threads w (p, t))" by (simp add: holds_def)
  let ?th = "\<lparr>th_stage = Elsewhere, th_inside = i # th_inside (threads w (p, t)), th_raised = None\<rparr>"
  let ?l = "(objs w i)\<lparr>lk_depth := lk_depth (objs w i) + 1\<rparr>"
  let ?os = "os_locks w (file_at (lk_key (objs w i)))"
  have count: "count_list (th_inside (threads w (p, t))) i = lk_depth (objs w i)"
    using inv True p by (simp add: lock_inv_def inv_inside_def)
  obtain f where locked: "lk_fd (objs w i) = Some f" "?os = Some f"
    using inv True unfolding lock_inv_def inv_os_def by blast
  have w: "acquire_start p t i w = enter_object p t i (set_obj i ?l w)"
    using True by (simp add: acquire_start_def Let_def)
  have "lock_change file_at w p t i ?l ?th (mutexes w (mutex_for w i)) ?os (acquire_start p t i w)"
    unfolding w using p by (auto simp: lock_change_def enter_object_def)
  moreover have "change_ok w p t i ?l ?th (mutexes w (mutex_for w i))"
    using True i s count holds_unique [OF inv holds] inv
    by (auto simp: change_ok_def lock_inv_def inv_rlock_def holds_def mutex_for_def)
  moreover have "file_ok w ?os i ?l ?th ?os (acquire_start p t i w)"
    using True locked by (auto simp: file_ok_def)
  ultimately show ?thesis by (rule change_inv [OF inv])
next
  case False
  then have "i \<notin> set (th_inside (threads w (p, t)))" using inside_owner [OF inv, of i p t] by auto
  from waiting_inv [OF inv s p this] False show ?thesis by (auto simp: acquire_start_def Let_def)
qed

lemma mutex_inv:
  assumes inv: "lock_inv file_at w" and s: "th_stage (threads w (p, t)) = AtMutex i" and got: "take_mutex p t i w = Some w'"
  shows "lock_inv file_at w'"
proof -
  have p: "lk_process (objs w i) = p" "i \<notin> set (th_inside (threads w (p, t)))"
  proof -
    have "stage_object (th_stage (threads w (p, t))) = Some i" by (simp add: s)
    then show "lk_process (objs w i) = p" "i \<notin> set (th_inside (threads w (p, t)))"
      using inv unfolding lock_inv_def inv_stage_def by blast+
  qed
  from got obtain m where m: "rlock_acquire (mutexes w (mutex_for w i)) t = Some m"
    and w': "w' = set_thread (p, t) ((threads w (p, t))\<lparr>th_stage := AtOpen i\<rparr>) (set_mutex (mutex_for w i) m w)"
    by (auto simp: take_mutex_def)
  have pos: "\<forall>t' n. mutexes w (mutex_for w i) = Some (t', n) \<longrightarrow> 0 < n"
    using inv by (auto simp: lock_inv_def inv_rlock_def mutex_for_def)
  note acq = rlock_acquire_count [OF m pos]
  have none: "i \<notin> holds (threads w (p, u))" if "u \<noteq> t" for u
  proof
    assume "i \<in> holds (threads w (p, u))"
    from claims_pos [OF this, of "\<lambda>j. lk_key (objs w j)"] inv
    have "0 < rlock_count (mutexes w (mutex_for w i)) u" by (simp add: lock_inv_def inv_mutex_def mutex_for_def p)
    with acq(3) [OF that] show False by simp
  qed
  have "lk_depth (objs w i) = 0"
  proof (rule ccontr)
    assume d: "lk_depth (objs w i) \<noteq> 0"
    then obtain u where "lk_owner (objs w i) = Some u" using inv by (auto simp: lock_inv_def inv_owner_def)
    then have "i \<in> set (th_inside (threads w (p, u)))" using inside_owner [OF inv] p d by simp
    with none [of u] p(2) show False by (cases "u = t") (simp_all add: holds_def)
  qed
  moreover have fd: "lk_fd (objs w i) = None"
  proof (rule ccontr)
    assume "lk_fd (objs w i) \<noteq> None"
    with inv obtain u where u: "i \<in> set (th_inside (threads w (p, u))) \<or> i \<in> set (file_open (th_stage (threads w (p, u))))"
      unfolding lock_inv_def inv_open_def Let_def p(1) [symmetric] by blast
    then have "i \<in> holds (threads w (p, u))" using file_busy by (auto simp: holds_def)
    with none have "u = t" by blast
    with u s p(2) show False by simp
  qed
  ultimately have l: "lk_depth (objs w i) = 0" "lk_fd (objs w i) = None" by simp_all
  let ?th = "(threads w (p, t))\<lparr>th_stage := AtOpen i\<rparr>"
  let ?os = "os_locks w (file_at (lk_key (objs w i)))"
  have "lock_change file_at w p t i (objs w i) ?th m ?os w'"
    using p by (auto simp: lock_change_def w')
  moreover have "change_ok w p t i (objs w i) ?th m"
    using p s l acq none by (auto simp: change_ok_def holds_def count_list_0_iff)
  moreover have "file_ok w ?os i (objs w i) ?th ?os w'"
    using l by (auto simp: file_ok_def w')
  ultimately show ?thesis by (rule change_inv [OF inv])
qed

lemma left_inv:
  assumes inv: "lock_inv file_at w" and s: "th_stage (threads w (p, t)) = Elsewhere"
    and outer: "th_inside (threads w (p, t)) = i # outer"
  shows "lock_inv file_at (release_start p t i w)"
proof -
  have i: "i \<in> set (th_inside (threads w (p, t)))" using outer by simp
  then have holds: "i \<in> holds (threads w (p, t))" by (simp add: holds_def)
  have p: "lk_process (objs w i) = p" "lk_owner (objs w i) = Some t" "0 < lk_depth (objs w i)"
    using inside_owner [OF inv] i by blast+
  have "count_list (i # outer) i = lk_depth (objs w i)"
    using inv p unfolding lock_inv_def inv_inside_def outer [symmetric] by simp
  then have count: "lk_depth (objs w i) - 1 = count_list outer i" by simp
  let ?th = "\<lparr>th_stage = if lk_depth (objs w i) = 1 then AtUnlock i else Elsewhere, th_inside = outer,
     th_raised = th_raised (threads w (p, t))\<rparr>"
  let ?l = "(objs w i)\<lparr>lk_depth := lk_depth (objs w i) - 1\<rparr>"
  let ?os = "os_locks w (file_at (lk_key (objs w i)))"
  obtain f where locked: "lk_fd (objs w i) = Some f" "?os = Some f"
    using inv p(3) unfolding lock_inv_def inv_os_def by blast
  have w: "objs (release_start p t i w) = (objs w)(i := ?l)"
    "threads (release_start p t i w) = (threads w)((p, t) := ?th)"
    "mutexes (release_start p t i w) = mutexes w" "os_locks (release_start p t i w) = os_locks w"
    "next_fd (release_start p t i w) = next_fd w"
    using p(3) outer s by (auto simp: release_start_def Let_def)
  have "lock_change file_at w p t i ?l ?th (mutexes w (mutex_for w i)) ?os (release_start p t i w)"
    using p by (auto simp: lock_change_def w)
  moreover have "change_ok w p t i ?l ?th (mutexes w (mutex_for w i))"
  proof -
    have "i \<in> holds ?th" using p(3) count count_list_0_iff [of outer i] by (auto simp: holds_def)
    moreover have "\<forall>u. u \<noteq> t \<longrightarrow> i \<notin> holds (threads w (p, u))" using holds_unique [OF inv holds] by blast
    moreover have "\<forall>t' n. mutexes w (mutex_for w i) = Some (t', n) \<longrightarrow> 0 < n"
      using inv by (simp add: lock_inv_def inv_rlock_def mutex_for_def)
    ultimately show ?thesis using holds p s count outer unfolding change_ok_def by auto
  qed
  moreover have "file_ok w ?os i ?l ?th ?os (release_start p t i w)"
    using p(3) locked by (auto simp: file_ok_def)
  ultimately show ?thesis by (rule change_inv [OF inv])
qed

lemma unlock_inv:
  assumes inv: "lock_inv file_at w" and s: "th_stage (threads w (p, t)) = AtUnlock i"
  shows "lock_inv file_at (release_unlock file_at p t i w)"
proof -
  have i: "i \<in> set (busy_with (th_stage (threads w (p, t))))" using s by simp
  note facts = busy_facts [OF inv i]
  let ?k = "file_at (lk_key (objs w i))" and ?th = "(threads w (p, t))\<lparr>th_stage := AtFinish i\<rparr>"
  have "lock_change file_at w p t i (objs w i) ?th (mutexes w (mutex_for w i)) (os_locks (unlock_os file_at i w) ?k)
      (release_unlock file_at p t i w)"
    using facts(1) by (auto simp: lock_change_def release_unlock_def unlock_os_def Let_def)
  moreover have "change_ok w p t i (objs w i) ?th (mutexes w (mutex_for w i))"
    using facts i s by (auto simp: change_ok_def holds_def count_list_0_iff)
  moreover have "file_ok w (os_locks w ?k) i (objs w i) ?th (os_locks (unlock_os file_at i w) ?k)
      (release_unlock file_at p t i w)"
    using facts by (auto simp: file_ok_def unlock_os_def Let_def)
  ultimately show ?thesis by (rule change_inv [OF inv])
qed

lemma finish_inv:
  assumes inv: "lock_inv file_at w" and s: "th_stage (threads w (p, t)) = AtFinish i"
  shows "lock_inv file_at (release_finish file_at p t i w)"
proof -
  have i: "i \<in> set (busy_with (th_stage (threads w (p, t))))" using s by simp
  note facts = busy_facts [OF inv i]
  let ?m = "mutexes w (mutex_for w i)"
  note rel = rlock_release_count [of ?m t, OF facts(5,6)]
  let ?th = "(threads w (p, t))\<lparr>th_stage := Elsewhere\<rparr>"
  let ?l = "(objs w i)\<lparr>lk_fd := None, lk_owner := None\<rparr>"
  have "lock_change file_at w p t i ?l ?th (rlock_release ?m) (os_locks (unlock_os file_at i w) (file_at (lk_key (objs w i))))
    (release_finish file_at p t i w)"
    using facts by (auto simp: lock_change_def release_finish_def close_fd_def unlock_os_def Let_def mutex_for_def)
  moreover have "change_ok w p t i ?l ?th (rlock_release ?m)"
    using facts rel i s by (auto simp: change_ok_def holds_def count_list_0_iff)
  moreover have "file_ok w (os_locks w (file_at (lk_key (objs w i)))) i ?l ?th
     (os_locks (unlock_os file_at i w) (file_at (lk_key (objs w i)))) (release_finish file_at p t i w)"
    using facts by (auto simp: file_ok_def unlock_os_def Let_def)
  ultimately show ?thesis by (rule change_inv [OF inv])
qed

lemma die_inv:
  assumes inv: "lock_inv file_at w"
  shows "lock_inv file_at (die file_at p w)"
proof -
  define w' where "w' = die file_at p w"
  have objs: "objs w' i = (if lk_process (objs w i) = p
       then (objs w i)\<lparr>lk_fd := None, lk_depth := 0, lk_owner := None\<rparr> else objs w i)" for i
    by (simp add: w'_def die_def)
  have static: "lk_process (objs w' i) = lk_process (objs w i)" "lk_key (objs w' i) = lk_key (objs w i)" for i
    by (simp_all add: objs)
  have threads: "threads w' (q, t) = (if q = p then idle_thread else threads w (q, t))" for q t
    by (simp add: w'_def die_def)
  have mutexes: "mutexes w' (q, k) = (if q = p then None else mutexes w (q, k))" for q k
    by (simp add: w'_def die_def)
  have os: "os_locks w' k = Some f \<longleftrightarrow>
      os_locks w k = Some f \<and> (\<forall>i. lk_process (objs w i) = p \<longrightarrow> lk_fd (objs w i) \<noteq> Some f)" for k f
    by (auto simp: w'_def die_def)
  have nfd: "next_fd w' = next_fd w" by (simp add: w'_def die_def)
  have "inv_inside w'" using inv by (auto simp: lock_inv_def inv_inside_def threads objs idle_thread_def)
  moreover have "inv_owner w'" using inv by (simp add: lock_inv_def inv_owner_def objs)
  moreover have "inv_stage w'" using inv by (simp add: lock_inv_def inv_stage_def threads static idle_thread_def)
  moreover have "inv_mutex w'"
    using inv by (simp add: lock_inv_def inv_mutex_def threads static mutexes idle_thread_def claims_def holds_def rlock_count_def)
  moreover have "inv_rlock w'" using inv by (simp add: lock_inv_def inv_rlock_def mutexes split_paired_all)
  moreover have "inv_os file_at w'"
    unfolding inv_os_def
  proof (intro allI impI)
    fix i
    assume d: "0 < lk_depth (objs w' i)"
    then have p: "lk_process (objs w i) \<noteq> p" "0 < lk_depth (objs w i)" by (auto simp: objs split: if_splits)
    with inv obtain f where f: "lk_fd (objs w i) = Some f" "os_locks w (file_at (lk_key (objs w i))) = Some f"
      unfolding lock_inv_def inv_os_def by blast
    moreover have "lk_fd (objs w j) \<noteq> Some f" if "lk_process (objs w j) = p" for j
      using other_fd(2) [OF inv f(1), of j] that p(1) by blast
    ultimately show "\<exists>f. lk_fd (objs w' i) = Some f \<and> os_locks w' (file_at (lk_key (objs w' i))) = Some f"
      using p by (auto simp: os static objs)
  qed
  moreover have "inv_fd w'" using inv by (simp add: lock_inv_def inv_fd_def objs nfd)
  moreover have "inv_open w'" using inv by (simp add: lock_inv_def inv_open_def objs threads Let_def)
  moreover have "inv_try w'"
    unfolding inv_try_def
  proof (intro allI impI)
    fix x i d
    assume x: "th_stage (threads w' x) = AtTry i d"
    obtain q t where [simp]: "x = (q, t)" by (cases x)
    from x have "q \<noteq> p" "th_stage (threads w (q, t)) = AtTry i d"
      by (auto simp: threads idle_thread_def split: if_splits)
    moreover then have "lk_process (objs w i) = q" using busy_facts(1) [OF inv, of i q t] by simp
    moreover have "lk_fd (objs w i) \<noteq> None"
      using inv \<open>th_stage (threads w (q, t)) = AtTry i d\<close> unfolding lock_inv_def inv_try_def by blast
    ultimately show "lk_fd (objs w' i) \<noteq> None" by (simp add: objs)
  qed
  moreover have "inv_held file_at w'"
    unfolding inv_held_def
  proof (intro allI impI)
    fix k f
    assume "os_locks w' k = Some f"
    then have k: "os_locks w k = Some f" "\<And>i. lk_process (objs w i) = p \<Longrightarrow> lk_fd (objs w i) \<noteq> Some f"
      by (auto simp: os)
    with inv obtain i where i: "lk_fd (objs w i) = Some f" "file_at (lk_key (objs w i)) = k"
      "0 < lk_depth (objs w i) \<or> (\<exists>t. th_stage (threads w (lk_process (objs w i), t)) = AtUnlock i)"
      unfolding lock_inv_def inv_held_def by blast
    moreover have "lk_process (objs w i) \<noteq> p" using i(1) k(2) by blast
    ultimately show "\<exists>i. lk_fd (objs w' i) = Some f \<and> file_at (lk_key (objs w' i)) = k \<and>
        (0 < lk_depth (objs w' i) \<or> (\<exists>t. th_stage (threads w' (lk_process (objs w' i), t)) = AtUnlock i))"
      by (intro exI [of _ i]) (simp add: objs threads)
  qed
  ultimately show ?thesis by (simp add: lock_inv_def w'_def)
qed

lemma try_inv:
  assumes inv: "lock_inv file_at w" and s: "th_stage (threads w (p, t)) = AtTry i d"
  shows "lock_inv file_at (try_lock file_at can_lock now p t i d w)"
proof (cases "try_os_lock file_at can_lock i w")
  case None
  then show ?thesis using failed_inv [OF inv] s by (simp add: try_lock_def)
next
  case (Some r)
  obtain got w1 where r: "r = (got, w1)" by (cases r)
  show ?thesis
  proof (cases got)
    case True
    with entered_inv [OF inv s, of can_lock w1] Some r show ?thesis by (simp add: try_lock_def)
  next
    case False
    then have "w1 = w" using Some r by (auto simp: try_os_lock_def Let_def split: if_splits)
    with Some r False failed_inv [OF inv] s inv show ?thesis by (simp add: try_lock_def)
  qed
qed

lemma lock_step_inv: "lock_step file_at can_lock w w' \<Longrightarrow> lock_inv file_at w \<Longrightarrow> lock_inv file_at w'"
  by (induction rule: lock_step.induct)
    (simp_all add: start_inv mutex_inv opened_inv failed_inv try_inv left_inv unlock_inv finish_inv die_inv)

lemma first_inv: "lock_inv file_at (first_world os)"
  by (simp add: lock_inv_def first_world_def new_lock_def idle_thread_def inv_inside_def inv_owner_def inv_stage_def
      inv_mutex_def inv_rlock_def inv_os_def inv_fd_def inv_open_def inv_try_def inv_held_def claims_def holds_def
      rlock_count_def)

lemma lock_reachable_inv: "lock_reachable file_at can_lock w \<Longrightarrow> lock_inv file_at w"
  by (induction rule: lock_reachable.induct) (simp_all add: first_inv lock_step_inv)

text \<open>No step changes where a lock object points.\<close>

lemma lock_step_key: "lock_step file_at can_lock w w' \<Longrightarrow> lk_key (objs w' n) = lk_key (objs w n)"
  by (induction rule: lock_step.induct)
    (auto simp: acquire_start_def take_mutex_def open_file_def acquire_failed_def try_lock_def try_os_lock_def
      release_start_def release_unlock_def release_finish_def close_fd_def unlock_os_def enter_object_def die_def
      set_obj_def set_thread_def set_mutex_def Let_def split: option.splits prod.splits if_splits)

text \<open>Between two threads inside locks of one file there is no difference.\<close>

lemma exclusion:
  assumes inv: "lock_inv file_at w"
    and "i \<in> set (th_inside (threads w x))" and "j \<in> set (th_inside (threads w y))"
    and "file_at (lk_key (objs w i)) = file_at (lk_key (objs w j))"
  shows "x = y \<and> i = j"
proof -
  obtain p t q u where [simp]: "x = (p, t)" "y = (q, u)" by (cases x, cases y)
  have i: "lk_process (objs w i) = p" "lk_owner (objs w i) = Some t" "0 < lk_depth (objs w i)"
    and j: "lk_process (objs w j) = q" "lk_owner (objs w j) = Some u" "0 < lk_depth (objs w j)"
    using assms(2,3) inside_owner [OF inv] by simp_all
  have locked: "\<exists>f. lk_fd (objs w n) = Some f \<and> os_locks w (file_at (lk_key (objs w n))) = Some f"
    if "0 < lk_depth (objs w n)" for n
    using inv that unfolding lock_inv_def inv_os_def by blast
  obtain f where "lk_fd (objs w i) = Some f" "lk_fd (objs w j) = Some f"
    using locked [OF i(3)] locked [OF j(3)] assms(4) by auto
  then have "i = j" using other_fd(2) [OF inv] by blast
  with i j show ?thesis by simp
qed

end
