(* ===== verification/Lock_Owner.thy ===== *)
theory Lock_Owner
  imports Lock_Invariant
begin

text \<open>
  \<open>FileLock._write_owner\<close>: the note in the lock file, for people who look for the holder of a stuck lock. A state is
  the world of \<open>Locks\<close> with the contents of the lock files; the thread whose attempt gets the lock writes the number
  of its process and the clock, and no other step writes.
\<close>

section \<open>The note\<close>

text \<open>The text of the clock, in whole seconds, is given. A failed write is swallowed.\<close>

datatype note_outcome = TruncateFails | WriteFails | Written

definition owner_note :: "nat \<Rightarrow> string \<Rightarrow> string" where
  "owner_note p clock = dec_nat p @ '' '' @ clock @ [char_of (10 :: nat)]"

definition write_owner ::
  "(string \<Rightarrow> nat) \<Rightarrow> nat \<Rightarrow> nat \<Rightarrow> note_outcome \<Rightarrow> string \<Rightarrow> world \<Rightarrow> (nat \<Rightarrow> string) \<Rightarrow> nat \<Rightarrow> string" where
  "write_owner file_at p i outcome clock w texts =
     (let k = file_at (lk_key (objs w i))
      in if lk_fd (objs w i) = None then texts
         else case outcome of
           TruncateFails \<Rightarrow> texts
         | WriteFails \<Rightarrow> texts(k := [])
         | Written \<Rightarrow> texts(k := owner_note p clock))"

inductive noted_step ::
  "(string \<Rightarrow> nat) \<Rightarrow> bool \<Rightarrow> note_outcome set \<Rightarrow> world \<times> (nat \<Rightarrow> string) \<Rightarrow> world \<times> (nat \<Rightarrow> string) \<Rightarrow> bool"
  for file_at can_lock outcomes where
  enters: "th_stage (threads w (p, t)) = AtTry i deadline \<Longrightarrow> w' = try_lock file_at can_lock now p t i deadline w \<Longrightarrow>
     i \<in> set (th_inside (threads w' (p, t))) \<Longrightarrow> outcome \<in> outcomes \<Longrightarrow>
     noted_step file_at can_lock outcomes (w, texts) (w', write_owner file_at p i outcome clock w' texts)"
| other: "lock_step file_at can_lock w w' \<Longrightarrow>
     (\<And>x i deadline. th_stage (threads w x) = AtTry i deadline \<Longrightarrow> i \<notin> set (th_inside (threads w' x))) \<Longrightarrow>
     noted_step file_at can_lock outcomes (w, texts) (w', texts)"

inductive noted_reachable ::
  "(string \<Rightarrow> nat) \<Rightarrow> bool \<Rightarrow> note_outcome set \<Rightarrow> world \<times> (nat \<Rightarrow> string) \<Rightarrow> bool"
  for file_at can_lock outcomes where
  start: "noted_reachable file_at can_lock outcomes (first_world os, texts)"
| step: "noted_reachable file_at can_lock outcomes s \<Longrightarrow> noted_step file_at can_lock outcomes s s' \<Longrightarrow>
     noted_reachable file_at can_lock outcomes s'"

section \<open>Who is inside is named\<close>

text \<open>Who is inside after a step was inside before, or has just got the lock.\<close>

lemma entering_step:
  assumes "lock_step file_at can_lock w w'" and "lock_inv file_at w" and "j \<in> set (th_inside (threads w' y))"
  shows "j \<in> set (th_inside (threads w y)) \<or> (\<exists>deadline. th_stage (threads w y) = AtTry j deadline)"
  using assms
proof (induction rule: lock_step.induct)
  case (call w p t i)
  then show ?case using inside_owner [OF call.prems(1), of i p t]
    by (auto simp: acquire_start_def enter_object_def Let_def split: if_splits)
next
  case (attempt w p t i deadline now)
  then show ?case
    by (auto simp: try_lock_def try_os_lock_def acquire_failed_def close_fd_def unlock_os_def enter_object_def Let_def
        split: if_splits option.splits)
next
  case (leave w p t i outer)
  then show ?case by (auto simp: release_start_def Let_def split: if_splits)
qed (auto simp: take_mutex_def open_file_def acquire_failed_def close_fd_def unlock_os_def release_unlock_def
    release_finish_def die_def idle_thread_def Let_def split: if_splits)

lemma try_lock_inside:
  "th_inside (threads (try_lock file_at can_lock now p t i deadline w) y) = th_inside (threads w y) \<or>
   y = (p, t) \<and> th_inside (threads (try_lock file_at can_lock now p t i deadline w) y) = i # th_inside (threads w y)"
  by (auto simp: try_lock_def try_os_lock_def acquire_failed_def close_fd_def unlock_os_def enter_object_def Let_def)

definition notes_right :: "(string \<Rightarrow> nat) \<Rightarrow> note_outcome set \<Rightarrow> world \<times> (nat \<Rightarrow> string) \<Rightarrow> bool" where
  "notes_right file_at outcomes s \<longleftrightarrow>
     (\<forall>p t j. j \<in> set (th_inside (threads (fst s) (p, t))) \<longrightarrow>
        (let text = snd s (file_at (lk_key (objs (fst s) j)))
         in (\<exists>clock. text = owner_note p clock) \<or> WriteFails \<in> outcomes \<and> text = []))"

lemma enters_right:
  assumes "lock_inv file_at w" and "notes_right file_at outcomes (w, texts)" and "TruncateFails \<notin> outcomes"
    and "th_stage (threads w (p, t)) = AtTry i deadline" and w': "w' = try_lock file_at can_lock now p t i deadline w"
    and inside: "i \<in> set (th_inside (threads w' (p, t)))" and "outcome \<in> outcomes"
  shows "notes_right file_at outcomes (w', write_owner file_at p i outcome clock w' texts)"
  unfolding notes_right_def fst_conv snd_conv
proof (intro allI impI)
  fix q u j
  assume j: "j \<in> set (th_inside (threads w' (q, u)))"
  have step: "lock_step file_at can_lock w w'" unfolding w' by (rule lock_step.attempt [OF assms(4)])
  have inv': "lock_inv file_at w'" by (rule lock_step_inv [OF step assms(1)])
  have keys: "lk_key (objs w' m) = lk_key (objs w m)" for m by (rule lock_step_key [OF step])
  have fd: "lk_fd (objs w' i) \<noteq> None"
    using inv' inside_owner [OF inv', of i p t] inside by (auto simp: lock_inv_def inv_os_def)
  let ?text = "write_owner file_at p i outcome clock w' texts (file_at (lk_key (objs w' j)))"
  show "let text = ?text in (\<exists>clock. text = owner_note q clock) \<or> WriteFails \<in> outcomes \<and> text = []"
  proof (cases "file_at (lk_key (objs w' j)) = file_at (lk_key (objs w' i))")
    case True
    with exclusion [OF inv' j inside] have "q = p" by simp
    with True fd assms(3,7) show ?thesis by (cases outcome) (auto simp: write_owner_def Let_def)
  next
    case False
    then have "j \<in> set (th_inside (threads w (q, u)))"
      using j try_lock_inside [of file_at can_lock now p t i deadline w "(q, u)"] by (auto simp: w')
    moreover have "?text = texts (file_at (lk_key (objs w j)))"
      using False by (simp add: write_owner_def Let_def keys split: note_outcome.split)
    ultimately show ?thesis using assms(2) by (simp add: notes_right_def)
  qed
qed

lemma noted_inv:
  assumes "noted_reachable file_at can_lock outcomes s" and "TruncateFails \<notin> outcomes"
  shows "lock_inv file_at (fst s) \<and> notes_right file_at outcomes s"
  using assms
proof (induction rule: noted_reachable.induct)
  case (start os texts)
  have "lock_inv file_at (first_world os)" by (rule lock_reachable_inv [OF lock_reachable.start])
  then show ?case by (simp add: notes_right_def first_world_def idle_thread_def)
next
  case (step s s')
  from step.hyps(2) step.IH [OF step.prems] show ?case
  proof (cases rule: noted_step.cases)
    case (enters w p t i deadline w' now outcome texts clock)
    moreover from this have "lock_step file_at can_lock w w'" by (auto intro: lock_step.attempt)
    ultimately show ?thesis
      using step.IH [OF step.prems] step.prems enters_right lock_step_inv by fastforce
  next
    case (other w w' texts)
    then have inv: "lock_inv file_at w" "notes_right file_at outcomes (w, texts)" using step.IH [OF step.prems] by simp_all
    have "j \<in> set (th_inside (threads w x))" if "j \<in> set (th_inside (threads w' x))" for j x
      using entering_step [OF other(3) inv(1) that] other(4) that by blast
    then have "notes_right file_at outcomes (w', texts)"
      using inv(2) lock_step_key [OF other(3)] by (fastforce simp: notes_right_def)
    with other lock_step_inv [OF other(3) inv(1)] show ?thesis by simp
  qed
qed

text \<open>While a thread is inside a lock, the lock file names its process, or is empty because the write failed.\<close>

theorem lock_note_names_holder:
  assumes "noted_reachable file_at can_lock outcomes (w, texts)" and "TruncateFails \<notin> outcomes"
    and "i \<in> set (th_inside (threads w (p, t)))"
  shows "(\<exists>clock. texts (file_at (lk_key (objs w i))) = owner_note p clock) \<or>
    WriteFails \<in> outcomes \<and> texts (file_at (lk_key (objs w i))) = []"
  using noted_inv [OF assms(1,2)] assms(3) by (auto simp: notes_right_def Let_def)

text \<open>Every run of the locks is a run with notes.\<close>

lemma entering_is_attempt:
  assumes "lock_step file_at can_lock w w'" and "lock_inv file_at w" and "th_stage (threads w (p, t)) = AtTry i deadline"
    and "i \<in> set (th_inside (threads w' (p, t)))"
  shows "\<exists>now. w' = try_lock file_at can_lock now p t i deadline w"
proof -
  have out: "i \<notin> set (th_inside (threads w (p, t)))"
    using assms(2,3) unfolding lock_inv_def inv_stage_def by fastforce
  with assms(1,3,4) show ?thesis
  proof (induction rule: lock_step.induct)
    case (attempt w q u j d now)
    then show ?case using try_lock_inside [of file_at can_lock now q u j d w "(p, t)"] by (cases "(q, u) = (p, t)") auto
  qed (auto simp: acquire_start_def enter_object_def release_start_def take_mutex_def open_file_def acquire_failed_def
      close_fd_def unlock_os_def release_unlock_def release_finish_def die_def idle_thread_def Let_def split: if_splits)
qed

lemma noted_run:
  assumes "lock_reachable file_at can_lock w" and "outcomes \<noteq> {}"
  shows "\<exists>texts. noted_reachable file_at can_lock outcomes (w, texts)"
  using assms
proof (induction rule: lock_reachable.induct)
  case (start os)
  then show ?case using noted_reachable.start by blast
next
  case (step w w')
  then obtain texts where texts: "noted_reachable file_at can_lock outcomes (w, texts)" by blast
  obtain outcome where outcome: "outcome \<in> outcomes" using step.prems by blast
  show ?case
  proof (cases "\<exists>x i deadline. th_stage (threads w x) = AtTry i deadline \<and> i \<in> set (th_inside (threads w' x))")
    case False
    then have "noted_step file_at can_lock outcomes (w, texts) (w', texts)"
      by (intro noted_step.other [OF step.hyps(2)]) blast
    with noted_reachable.step [OF texts] show ?thesis by blast
  next
    case True
    then obtain p t i deadline where x: "th_stage (threads w (p, t)) = AtTry i deadline"
      "i \<in> set (th_inside (threads w' (p, t)))" by auto
    have "\<exists>now. w' = try_lock file_at can_lock now p t i deadline w"
      by (rule entering_is_attempt [OF step.hyps(2) lock_reachable_inv [OF step.hyps(1)] x])
    with noted_step.enters [OF x(1) _ x(2) outcome] noted_reachable.step [OF texts] show ?thesis by blast
  qed
qed

end
