(* ===== verification/Log_Properties.thy ===== *)
theory Log_Properties
  imports Shared_Log
begin

text \<open>
  The methods of one log: it verifies its own history (\<open>own_log_verifies\<close>), what an append returns and
  writes (\<open>append_outcome\<close>), and what a stale tail does to the chain. Rotation, checkpoints and inclusion
  proofs of a log are in \<open>Log_Anchors\<close>.
\<close>

section \<open>A log and its own keys\<close>

text \<open>The log's keys fit what its own \<open>verify\<close> passes to \<open>verify_chain\<close>.\<close>

definition self_ok :: "ed25519 \<Rightarrow> 's audit_log \<Rightarrow> bool" where
  "self_ok lib lg =
     writer_ok lib (log_seal_key lg) (non_empty (verify_keyring lg)) (non_empty (verify_signers lib lg None)) lg"

lemma same_config_self:
  assumes "same_config lg lg'"
  shows "verify_keyring lg' = verify_keyring lg" and "verify_signers lib lg' sgs = verify_signers lib lg sgs"
    and "self_ok lib lg' = self_ok lib lg"
proof -
  show 1: "verify_keyring lg' = verify_keyring lg" "verify_signers lib lg' sgs = verify_signers lib lg sgs" for sgs
    using assms by (simp_all add: same_config_def verify_keyring_def verify_signers_def log_public_key_def
        cong: option.case_cong)
  show "self_ok lib lg' = self_ok lib lg"
    using assms same_config_writer [OF assms] 1 by (simp add: self_ok_def same_config_def)
qed

lemma setdefault_lookup: "map_of (setdefault d k v) k = Some (case map_of d k of None \<Rightarrow> v | Some w \<Rightarrow> w)"
  by (auto simp: setdefault_def map_add_def split: option.splits)

lemma setdefault_nonempty [simp]: "setdefault d k v \<noteq> []"
  by (auto simp: setdefault_def)

lemma self_okI:
  assumes "\<And>k. log_seal_key lg = Some k \<Longrightarrow> map_of (log_keyring lg) (log_key_id lg) = Some k"
    and "\<And>seed. log_signing_key lg = Some seed \<Longrightarrow>
      ed25519_ok lib \<and> length seed = 32 \<and> \<not> has_surrogate (log_signer_id lg)"
  shows "self_ok lib lg"
proof -
  have "case log_seal_key lg of None \<Rightarrow> log_seal_key lg = None
      | Some k \<Rightarrow> if log_key_id lg = [] then log_seal_key lg = Some k
          else (case non_empty (verify_keyring lg) of None \<Rightarrow> False | Some m \<Rightarrow> map_of m (log_key_id lg) = Some k)"
    using assms(1) setdefault_lookup [of "log_keyring lg" "log_key_id lg"]
    by (simp add: verify_keyring_def non_empty_def split: option.split)
  moreover have "case non_empty (verify_signers lib lg None) of None \<Rightarrow> True
      | Some m \<Rightarrow> \<exists>seed pk. log_signing_key lg = Some seed \<and> map_of m (log_signer_id lg) = Some pk \<and>
          load_public_key lib pk = Inr (public_key_of lib seed)"
  proof (cases "log_signing_key lg")
    case (Some seed)
    with assms(2) have "load_public_key lib (PublicKey (public_key_of lib seed)) = Inr (public_key_of lib seed)"
      by (intro load_own_keys(3)) blast+
    with Some show ?thesis
      by (simp add: verify_signers_def log_public_key_def non_empty_def setdefault_lookup)
  qed (simp add: verify_signers_def log_public_key_def non_empty_def)
  ultimately show ?thesis
    using assms(2) by (auto simp: self_ok_def writer_ok_def split: option.split)
qed

lemma new_log_config:
  assumes "new_log lib b sk kid ring skey signer lk lp = Inr lg"
  shows "log_seal_key lg = sk" "log_key_id lg = kid" "log_signer_id lg = signer" "store lg = b"
    "\<not> log_inited lg" "log_last lg = None"
    "\<And>k. sk = Some k \<Longrightarrow> map_of (log_keyring lg) kid = Some k"
    "\<And>seed. log_signing_key lg = Some seed \<Longrightarrow> \<exists>k. skey = Some k \<and> load_private_key lib k = Inr seed"
proof -
  define ring' where "ring' = (case sk of None \<Rightarrow> (case ring of None \<Rightarrow> [] | Some m \<Rightarrow> m)
    | Some k \<Rightarrow> dict_put (case ring of None \<Rightarrow> [] | Some m \<Rightarrow> m) kid k)"
  from assms obtain s where s: "(case skey of None \<Rightarrow> Inr None
      | Some k \<Rightarrow> bindE (load_private_key lib k) (\<lambda>seed. Inr (Some seed))) = Inr s"
    and lg: "\<exists>l. lg = \<lparr>store = b, log_seal_key = sk, log_key_id = kid, log_signing_key = s, log_signer_id = signer,
      log_keyring = ring', log_lock = l, log_last = None, log_inited = False\<rparr>"
    unfolding new_log_def Let_def ring'_def [symmetric] by (auto simp: result_simps split: if_splits)
  from lg show "log_seal_key lg = sk" "log_key_id lg = kid" "log_signer_id lg = signer" "store lg = b"
    "\<not> log_inited lg" "log_last lg = None"
    "\<And>k. sk = Some k \<Longrightarrow> map_of (log_keyring lg) kid = Some k" by (auto simp: ring'_def map_of_dict_put)
  from lg s show "\<exists>k. skey = Some k \<and> load_private_key lib k = Inr seed" if "log_signing_key lg = Some seed" for seed
    using that by (auto simp: result_simps split: option.splits)
qed

section \<open>One writer\<close>

primrec run_ops :: "ed25519 \<Rightarrow> 's backend_ops \<Rightarrow> log_op list \<Rightarrow> 's audit_log \<Rightarrow> 's audit_log" where
  "run_ops lib ops [] lg = lg"
| "run_ops lib ops (p # ps) lg = run_ops lib ops ps (run_op lib ops p lg)"

text \<open>Every operation but a rotation leaves the configuration alone.\<close>

definition is_rotation :: "log_op \<Rightarrow> bool" where
  "is_rotation p = (case p of Rotate _ _ _ _ \<Rightarrow> True | _ \<Rightarrow> False)"

lemma keepsD: "keeps act \<Longrightarrow> same_config lg (snd (act lg))"
  by (simp add: keeps_def)

lemma run_op_same: "\<not> is_rotation p \<Longrightarrow> same_config lg (run_op lib ops p lg)"
proof -
  have "keeps (log_read ops)" unfolding log_read_def by (intro keeps_bindS keeps_init keeps_basic)
  moreover have "keeps (log_close ops)" unfolding log_close_def by (rule keeps_basic)
  moreover assume "\<not> is_rotation p"
  ultimately show ?thesis
    by (cases p) (simp_all add: is_rotation_def run_op_def keepsD keeps_append keeps_append_many)
qed

lemma memory_run_inv:
  assumes "list_all (\<lambda>p. op_ok ring p \<and> \<not> is_rotation p) ps" and "valid_chain lib sk ring sgs (store lg)"
    and "writer_ok lib sk ring sgs lg" and "tail_known (store lg) lg"
  shows "valid_chain lib sk ring sgs (store (run_ops lib memory_ops ps lg)) \<and>
    same_config lg (run_ops lib memory_ops ps lg) \<and>
    tail_known (store (run_ops lib memory_ops ps lg)) (run_ops lib memory_ops ps lg)"
  using assms
proof (induction ps arbitrary: lg)
  case (Cons p ps)
  let ?lg = "run_op lib memory_ops p lg"
  have "grows (\<lambda>_. True) id lib sk ring sgs lg ?lg"
    using Cons.prems by (intro memory.op_grows) (auto simp: op_fits_def memory_ops_def split: log_op.split)
  then have "valid_chain lib sk ring sgs (store ?lg)" "writer_ok lib sk ring sgs ?lg" "tail_known (store ?lg) ?lg"
    by (simp_all add: grows_def)
  moreover have same: "same_config lg ?lg" using Cons.prems(1) by (intro run_op_same) simp
  ultimately have "valid_chain lib sk ring sgs (store (run_ops lib memory_ops ps ?lg)) \<and>
    same_config ?lg (run_ops lib memory_ops ps ?lg) \<and>
    tail_known (store (run_ops lib memory_ops ps ?lg)) (run_ops lib memory_ops ps ?lg)"
    using Cons.IH [of ?lg] Cons.prems(1) by simp
  with same_config_trans [OF same] show ?case by simp
qed simp

lemma memory_read: "tail_known (store lg) lg \<Longrightarrow>
  \<exists>lg'. log_read memory_ops lg = (Inr (store lg), lg') \<and> same_config lg lg'"
proof -
  assume "tail_known (store lg) lg"
  then obtain lg' where "ensure_inited memory_ops lg = (Inr (), lg')" "id (store lg') = id (store lg)" "same_config lg lg'"
    using memory.ensure_inited_run [of lg] by auto
  then show ?thesis by (simp add: log_read_def on_store_def memory_ops_def)
qed

text \<open>A log in memory, made by the constructor and used by one caller, verifies its own history:
  after any sequence of appends, batches, reads and closes, of which some may have been refused,
  \<open>verify\<close> reports OK for all that is stored, with the seal key, the keyring and the public key the log holds.\<close>

theorem own_log_verifies:
  assumes "new_log lib [] sk kid ring skey signer lk lp = Inr lg" and "ed25519_ok lib"
    and "\<And>k seed. skey = Some k \<Longrightarrow> load_private_key lib k = Inr seed \<Longrightarrow> length seed = 32"
    and "\<not> has_surrogate signer" and "list_all (op_ok None) ps"
  shows "\<exists>rep. fst (log_verify lib memory_ops exn_str None None None (run_ops lib memory_ops ps lg)) = Inr rep \<and>
    ok rep \<and> records_checked rep = int (length (store (run_ops lib memory_ops ps lg)))"
proof -
  note new = new_log_config [OF assms(1)]
  have self: "self_ok lib lg"
    using new(7,8) assms(2-4) by (intro self_okI) (auto simp: new(1-3))
  let ?ring = "non_empty (verify_keyring lg)" and ?sgs = "non_empty (verify_signers lib lg None)"
  let ?lg = "run_ops lib memory_ops ps lg"
  have "list_all (\<lambda>p. op_ok ?ring p \<and> \<not> is_rotation p) ps"
    using assms(5) by (auto simp: list_all_iff op_ok_def is_rotation_def split: log_op.splits)
  from memory_run_inv [OF this, of lib sk ?sgs lg] self
  have run: "valid_chain lib sk ?ring ?sgs (store ?lg)" "same_config lg ?lg" "tail_known (store ?lg) ?lg"
    by (simp_all add: self_ok_def new tail_known_def)
  from memory_read [OF run(3)] obtain lg' where read: "log_read memory_ops ?lg = (Inr (store ?lg), lg')"
    "same_config ?lg lg'" by blast
  have "same_config lg lg'" using run(2) read(2) by (rule same_config_trans)
  then have "log_seal_key lg' = sk" "verify_keyring lg' = verify_keyring lg"
    "verify_signers lib lg' None = verify_signers lib lg None"
    using same_config_self [of lg lg'] by (simp_all add: same_config_def new(1))
  with valid_chain_report [OF run(1)] read(1) show ?thesis by (auto simp: log_verify_def)
qed

theorem own_log_verifies_witness:
  "\<exists>(lg :: audit_record list audit_log) rep. new_log demo_ed25519 [] (Some (replicate 16 1)) ''k0'' None (Some (PrivateKey sample_seed)) ''s0'' None None = Inr lg \<and>
     fst (log_verify demo_ed25519 memory_ops (\<lambda>_. []) None None None
       (run_ops demo_ed25519 memory_ops [demo_append, Append ''bob'' ''pay'' [] (Some [(''x'', PyOpaque)]) None ''t'', demo_append] lg)) = Inr rep \<and> ok rep"
proof -
  have key: "load_private_key demo_ed25519 (PrivateKey sample_seed) = Inr sample_seed"
    using load_own_keys(1) [OF demo_ed25519_ok length_sample_seed] .
  then obtain lg :: "audit_record list audit_log" where lg: "new_log demo_ed25519 [] (Some (replicate 16 1)) ''k0'' None (Some (PrivateKey sample_seed)) ''s0'' None None = Inr lg"
    by (auto simp: new_log_def MIN_KEY_LENGTH_def Let_def)
  have "\<exists>rep. fst (log_verify demo_ed25519 memory_ops (\<lambda>_. []) None None None
       (run_ops demo_ed25519 memory_ops [demo_append, Append ''bob'' ''pay'' [] (Some [(''x'', PyOpaque)]) None ''t'', demo_append] lg)) = Inr rep \<and>
    ok rep \<and> records_checked rep = int (length (store
       (run_ops demo_ed25519 memory_ops [demo_append, Append ''bob'' ''pay'' [] (Some [(''x'', PyOpaque)]) None ''t'', demo_append] lg)))"
    using key by (intro own_log_verifies [OF lg demo_ed25519_ok])
      (simp_all add: is_ascii_no_surrogate op_ok_def is_rotation_def demo_append_def or_empty_def wf_dict text_ok_def)
  with lg show ?thesis by blast
qed

section \<open>What an append does\<close>

lemma jsonl_reads_only: "reads_only (jsonl_ops exn_str path)"
  by (simp add: reads_only_def jsonl_ops_def jsonl_load_def jsonl_load_last_def)

lemma build_clean:
  assumes "is_ascii (prev_hash (build_record lg ac an sub meta ts prev))"
  shows "clean_record (build_record lg ac an sub meta ts prev) \<longleftrightarrow>
    list_all (\<lambda>s. \<not> has_surrogate s) [ac, an, sub, ts] \<and> clean (PyDict meta)"
  using assms by (auto simp: clean_record_def is_ascii_no_surrogate)

lemma seal_refused:
  assumes "writer_ok lib sk ring sgs lg"
    and "is_ascii (case prev of None \<Rightarrow> GENESIS_HASH | Some p \<Rightarrow> hash p)"
    and "seal_record lib lg (build_record lg ac an sub meta ts prev) = Inl e"
  shows "e = (if dumpable (PyDict meta) then UnicodeEncodeError else ValueError ''metadata must be JSON-serializable'')"
    and "\<not> (dumpable (PyDict meta) \<and> list_all (\<lambda>s. \<not> has_surrogate s) [ac, an, sub, ts] \<and> clean (PyDict meta))"
proof -
  let ?r = "build_record lg ac an sub meta ts prev"
  have ascii: "is_ascii (prev_hash ?r)" using assms(2) by (simp split: option.splits)
  have "\<exists>e'. compute_record_hash ?r (log_seal_key lg) = Inl e' \<and>
      e = (if is_type_error e' then ValueError ''metadata must be JSON-serializable'' else e')"
  proof (cases "compute_record_hash ?r (log_seal_key lg)")
    case (Inl e')
    with assms(3) show ?thesis by (simp add: seal_record_def)
  next
    case (Inr h)
    then have "\<exists>r. seal_record lib lg ?r = Inr r"
    proof (cases "log_signing_key lg")
      case (Some seed)
      with assms(1) record_hash_shape [OF Inr] sign_record_defined [of lib seed "?r\<lparr>hash := h\<rparr>"] Inr show ?thesis
        by (auto simp: seal_record_Inr writer_ok_def)
    qed (simp add: seal_record_Inr Inr)
    with assms(3) show ?thesis by simp
  qed
  then show "e = (if dumpable (PyDict meta) then UnicodeEncodeError else ValueError ''metadata must be JSON-serializable'')"
    and "\<not> (dumpable (PyDict meta) \<and> list_all (\<lambda>s. \<not> has_surrogate s) [ac, an, sub, ts] \<and> clean (PyDict meta))"
    using compute_record_hash_Inl [OF ascii] build_clean [OF ascii]
    by (auto simp: is_type_error_def split: if_splits)
qed

text \<open>C21: An append to a JSONL log in a good state has one of two outcomes. Either it returns the sealed
  record, which carries the given fields, and the file has grown by exactly the line of this record; then the
  metadata were serialisable and no string held a lone surrogate. Or it raises, \<open>ValueError\<close> for metadata
  that JSON does not know and \<open>UnicodeEncodeError\<close> for a lone surrogate, and the file is as it was. The
  chain in the file stays valid in both cases.\<close>

theorem append_outcome:
  fixes lg :: "disk_file audit_log"
  assumes "jsonl_usable (store lg)" and "tail_known (jsonl_stored (store lg)) lg"
    and "valid_chain lib sk ring sgs (jsonl_stored (store lg))" and "writer_ok lib sk ring sgs lg" and "ids_safe lg"
    and "wf_value False (PyDict (or_empty meta))"
    and "entry_ok ac an sub (or_empty meta) (or_now now ts) \<longrightarrow> entry_safe ac an sub (or_empty meta) (or_now now ts)"
  shows "case log_append lib (jsonl_ops exn_str path) now ac an sub meta ts lg of
      (Inl e, lg') \<Rightarrow>
        \<not> entry_ok ac an sub (or_empty meta) (or_now now ts) \<and> store lg' = store lg \<and>
        e = (if dumpable (PyDict (or_empty meta)) then UnicodeEncodeError
             else ValueError ''metadata must be JSON-serializable'')
    | (Inr r, lg') \<Rightarrow>
        entry_ok ac an sub (or_empty meta) (or_now now ts) \<and>
        actor r = ac \<and> action r = an \<and> subject r = sub \<and> metadata r = or_empty meta \<and> timestamp r = or_now now ts \<and>
        store lg' = Some (contents (store lg) @ line_of r @ [LF]) \<and>
        valid_chain lib sk ring sgs (jsonl_stored (store lg'))"
proof -
  let ?ops = "jsonl_ops exn_str path" and ?old = "jsonl_stored (store lg)"
  let ?seal = "seal_record lib lg (build_record lg ac an sub (or_empty meta) (or_now now ts) (last_record ?old))"
  note prev = last_record_ascii [OF assms(3)]
  have ok: "entry_ok ac an sub (or_empty meta) (or_now now ts) \<longleftrightarrow> (\<exists>r. ?seal = Inr r)"
    using seal_accepts [OF assms(4) prev assms(6)] by simp
  have fits: "\<forall>r. ?seal = Inr r \<longrightarrow> jsonl_ok r"
    using ok assms(7) sealed_jsonl_ok [OF _ _ assms(5) prev] by blast
  from assms(1-4,6) fits show ?thesis
  proof (cases rule: jsonl.append_step [of lg lib sk ring sgs meta ac an sub now ts exn_str path])
    case (refused e lg')
    from ok refused(2) have "\<not> entry_ok ac an sub (or_empty meta) (or_now now ts)" by simp
    with refused(1,8) seal_refused(1) [OF assms(4) prev refused(2)] jsonl_reads_only show ?thesis by simp
  next
    case (appended r lg')
    from ok appended(2) have e: "entry_ok ac an sub (or_empty meta) (or_now now ts)" by simp
    have "jsonl_ok r" using fits appended(2) by blast
    from jsonl_append_ok [OF this] appended(11) jsonl_reads_only
    have "store lg' = Some (contents (store lg) @ line_of r @ [LF])"
      by (simp add: jsonl_ops_def jsonl_file_def file_of_def)
    with appended(1,8) e seal_record_fields [OF appended(2)] show ?thesis by simp
  qed
qed

theorem append_outcome_witness:
  "\<exists>r lg1 lg2.
     log_append demo_ed25519 (jsonl_ops (\<lambda>_. []) ''log'') ''t'' ''alice'' ''login'' [] None None (demo_log None NoLock) = (Inr r, lg1) \<and>
     store lg1 = Some (line_of r @ [LF]) \<and>
     log_append demo_ed25519 (jsonl_ops (\<lambda>_. []) ''log'') ''t'' ''alice'' ''login'' [] (Some [(''x'', PyOpaque)]) None (demo_log None NoLock) =
       (Inl (ValueError ''metadata must be JSON-serializable''), lg2) \<and> store lg2 = None"
proof -
  let ?ops = "jsonl_ops (\<lambda>_. []) ''log''" and ?lg = "demo_log None NoLock"
  have lg: "tail_known (jsonl_stored (store ?lg)) ?lg" "ids_safe ?lg" "store ?lg = None"
    by (simp_all add: tail_known_def ids_safe_def string_safe_ascii demo_log_def)
  have good: "entry_ok ''alice'' ''login'' [] (or_empty None) (or_now ''t'' None)"
    "entry_safe ''alice'' ''login'' [] (or_empty None) (or_now ''t'' None)"
    "wf_value False (PyDict (or_empty None))"
    by (simp_all add: entry_ok_def entry_safe_def or_empty_def or_now_def string_safe_ascii is_ascii_no_surrogate
        wf_dict clean_dict dumpable_dict texts_ok_dict)
  have bad: "\<not> entry_ok ''alice'' ''login'' [] (or_empty (Some [(''x'', PyOpaque)])) (or_now ''t'' None)"
    "wf_value False (PyDict (or_empty (Some [(''x'', PyOpaque)])))" "\<not> dumpable (PyDict (or_empty (Some [(''x'', PyOpaque)])))"
    by (simp_all add: entry_ok_def or_empty_def wf_dict dumpable_dict text_ok_def)
  have "jsonl_usable (store ?lg)" "valid_chain demo_ed25519 (Some (replicate 16 1)) (Some demo_ring) (Some demo_signers) (jsonl_stored (store ?lg))"
    by (simp_all add: lg(3))
  note out = append_outcome [OF this(1) lg(1) this(2) demo_writer_ok lg(2), where now = "''t''" and ac = "''alice''"
      and an = "''login''" and sub = "[]" and ts = None and exn_str = "\<lambda>_. []" and path = "''log''"]
  obtain x1 lg1 where 1: "log_append demo_ed25519 ?ops ''t'' ''alice'' ''login'' [] None None ?lg = (x1, lg1)" by fastforce
  obtain x2 lg2 where 2: "log_append demo_ed25519 ?ops ''t'' ''alice'' ''login'' [] (Some [(''x'', PyOpaque)]) None ?lg = (x2, lg2)" by fastforce
  from out [OF good(3) impI, OF good(2)] good(1) obtain r where
    "x1 = Inr r" "store lg1 = Some (line_of r @ [LF])" by (cases x1) (auto simp: 1 lg(3) contents_def)
  moreover from out [OF bad(2) impI] bad(1,3) have
    "x2 = Inl (ValueError ''metadata must be JSON-serializable'')" "store lg2 = None" by (cases x2; simp add: 2 lg(3))+
  ultimately show ?thesis using 1 2 by blast
qed

section \<open>A stale tail\<close>

text \<open>A writer without a lock that does not know the last record of the storage, because another
  writer has appended since it last looked, breaks the chain with its next append: whatever keys a verifier
  holds, the log no longer verifies.\<close>

theorem stale_tail_breaks_chain:
  assumes "log_inited lg" and "log_lock lg = NoLock"
    and "(case log_last lg of None \<Rightarrow> 0 | Some p \<Rightarrow> seq p + 1) \<noteq> int (length (store lg))"
    and "log_append lib memory_ops now ac an sub meta ts lg = (Inr r, lg')"
    and "verify_chain lib' (store lg') sk count ring cpo sgs = Inr rep"
  shows "\<not> ok rep"
proof
  assume "ok rep"
  with assms(5) have valid: "valid_chain lib' sk ring sgs (store lg')"
    using verify_chain_ok [of lib' "store lg'" sk count ring cpo sgs rep] by blast
  from assms(1,2,4) obtain r' where
    r': "seal_record lib lg (build_record lg ac an sub (or_empty meta) (or_now now ts) (log_last lg)) = Inr r'"
    "store lg' = store lg @ [r']"
    by (auto simp: log_append_def ensure_inited_def refresh_tail_def shared_def bindS_Inr memory_ops_def on_store_def
        modify_def liftS_def returnS_def)
  from valid_seq [OF valid, of "length (store lg)"] r'(2) have "seq r' = int (length (store lg))" by simp
  with seal_record_fields(1) [OF r'(1)] assms(3) show False by simp
qed

theorem stale_tail_breaks_chain_witness:
  "\<exists>lg' r. log_append demo_ed25519 memory_ops ''t'' ''bob'' ''pay'' [] None None
      ((demo_log [sample_record] NoLock)\<lparr>log_inited := True\<rparr>) = (Inr r, lg') \<and>
     (\<forall>rep. verify_chain demo_ed25519 (store lg') None None None None None = Inr rep \<longrightarrow> \<not> ok rep)"
proof -
  let ?lg = "(demo_log [sample_record] NoLock)\<lparr>log_inited := True\<rparr>"
  have lg: "log_inited ?lg" "log_lock ?lg = NoLock" "log_last ?lg = None" "store ?lg = [sample_record]"
    by (simp_all add: demo_log_def)
  have "entry_ok ''bob'' ''pay'' [] (or_empty None) (or_now ''t'' None)"
    by (simp add: entry_ok_def or_empty_def or_now_def is_ascii_no_surrogate wf_dict clean_dict dumpable_dict)
  moreover have "writer_ok demo_ed25519 (Some (replicate 16 1)) (Some demo_ring) (Some demo_signers) ?lg"
    using demo_writer_ok [of "[sample_record]" NoLock]
    by (subst same_config_writer [of "demo_log [sample_record] NoLock"]) simp_all
  moreover have "is_ascii (case log_last ?lg of None \<Rightarrow> GENESIS_HASH | Some p \<Rightarrow> hash p)"
    by (simp add: lg(3) GENESIS_HASH_def is_ascii_def list_all_length)
  ultimately obtain r where "seal_record demo_ed25519 ?lg
      (build_record ?lg ''bob'' ''pay'' [] (or_empty None) (or_now ''t'' None) (log_last ?lg)) = Inr r"
    using seal_defined by blast
  with lg have "\<exists>lg'. log_append demo_ed25519 memory_ops ''t'' ''bob'' ''pay'' [] None None ?lg = (Inr r, lg')"
    by (simp add: log_append_def ensure_inited_def refresh_tail_def shared_def memory_ops_def on_store_def modify_def)
  then obtain lg' where run: "log_append demo_ed25519 memory_ops ''t'' ''bob'' ''pay'' [] None None ?lg = (Inr r, lg')" ..
  have "(case log_last ?lg of None \<Rightarrow> 0 | Some p \<Rightarrow> seq p + 1) \<noteq> int (length (store ?lg))" by (simp add: lg)
  from stale_tail_breaks_chain [OF lg(1,2) this run] run show ?thesis by blast
qed

end
