(* ===== verification/Jsonl_Properties.thy ===== *)
theory Jsonl_Properties
  imports Log_Anchors
begin

text \<open>
  What the JSONL file gives back: batches and single appends write the same file and are read
  back (\<open>jsonl_roundtrip\<close>), the backward scan of \<open>load_last\<close> finds the last line of any file
  (\<open>load_last_is_last_line\<close>), a torn last line is reported, and two files \<open>load\<close> does not cope with: one
  with a line separator in a string, and one with a line that is no JSON object.
\<close>

section \<open>Reading back\<close>

lemma append_each_ok:
  "list_all jsonl_ok rs \<Longrightarrow> rs \<noteq> [] \<Longrightarrow> append_each jsonl_append rs f = (Inr (), Some (contents f @ jsonl_file rs))"
proof (induction rs arbitrary: f)
  case (Cons r rs)
  then show ?case
    by (cases "rs = []") (simp_all add: jsonl_append_ok contents_def jsonl_file_def file_of_def returnS_def bindS_def)
qed simp

text \<open>C23: Records whose strings keep to their line are read back as they were appended, after what was
  there, with the metadata sorted by key; appending them in one batch and one by one leaves the same file.\<close>

theorem jsonl_roundtrip:
  assumes "jsonl_usable f" and "list_all jsonl_ok rs" and "rs \<noteq> []"
  shows "\<exists>f' old. jsonl_append_many rs f = (Inr (), f') \<and> append_each jsonl_append rs f = (Inr (), f') \<and>
    jsonl_load exn_str path f = (Inr old, f) \<and> jsonl_load exn_str path f' = (Inr (old @ map sorted_metadata rs), f') \<and>
    list_all2 same_record rs (map sorted_metadata rs)"
proof -
  from assms(1) obtain old where old: "list_all jsonl_ok old" "contents f = jsonl_file old" by (auto simp: jsonl_usable_def)
  let ?f = "Some (contents f @ jsonl_file rs)"
  have "list_all jsonl_ok (old @ rs)" "contents ?f = jsonl_file (old @ rs)"
    using old assms(2) by (simp_all add: contents_def jsonl_file_append)
  from load_ok_file [OF this] load_ok_file [OF old]
  have "jsonl_load exn_str path f = (Inr (map sorted_metadata old), f)"
    "jsonl_load exn_str path ?f = (Inr (map sorted_metadata old @ map sorted_metadata rs), ?f)" by simp_all
  moreover have "list_all2 same_record rs (map sorted_metadata rs)"
    using assms(2) sorted_metadata_same by (auto simp: list_all2_conv_all_nth list_all_length)
  ultimately show ?thesis
    using jsonl_append_many_ok [OF assms(2)] append_each_ok [OF assms(2,3)] by blast
qed

lemma ascii_genesis: "is_ascii GENESIS_HASH"
  by (simp add: GENESIS_HASH_def is_ascii_def list_all_length)

lemma sample_jsonl_ok: "jsonl_ok sample_record"
  using ascii_genesis
  by (simp add: jsonl_ok_def wf_record_def wf_dict dumpable_dict texts_ok_dict string_safe_ascii sample_record_def)

theorem jsonl_roundtrip_witness:
  "\<exists>f'. jsonl_append_many [sample_record, sample_record] None = (Inr (), f') \<and>
     jsonl_load (\<lambda>_. []) [] f' = (Inr [sample_record, sample_record], f')"
proof -
  have "list_all jsonl_ok [sample_record, sample_record]" using sample_jsonl_ok by simp
  from jsonl_roundtrip [OF jsonl_stored_None(1) this, of "\<lambda>_. []" "[]"] obtain f' old where
    "jsonl_append_many [sample_record, sample_record] None = (Inr (), f')" "jsonl_load (\<lambda>_. []) [] None = (Inr old, None)"
    "jsonl_load (\<lambda>_. []) [] f' = (Inr (old @ map sorted_metadata [sample_record, sample_record]), f')" by auto
  moreover have "sorted_metadata sample_record = sample_record" by (simp add: sorted_metadata_def sample_record_def)
  ultimately show ?thesis by (simp add: jsonl_load_def)
qed

text \<open>C24: \<open>load_last\<close> reads the file backwards by chunks of 64 KiB, but what it returns is the record on the
  last line that is not blank, whatever the lengths of the lines and of the file; it returns \<open>None\<close> only when
  there is no such line.\<close>

theorem load_last_is_last_line:
  "fst (jsonl_load_last exn_str path (Some t)) =
     (case rev (full_lines t) of
        [] \<Rightarrow> Inr None
      | line # _ \<Rightarrow>
          (case utf8_chars line of
             None \<Rightarrow> Inl UnicodeDecodeError
           | Some _ \<Rightarrow> bindE (parse_line exn_str (path @ '': last line'') line) (\<lambda>r. Inr (Some r))))"
proof (cases "rev (full_lines t)")
  case (Cons l ls)
  then have l: "full_lines t \<noteq> []" "last (full_lines t) = l" by (auto simp: rev_eq_Cons_iff)
  then have "l \<in> set (full_lines t)" using last_in_set by metis
  then have "l \<noteq> []" by (auto simp: full_lines_def blank_def)
  with Cons l show ?thesis by (simp add: jsonl_load_last_def scan_back_correct split: option.split)
qed (simp add: jsonl_load_last_def scan_back_correct)

section \<open>A line separator in a string\<close>

text \<open>U+2028, in UTF-8.\<close>

definition line_separator :: string where
  "line_separator = [CHR 0xE2, CHR 0x80, CHR 0xA8]"

lemma separator_char: "utf8_chars (line_separator @ s) = map_option ((#) line_separator) (utf8_chars s)"
  using utf8_chars_step [of "CHR 0xE2" "[CHR 0x80, CHR 0xA8]" s]
  by (simp add: line_separator_def utf8_width_def conts_def cont_def)

lemma universal_id_append: "[CR] \<notin> set xs \<Longrightarrow> universal_newlines (xs @ ys) = xs @ universal_newlines ys"
proof (induction xs)
  case (Cons x xs)
  then show ?case by (cases "xs @ ys") (auto simp: Cons_eq_append_conv append_eq_Cons_conv)
qed simp

lemma split_lines_break:
  "\<forall>c \<in> set cs. c \<notin> set line_breaks \<Longrightarrow> b \<in> set line_breaks \<Longrightarrow>
   split_lines (cs @ b # rest) cur = (cur @ concat cs) # split_lines rest []"
  by (induction cs arbitrary: cur) simp_all

text \<open>A file whose first line breaks off within a string cannot be loaded.\<close>

lemma load_broken_line:
  assumes "list_all plain_char pre" and "utf8_chars rest \<noteq> None" and "strip pre \<noteq> []" and "loads pre = Inl JSONDecodeError"
  shows "jsonl_load exn_str path (Some (pre @ line_separator @ rest)) =
    (Inl (LogCorruptedError (path @ '':1: '' @ exn_str JSONDecodeError)), Some (pre @ line_separator @ rest))"
proof -
  from assms(2) obtain cs where cs: "utf8_chars rest = Some cs" by blast
  let ?pre = "map (\<lambda>c. [c]) pre"
  have "is_ascii pre" using assms(1) by (auto simp: is_ascii_def list_all_iff plain_char_def)
  from utf8_chars_append [OF utf8_chars_ascii [OF this]] cs
  have chars: "utf8_chars (pre @ line_separator @ rest) = Some (?pre @ line_separator # cs)"
    by (simp add: separator_char)
  have safe: "\<forall>c \<in> set ?pre. c \<notin> set line_breaks" using assms(1) by (auto simp: list_all_iff plain_char_safe)
  have "[CR] \<notin> set (?pre @ [line_separator])" using safe LF_break by (auto simp: line_separator_def)
  from universal_id_append [OF this, of cs]
  have "universal_newlines (?pre @ line_separator # cs) = ?pre @ line_separator # universal_newlines cs" by simp
  moreover have "line_separator \<in> set line_breaks" by (simp add: line_separator_def line_breaks_def)
  ultimately have "\<exists>ls. split_lines (universal_newlines (?pre @ line_separator # cs)) [] = pre # ls"
    using split_lines_break [OF safe] by (simp add: comp_def)
  then obtain ls where "split_lines (universal_newlines (?pre @ line_separator # cs)) [] = pre # ls" ..
  with chars have "file_lines (pre @ line_separator @ rest) = Inr (pre # ls)" by (simp add: file_lines_def)
  with assms(3,4) show ?thesis
    by (simp add: jsonl_load_def parse_line_def is_parse_error_def dec_nat.simps dec_digit_def)
qed

text \<open>Strings that decode, and printed values of such strings.\<close>

definition valid_text :: "string \<Rightarrow> bool" where
  "valid_text s = (utf8_chars s \<noteq> None)"

lemma closed_valid_text: "text_closed valid_text"
proof -
  have "utf8_chars [c] = Some [[c]]" if "plain_char c" for c
    using utf8_chars_ascii [of "[c]"] that by (simp add: plain_char_def)
  moreover have "valid_text (a @ b)" if "valid_text a" "valid_text b" for a b
    using that utf8_chars_append [of a _ b] by (auto simp: valid_text_def)
  ultimately show ?thesis by (auto simp: text_closed_def valid_text_def)
qed

lemma escape_valid:
  assumes "valid_text s"
  shows "valid_text (escape False s)"
proof -
  from assms obtain cs where "utf8_chars s = Some cs" by (auto simp: valid_text_def)
  then show ?thesis
  proof (induction rule: utf8_induct)
    case (Char c w t ds)
    show ?case
    proof (cases "of_char c < (128 :: nat)")
      case True
      with Char(2) have "w = []" by (auto simp: utf8_width_def)
      with Char(4) closed_append [OF closed_valid_text closed_plain [OF closed_valid_text escape_char_plain [OF True]]]
      show ?thesis by simp
    next
      case False
      then have "w \<noteq> []" using Char(2) utf8_width_ascii [of c "w @ t"] by auto
      have "utf8_width c (w @ []) = Suc (length w)"
        using Char(2) \<open>w \<noteq> []\<close> by (auto simp: utf8_width_def Let_def conts_def split: if_splits)
      from utf8_chars_step [OF this] have "valid_text (c # w)" by (simp add: valid_text_def)
      from closed_append [OF closed_valid_text this Char(4)] show ?thesis
        using False Char(3) by (simp add: escape_char_wide escape_append escape_conts)
    qed
  qed (simp add: valid_text_def)
qed

text \<open>The beginning of a line, cut off within the actor.\<close>

definition cut_line :: "string \<Rightarrow> string \<Rightarrow> string" where
  "cut_line an a = CHR ''{'' # dump_string compact ''action'' @ '':'' @ dump_string compact an @ '','' @
     dump_string compact ''actor'' @ '':'' @ quote # escape False a"

lemma scan_unclosed: "scan_string (escape False a) = None"
proof (induction a)
  case (Cons c a)
  then show ?case using scan_string_escape_char [of False c "escape False a"] by simp
qed simp

lemma loads_cut: "loads (cut_line an a) = Inl JSONDecodeError"
proof -
  let ?m = "2 * length (cut_line an a)"
  have scan: "scan_string (escape False s @ quote # rest) = Some (s, rest)" for s rest
    by (rule scan_string_escape) (simp add: text_ok_def)
  have ws: "skip_ws (quote # s) = quote # s" "skip_ws (CHR '':'' # s) = CHR '':'' # s"
    "skip_ws (CHR '','' # s) = CHR '','' # s" "skip_ws (CHR ''{'' # s) = CHR ''{'' # s" for s
    using not_json_ws by (simp_all add: skip_ws_def)
  have str: "parse_value (Suc n) (quote # s) = map_option (\<lambda>(t, r'). (PyStr t, r')) (scan_string s)" for n s
    by simp
  have cut: "cut_line an a = CHR ''{'' # quote # escape False ''action'' @ quote # CHR '':'' # quote # escape False an @ quote #
      CHR '','' # quote # escape False ''actor'' @ quote # CHR '':'' # quote # escape False a"
    by (simp only: cut_line_def dump_string_def append.simps append_assoc compact_def json_style.simps)
  have actor: "parse_members (Suc n) (quote # escape False ''actor'' @ quote # CHR '':'' # quote # escape False a) acc = None" for n acc
    by (cases n) (simp_all add: scan ws str scan_unclosed del: parse_value.simps(2) escape.simps)
  have members: "parse_members (Suc (Suc n)) (quote # escape False ''action'' @ quote # CHR '':'' # quote # escape False an @ quote #
      CHR '','' # quote # escape False ''actor'' @ quote # CHR '':'' # quote # escape False a) acc = None" for n acc
    by (subst parse_members.simps(2)) (simp add: scan ws str actor del: parse_value.simps(2) parse_members.simps(2) escape.simps)
  have "parse_value (Suc (Suc (Suc (Suc ?m)))) (cut_line an a) = None"
    unfolding cut by (subst parse_value.simps(2)) (simp add: ws members quote_def [symmetric] quote_neq [symmetric] del: parse_value.simps(2) parse_members.simps(2) escape.simps)
  with ws(4) loads_fuel [of "cut_line an a" "Suc (Suc (Suc (Suc ?m)))"] show ?thesis by (simp add: cut)
qed


text \<open>A record's line begins with its action and its actor.\<close>

lemma sorted_payload:
  "\<exists>d. sort_key fst (payload_members r) = (''action'', PyStr (action r)) # (''actor'', PyStr (actor r)) # d"
  by (cases "key_id r = []"; cases "signer_id r = []"; cases "signature r = []")
    (simp_all add: payload_members_def jsonl_payload_def)

lemma line_of_members:
  assumes "wf_record r" and "dumpable (PyDict (metadata r))"
  shows "\<exists>ts. line_of r = CHR ''{'' # join '','' ((dump_string compact ''action'' @ '':'' @ dump_string compact (action r)) #
    (dump_string compact ''actor'' @ '':'' @ dump_string compact (actor r)) # ts) @ ''}''"
proof -
  obtain d where d: "sort_key fst (payload_members r) = (''action'', PyStr (action r)) # (''actor'', PyStr (actor r)) # d"
    using sorted_payload by blast
  from serialize_value(2) [OF assms] obtain ts where
    "enclose compact 0 CHR ''{'' CHR ''}'' ((dump_string compact ''action'' @ '':'' @ dump_string compact (action r)) #
      (dump_string compact ''actor'' @ '':'' @ dump_string compact (actor r)) # ts) = line_of r"
    by (auto simp: payload_is_dict dump_dict d member_text_def compact_layout)
  from this [symmetric] show ?thesis by (auto simp: enclose_def compact_layout)
qed

lemma escape_line_separator: "escape False line_separator = line_separator"
  using escape_conts [of "[CHR 0x80, CHR 0xA8]"]
  by (simp add: line_separator_def escape_char_wide cont_def)

lemma cut_line_of:
  assumes "wf_record r" and "dumpable (PyDict (metadata r))" and "actor r = a @ line_separator @ b"
  shows "\<exists>rest. line_of r = cut_line (action r) a @ line_separator @ rest"
proof -
  from line_of_members [OF assms(1,2)] obtain ts where
    "line_of r = CHR ''{'' # join '','' ((dump_string compact ''action'' @ '':'' @ dump_string compact (action r)) #
      (dump_string compact ''actor'' @ '':'' @ dump_string compact (actor r)) # ts) @ ''}''" by blast
  then show ?thesis
    by (cases ts) (auto simp add: assms(3) cut_line_def dump_string_def escape_append escape_line_separator compact_def)
qed


lemma drop_spaces_plain:
  assumes "\<forall>p \<in> set wide. p \<noteq> [] \<longrightarrow> \<not> plain_char (hd p)" and "plain_char c" and "c \<noteq> CHR '' ''"
  shows "list_all plain_char s \<Longrightarrow> drop_spaces wide (s @ [c]) \<noteq> []"
proof (induction s)
  case Nil
  show ?case using drop_spaces_nonempty [of "[c]"] assms by simp
next
  case (Cons d s)
  show ?case
  proof (cases "d = CHR '' ''")
    case True
    with Cons show ?thesis by (simp add: is_str_space_def is_ascii_space_def)
  next
    case False
    with Cons.prems drop_spaces_nonempty [of "d # s @ [c]"] assms(1) show ?thesis by simp
  qed
qed

lemma cut_line_plain:
  assumes "is_ascii an" and "is_ascii a"
  shows "list_all plain_char (cut_line an a)" and "strip (cut_line an a) \<noteq> []"
proof -
  have esc: "list_all plain_char (escape False s)" if "is_ascii s" for s
    using that by (induction s) (auto simp: is_ascii_def escape_char_plain)
  have "is_ascii ''action''" "is_ascii ''actor''" by (simp_all add: is_ascii_def)
  with assms esc show "list_all plain_char (cut_line an a)"
    by (simp add: cut_line_def dump_string_def quote_def compact_def plain_char_def del: escape.simps)
  moreover have wide: "\<forall>p \<in> set wide_spaces. p \<noteq> [] \<longrightarrow> \<not> plain_char (hd p)"
    "\<forall>p \<in> set (map rev wide_spaces). p \<noteq> [] \<longrightarrow> \<not> plain_char (hd p)"
    by (auto simp: wide_spaces_def plain_char_def)
  moreover obtain t where t: "cut_line an a = CHR ''{'' # t" by (simp add: cut_line_def)
  moreover have "plain_char CHR ''{''" by (simp add: plain_char_def)
  ultimately show "strip (cut_line an a) \<noteq> []"
    using drop_spaces_nonempty [of "cut_line an a"] drop_spaces_plain [OF wide(2), of "CHR ''{''" "rev t"]
    by (simp add: strip_def)
qed

lemma valid_rest:
  assumes "list_all plain_char pre" and "valid_text (pre @ line_separator @ rest)"
  shows "valid_text rest"
proof -
  have "is_ascii pre" using assms(1) by (auto simp: is_ascii_def list_all_iff plain_char_def)
  from utf8_chars_append [OF utf8_chars_ascii [OF this], of "line_separator @ rest"] assms(2) show ?thesis
    by (auto simp: valid_text_def separator_char)
qed

lemma valid_line:
  assumes "wf_record r" and "dumpable (PyDict (metadata r))" and "texts_ok valid_text (PyDict (metadata r))"
    and "list_all (\<lambda>f. valid_text (f r))
           [timestamp, actor, action, subject, prev_hash, hash, key_id, signer_id, signature]"
  shows "valid_text (line_of r)"
proof (rule dump_closed [OF closed_valid_text serialize_value(2) [OF assms(1,2)]])
  have "valid_text k" if "is_ascii k" for k
    using that by (simp add: valid_text_def utf8_chars_ascii)
  with assms(3,4) have "texts_ok valid_text (jsonl_payload r)"
    by (auto simp: jsonl_payload_def texts_ok_dict [where d = "_ @ _"] texts_ok_dict [where d = "_ # _"])
  then show "texts_ok (\<lambda>t. valid_text (escape False t)) (jsonl_payload r)"
    by (rule texts_ok_mono) (rule escape_valid)
qed

lemma single_line_last:
  assumes "wf_record r" and "dumpable (PyDict (metadata r))" and "texts_ok ps (PyDict (metadata r))"
    and "utf8_chars (line_of r) \<noteq> None"
  shows "jsonl_load_last exn_str path (Some (line_of r @ [LF])) =
    (Inr (Some (sorted_metadata r)), Some (line_of r @ [LF]))"
proof -
  have "texts_ok (\<lambda>_. True) (PyDict (metadata r))" using assms(3) by (rule texts_ok_mono) simp
  then have "texts_ok (\<lambda>_. True) (jsonl_payload r)"
    by (auto simp: jsonl_payload_def texts_ok_dict [where d = "_ @ _"] texts_ok_dict [where d = "_ # _"])
  from dump_one_line [OF serialize_value(2) [OF assms(1,2)] this] have "LF \<notin> set (line_of r)"
    by (simp add: one_line_text_def)
  then have "split_at LF (line_of r @ [LF]) = [line_of r, []]"
    using split_file_of [of "[line_of r]"] by (simp add: file_of_def)
  moreover obtain mid where mid: "line_of r = CHR ''{'' # mid @ ''}''" using serialize_value(3) [OF assms(1,2)] by blast
  ultimately have "full_lines (line_of r @ [LF]) = [line_of r]"
    using braces_not_blank(2) [of mid] by (simp add: full_lines_def blank_def)
  then have "scan_back (line_of r @ [LF]) (length (line_of r @ [LF])) [] = Some (line_of r)"
    by (simp only: scan_back_correct) simp
  moreover have "line_of r \<noteq> []" using mid by simp
  ultimately show ?thesis using assms(4)
    by (auto simp: jsonl_load_last_def parse_value_line [OF assms(1,2)])
qed

text \<open>C39: A record whose actor holds a U+2028 is appended without an error and \<open>load_last\<close> reads it back,
  but \<open>splitlines\<close> cuts its line in two, so that \<open>load\<close>, and with it \<open>verify\<close>, raises
  \<open>LogCorruptedError\<close> for a file only this library has written.\<close>

theorem line_separator_breaks_load:
  assumes "wf_record r" and "dumpable (PyDict (metadata r))" and "texts_ok valid_text (PyDict (metadata r))"
    and "list_all (\<lambda>f. valid_text (f r))
           [timestamp, actor, action, subject, prev_hash, hash, key_id, signer_id, signature]"
    and "is_ascii (action r)" and "is_ascii a" and "actor r = a @ line_separator @ b"
  shows "\<exists>f. jsonl_append r None = (Inr (), f) \<and>
    jsonl_load_last exn_str path f = (Inr (Some (sorted_metadata r)), f) \<and>
    jsonl_load exn_str path f = (Inl (LogCorruptedError (path @ '':1: '' @ exn_str JSONDecodeError)), f)"
proof -
  obtain rest where line: "line_of r = cut_line (action r) a @ line_separator @ rest"
    using cut_line_of [OF assms(1,2,7)] by blast
  note cut = cut_line_plain [OF assms(5,6)]
  have valid: "valid_text (line_of r)" by (rule valid_line [OF assms(1-4)])
  with line valid_rest [OF cut(1)] have "valid_text rest" by simp
  then have "valid_text (rest @ [LF])"
    using utf8_chars_append [of rest _ "[LF]"] utf8_chars_ascii [of "[LF]"] by (auto simp: valid_text_def LF_def is_ascii_def)
  then have "jsonl_load exn_str path (Some (line_of r @ [LF])) =
      (Inl (LogCorruptedError (path @ '':1: '' @ exn_str JSONDecodeError)), Some (line_of r @ [LF]))"
    using load_broken_line [OF cut(1) _ cut(2) loads_cut, of "rest @ [LF]"] by (simp add: line valid_text_def)
  moreover have "jsonl_append r None = (Inr (), Some (line_of r @ [LF]))"
    using serialize_value(1) [OF assms(1,2)] utf8_no_surrogate [of "line_of r"] has_surrogate_sep [of LF "line_of r" "[]"] valid
    by (auto simp: jsonl_append_def append_text_def contents_def valid_text_def LF_def)
  moreover have "jsonl_load_last exn_str path (Some (line_of r @ [LF])) =
      (Inr (Some (sorted_metadata r)), Some (line_of r @ [LF]))"
    using single_line_last [OF assms(1-3)] valid by (simp add: valid_text_def)
  ultimately show ?thesis by blast
qed

theorem line_separator_breaks_load_witness:
  "\<exists>f. jsonl_append (sample_record\<lparr>actor := line_separator\<rparr>) None = (Inr (), f) \<and>
     fst (jsonl_load_last (\<lambda>_. []) ''log'' f) = Inr (Some (sample_record\<lparr>actor := line_separator\<rparr>)) \<and>
     fst (jsonl_load (\<lambda>_. []) ''log'' f) = Inl (LogCorruptedError ''log:1: '')"
proof -
  let ?r = "sample_record\<lparr>actor := line_separator\<rparr>"
  have valid: "valid_text s" if "is_ascii s" for s using that by (simp add: valid_text_def utf8_chars_ascii)
  have "wf_record ?r" "dumpable (PyDict (metadata ?r))" "texts_ok valid_text (PyDict (metadata ?r))" "is_ascii (action ?r)"
    by (simp_all add: wf_record_def wf_dict dumpable_dict texts_ok_dict sample_record_def is_ascii_def)
  moreover have "list_all (\<lambda>f. valid_text (f ?r))
      [timestamp, actor, action, subject, prev_hash, hash, key_id, signer_id, signature]"
    using valid [OF ascii_genesis] valid [OF is_ascii_hex] separator_char [of "[]"]
    by (simp add: sample_record_def valid_text_def utf8_chars_ascii is_ascii_def)
  moreover have "is_ascii []" "actor ?r = [] @ line_separator @ []" by (simp_all add: is_ascii_def)
  moreover have "sorted_metadata ?r = ?r" by (simp add: sorted_metadata_def sample_record_def)
  ultimately show ?thesis
    using line_separator_breaks_load [of ?r "[]" "[]" "\<lambda>_. []" "''log''"] by auto
qed

end
