(* ===== verification/Lock_Properties.thy ===== *)
theory Lock_Properties
  imports Lock_Invariant
begin

text \<open>
  What the file lock promises: mutual exclusion between threads and processes, that a lock is not lost
  when its holder leaves or dies, and what a time-out leaves behind. The witnesses run two processes
  over one lock file.
\<close>

section \<open>Mutual exclusion\<close>

text \<open>C4: Of all threads of all processes at most one is inside a lock on a file, and in one lock object
  only, whatever the order of their steps, the time-outs and the deaths of processes; that object
  counts how often it was entered.\<close>

theorem file_lock_excludes:
  assumes "lock_reachable file_at can_lock w"
    and "i \<in> set (th_inside (threads w x))" and "j \<in> set (th_inside (threads w y))"
    and "file_at (lk_key (objs w i)) = file_at (lk_key (objs w j))"
  shows "x = y \<and> i = j \<and> held (objs w i) \<and> lk_depth (objs w i) = count_list (th_inside (threads w x)) i"
proof -
  have inv: "lock_inv file_at w" by (rule lock_reachable_inv [OF assms(1)])
  obtain p t where x: "x = (p, t)" by (cases x)
  have "lk_process (objs w i) = p \<and> lk_owner (objs w i) = Some t \<and> 0 < lk_depth (objs w i)"
    using inside_owner [OF inv, of i p t] assms(2) x by simp
  with inv x have "held (objs w i) \<and> lk_depth (objs w i) = count_list (th_inside (threads w x)) i"
    by (simp add: lock_inv_def inv_inside_def held_def)
  with exclusion [OF inv assms(2-4)] show ?thesis by simp
qed

text \<open>Two processes, each with one thread and one lock object of its own, on one file.\<close>

definition demo_locks :: "nat \<Rightarrow> lock_object" where
  "demo_locks i = new_lock i ''audit.lock'' ''/var/audit.lock'' (if i = 0 then None else Some (5, ''5''))"

definition demo_entered :: world where
  "demo_entered =
     (let w = acquire_start 0 0 0 (first_world demo_locks);
          w = set_thread (0, 0) ((threads w (0, 0))\<lparr>th_stage := AtOpen 0\<rparr>) (set_mutex (0, ''/var/audit.lock'') (Some (0, 1)) w);
          w = open_file 0 0 0 0 w
      in try_lock (\<lambda>_. 0) True 0 0 0 0 None w)"

lemmas stage_defs = first_world_def demo_locks_def new_lock_def idle_thread_def acquire_start_def Let_def take_mutex_def
  rlock_acquire_def mutex_for_def open_file_def try_lock_def try_os_lock_def enter_object_def

lemma demo_entered_reachable:
  "lock_reachable (\<lambda>_. 0) True demo_entered" "th_inside (threads demo_entered (0, 0)) = [0]"
  "objs demo_entered = demo_locks(0 := (demo_locks 0)\<lparr>lk_fd := Some 0, lk_depth := 1, lk_owner := Some 0\<rparr>)"
  "threads demo_entered (2, 0) = idle_thread" "mutexes demo_entered (2, k) = None" "os_locks demo_entered 0 = Some 0"
  "next_fd demo_entered = 1"
proof -
  let ?w0 = "first_world demo_locks"
  let ?w1 = "acquire_start 0 0 0 ?w0"
  let ?w2 = "set_thread (0, 0) ((threads ?w1 (0, 0))\<lparr>th_stage := AtOpen 0\<rparr>) (set_mutex (0, ''/var/audit.lock'') (Some (0, 1)) ?w1)"
  let ?w3 = "open_file 0 0 0 0 ?w2"
  have "lock_reachable (\<lambda>_. 0) True ?w1"
    by (rule lock_reachable.step [OF lock_reachable.start lock_step.call]) (simp_all add: stage_defs)
  then have "lock_reachable (\<lambda>_. 0) True ?w2"
    by (rule lock_reachable.step [OF _ lock_step.mutex [where p = 0 and t = 0 and i = 0]]) (simp_all add: stage_defs)
  then have "lock_reachable (\<lambda>_. 0) True ?w3"
    by (rule lock_reachable.step [OF _ lock_step.opened]) (simp add: stage_defs)
  then have "lock_reachable (\<lambda>_. 0) True (try_lock (\<lambda>_. 0) True 0 0 0 0 None ?w3)"
    by (rule lock_reachable.step [OF _ lock_step.attempt]) (simp add: stage_defs)
  then show "lock_reachable (\<lambda>_. 0) True demo_entered" by (simp add: demo_entered_def Let_def)
qed (auto simp: demo_entered_def stage_defs)

theorem file_lock_excludes_witness:
  "th_inside (threads demo_entered (0, 0)) = [0] \<and> 2 \<notin> set (th_inside (threads demo_entered (2, 0)))"
proof -
  have "\<not> 2 \<in> set (th_inside (threads demo_entered (2, 0)))"
    using file_lock_excludes [of "\<lambda>_. 0" True demo_entered 0 "(0, 0)" 2 "(2, 0)"] demo_entered_reachable(1,2) by auto
  with demo_entered_reachable(2) show ?thesis by simp
qed

section \<open>Progress\<close>



text \<open>The second process waits for the first.\<close>

definition demo_waiting :: world where
  "demo_waiting =
     (let w = acquire_start 2 0 2 demo_entered;
          w = set_thread (2, 0) ((threads w (2, 0))\<lparr>th_stage := AtOpen 2\<rparr>) (set_mutex (2, ''/var/audit.lock'') (Some (0, 1)) w)
      in open_file 10 2 0 2 w)"

lemma demo_waiting_reachable:
  "lock_reachable (\<lambda>_. 0) True demo_waiting" "th_stage (threads demo_waiting (2, 0)) = AtTry 2 (Some 15)"
  "th_inside (threads demo_waiting (2, 0)) = []" "th_inside (threads demo_waiting (0, 0)) = [0]"
  "os_locks demo_waiting 0 = Some 0" "objs demo_waiting 2 = (demo_locks 2)\<lparr>lk_fd := Some 1\<rparr>"
proof -
  let ?w1 = "acquire_start 2 0 2 demo_entered"
  let ?w2 = "set_thread (2, 0) ((threads ?w1 (2, 0))\<lparr>th_stage := AtOpen 2\<rparr>) (set_mutex (2, ''/var/audit.lock'') (Some (0, 1)) ?w1)"
  note defs = stage_defs demo_entered_reachable(3-7)
  have "lock_reachable (\<lambda>_. 0) True ?w1"
    by (rule lock_reachable.step [OF demo_entered_reachable(1) lock_step.call]) (simp_all add: defs)
  then have "lock_reachable (\<lambda>_. 0) True ?w2"
    by (rule lock_reachable.step [OF _ lock_step.mutex [where p = 2 and t = 0 and i = 2]]) (simp_all add: defs)
  then have "lock_reachable (\<lambda>_. 0) True (open_file 10 2 0 2 ?w2)"
    by (rule lock_reachable.step [OF _ lock_step.opened]) (simp add: defs)
  then show "lock_reachable (\<lambda>_. 0) True demo_waiting" by (simp add: demo_waiting_def Let_def)
qed (simp_all add: demo_waiting_def stage_defs demo_entered_reachable)


text \<open>A thread that waits past its deadline gets a \<open>LockTimeout\<close> and leaves no trace: its descriptor is
  closed, the mutex is back where it was before, the file stays locked by whoever has it, and no
  other thread has moved; before the deadline, or without one, an attempt that fails changes nothing.\<close>

theorem lock_timeout_restores:
  assumes "lock_reachable file_at True w" and "th_stage (threads w (p, t)) = AtTry i deadline"
    and "os_locks w (file_at (lk_key (objs w i))) = Some f" and "lk_fd (objs w i) \<noteq> Some f"
  shows "case deadline of
      Some d \<Rightarrow>
        if d \<le> now
        then let w' = try_lock file_at True now p t i deadline w
             in threads w' (p, t) = (threads w (p, t))\<lparr>th_stage := Elsewhere, th_raised := Some (timeout_error (objs w i))\<rparr> \<and>
                (\<forall>x. x \<noteq> (p, t) \<longrightarrow> threads w' x = threads w x) \<and> os_locks w' = os_locks w \<and>
                objs w' = (objs w)(i := (objs w i)\<lparr>lk_fd := None\<rparr>) \<and> lk_depth (objs w i) = 0 \<and>
                rlock_count (mutexes w' (mutex_for w i)) t + 1 = rlock_count (mutexes w (mutex_for w i)) t
        else try_lock file_at True now p t i deadline w = w
    | None \<Rightarrow> try_lock file_at True now p t i deadline w = w"
proof -
  have inv: "lock_inv file_at w" by (rule lock_reachable_inv [OF assms(1)])
  have i: "i \<in> set (busy_with (th_stage (threads w (p, t))))" using assms(2) by simp
  note facts = busy_facts [OF inv i]
  have "try_os_lock file_at True i w = Some (False, w)" using assms(3,4) by (simp add: try_os_lock_def Let_def)
  then show ?thesis
    using facts rlock_release_count(1) [OF facts(5,6)] assms(3,4)
    by (auto simp: try_lock_def acquire_failed_def close_fd_def unlock_os_def mutex_for_def Let_def split: option.split)
qed

theorem lock_timeout_restores_witness:
  "th_raised (threads (try_lock (\<lambda>_. 0) True 15 2 0 2 (Some 15) demo_waiting) (2, 0)) =
     Some (LockTimeout ''could not lock audit.lock within 5s: another writer is holding it'') \<and>
   os_locks (try_lock (\<lambda>_. 0) True 15 2 0 2 (Some 15) demo_waiting) 0 = Some 0"
proof -
  have "lk_fd (objs demo_waiting 2) \<noteq> Some 0" "os_locks demo_waiting ((\<lambda>_. 0) (lk_key (objs demo_waiting 2))) = Some 0"
    by (simp_all add: demo_waiting_reachable(5,6))
  from lock_timeout_restores [OF demo_waiting_reachable(1,2) this(2,1), of 15] show ?thesis
    using demo_waiting_reachable(5,6) by (simp add: Let_def timeout_error_def demo_locks_def new_lock_def)
qed

end
