(* ===== verification/Overlap.thy ===== *)
theory Overlap
  imports Jsonl_Properties Lock_Properties
begin

text \<open>
  Two tasks of one event loop that append to one log. \<open>append\<close> waits at two places inside \<open>with self._lock\<close>:
  for the tail and for the backend, where a file is written by another thread. While one task waits, another
  task of the same thread may call \<open>append\<close>, and the lock, which belongs to the thread, lets it in
  (\<open>same_thread_enters_again\<close>).
\<close>

section \<open>The two halves of append\<close>

text \<open>Up to \<open>await self.backend.append\<close>, and from there.\<close>

definition append_begin ::
  "ed25519 \<Rightarrow> 's backend_ops \<Rightarrow> string \<Rightarrow> string \<Rightarrow> string \<Rightarrow> string \<Rightarrow> pydict option \<Rightarrow> string option \<Rightarrow>
     ('s audit_log, audit_record) action" where
  "append_begin lib ops now ac an sub meta ts =
     bindS (ensure_inited ops) (\<lambda>_.
     bindS (refresh_tail ops) (\<lambda>_ lg.
       (seal_record lib lg (build_record lg ac an sub (or_empty meta) (or_now now ts) (log_last lg)), lg)))"

definition append_end :: "'s backend_ops \<Rightarrow> audit_record \<Rightarrow> ('s audit_log, audit_record) action" where
  "append_end ops sealed =
     bindS (on_store (b_append ops sealed)) (\<lambda>_.
     bindS (modify (\<lambda>lg. lg\<lparr>log_last := Some sealed\<rparr>)) (\<lambda>_. returnS sealed))"

lemma append_halves:
  "log_append lib ops now ac an sub meta ts = bindS (append_begin lib ops now ac an sub meta ts) (append_end ops)"
  by (rule ext) (auto simp: log_append_def append_begin_def append_end_def bindS_def liftS_def split: prod.split sum.split)

text \<open>The second task begins while the first one waits for its record to be written.\<close>

type_synonym append_args = "string \<times> string \<times> string \<times> pydict option \<times> string option \<times> string"

definition begin_with :: "ed25519 \<Rightarrow> 's backend_ops \<Rightarrow> append_args \<Rightarrow> ('s audit_log, audit_record) action" where
  "begin_with lib ops args = (case args of (ac, an, sub, meta, ts, now) \<Rightarrow> append_begin lib ops now ac an sub meta ts)"


definition args_ok :: "append_args \<Rightarrow> bool" where
  "args_ok args =
     (case args of (ac, an, sub, meta, ts, now) \<Rightarrow>
        entry_ok ac an sub (or_empty meta) (or_now now ts) \<and> entry_safe ac an sub (or_empty meta) (or_now now ts))"

context storage
begin

lemma begin_run:
  assumes "usable (store lg)" and "tail_known (stored (store lg)) lg" and "valid_chain lib sk ring sgs (stored (store lg))"
    and "writer_ok lib sk ring sgs lg" and "args_ok args"
  obtains r lg' where "begin_with lib ops args lg = (Inr r, lg')" "usable (store lg')"
    "stored (store lg') = stored (store lg)" "same_config lg lg'" "log_inited lg'" "tail_ok (stored (store lg')) lg'"
    "seq r = int (length (stored (store lg)))"
    "\<exists>ac an sub meta ts prev. seal_record lib lg (build_record lg ac an sub meta ts prev) = Inr r \<and>
       entry_safe ac an sub meta ts \<and> is_ascii (case prev of None \<Rightarrow> GENESIS_HASH | Some p \<Rightarrow> hash p)"
proof -
  obtain ac an sub meta ts now where args: "args = (ac, an, sub, meta, ts, now)" by (cases args)
  let ?seal = "\<lambda>lg. (seal_record lib lg (build_record lg ac an sub (or_empty meta) (or_now now ts) (log_last lg)), lg)"
  obtain lg1 where 1: "begin_with lib ops args lg = ?seal lg1" "usable (store lg1)"
    "stored (store lg1) = stored (store lg)" "same_config lg lg1" "log_inited lg1" "tail_ok (stored (store lg)) lg1"
    using prepared [OF assms(1,2), of ?seal] unfolding begin_with_def append_begin_def args by auto
  have tail: "tail_is (stored (store lg)) (log_last lg1)" using 1(6) by (simp add: tail_ok_def)
  note pos = tail_position [OF tail assms(3)]
  have ascii: "is_ascii (case log_last lg1 of None \<Rightarrow> GENESIS_HASH | Some p \<Rightarrow> hash p)"
    using valid_tail_ascii [OF assms(3)] pos(2) by simp
  have "writer_ok lib sk ring sgs lg1" using assms(4) same_config_writer [OF 1(4)] by simp
  then obtain r where r: "seal_record lib lg1 (build_record lg1 ac an sub (or_empty meta) (or_now now ts) (log_last lg1)) = Inr r"
    using seal_defined assms(5) ascii unfolding args_ok_def args by fastforce
  then have r': "seal_record lib lg (build_record lg ac an sub (or_empty meta) (or_now now ts) (log_last lg1)) = Inr r"
    using same_config_build [OF 1(4)] same_config_seal [OF 1(4)] by simp
  have sq: "seq r = int (length (stored (store lg)))" using seal_record_fields(1) [OF r] pos(1) by simp
  have ex: "\<exists>ac an sub meta ts prev. seal_record lib lg (build_record lg ac an sub meta ts prev) = Inr r \<and>
      entry_safe ac an sub meta ts \<and> is_ascii (case prev of None \<Rightarrow> GENESIS_HASH | Some p \<Rightarrow> hash p)"
    using r' ascii assms(5) unfolding args_ok_def args by blast
  show ?thesis
  proof (rule that [OF _ 1(2,3,4,5) _ sq ex])
    show "begin_with lib ops args lg = (Inr r, lg1)" using 1(1) r by simp
    show "tail_ok (stored (store lg1)) lg1" using 1(3,6) by simp
  qed
qed

end




section \<open>The lock lets the second task in\<close>

text \<open>A thread that is inside a lock enters it once more: the lock counts, and does not ask which task calls.\<close>

lemma same_thread_enters_again:
  "\<exists>w. lock_reachable (\<lambda>_. 0) True w \<and> th_inside (threads w (0, 0)) = [0, 0] \<and>
     lock_step (\<lambda>_. 0) True demo_entered w"
proof (intro exI conjI)
  let ?w = "acquire_start 0 0 0 demo_entered"
  have idle: "th_stage (threads demo_entered (0, 0)) = Elsewhere" "lk_process (objs demo_entered 0) = 0"
    by (simp_all add: demo_entered_def stage_defs)
  then show step: "lock_step (\<lambda>_. 0) True demo_entered ?w" by (intro lock_step.call)
  from lock_reachable.step [OF demo_entered_reachable(1) step] show "lock_reachable (\<lambda>_. 0) True ?w" .
  show "th_inside (threads ?w (0, 0)) = [0, 0]"
    using demo_entered_reachable(2,3) by (simp add: stage_defs)
qed

end
