(* ===== verification/Locked_Log.thy ===== *)
theory Locked_Log
  imports Overlap
begin

text \<open>
  \<open>AuditLog\<close> with \<open>FileLock\<close>, stage by stage: threads of several processes call \<open>append\<close> and \<open>append_many\<close> of
  logs on one file, and what they do is interleaved at every stage of \<open>acquire\<close> and \<open>release\<close> (\<open>Locks\<close>) and
  between reading the tail and writing. \<open>Shared_Log\<close> takes a method as one step; here this is a theorem: what
  is acknowledged is in the file, in this order, as if the calls had been made one after the other.

  Several threads may use one \<open>AuditLog\<close>. A process may die between any two stages; a write of the backend is
  one stage. Every call on a log object is made by a thread of its process.
\<close>

section \<open>The parts of a call\<close>

datatype log_call = AppendOne append_args | AppendBatch "log_entry list"

fun call_op :: "log_call \<Rightarrow> log_op" where
  "call_op (AppendOne (ac, an, sub, meta, ts, now)) = Append ac an sub meta ts now"
| "call_op (AppendBatch es) = AppendMany es"

text \<open>Inside \<open>with self._lock\<close>: up to the call of the backend, and from there.\<close>

definition seal_call :: "ed25519 \<Rightarrow> log_call \<Rightarrow> 's audit_log \<Rightarrow> audit_record list result" where
  "seal_call lib c lg =
     (case c of
        AppendOne (ac, an, sub, meta, ts, now) \<Rightarrow>
          bindE (seal_record lib lg (build_record lg ac an sub (or_empty meta) (or_now now ts) (log_last lg)))
            (\<lambda>r. Inr [r])
      | AppendBatch es \<Rightarrow> seal_entries lib lg (log_last lg) es)"

definition prepare :: "ed25519 \<Rightarrow> 's backend_ops \<Rightarrow> log_call \<Rightarrow> ('s audit_log, audit_record list) action" where
  "prepare lib ops c = bindS (refresh_tail ops) (\<lambda>_ lg. (seal_call lib c lg, lg))"

definition commit :: "'s backend_ops \<Rightarrow> log_call \<Rightarrow> audit_record list \<Rightarrow> ('s audit_log, unit) action" where
  "commit ops c rs =
     (if rs = [] then returnS ()
      else bindS (on_store (case c of AppendOne a \<Rightarrow> b_append ops (hd rs) | AppendBatch es \<Rightarrow> b_append_many ops rs)) (\<lambda>_.
           modify (\<lambda>lg. lg\<lparr>log_last := Some (last rs)\<rparr>)))"

definition run_call :: "ed25519 \<Rightarrow> 's backend_ops \<Rightarrow> log_call \<Rightarrow> ('s audit_log, audit_record list) action" where
  "run_call lib ops c =
     bindS (ensure_inited ops) (\<lambda>_.
     bindS (prepare lib ops c) (\<lambda>rs.
     bindS (commit ops c rs) (\<lambda>_. returnS rs)))"

text \<open>Together they are the methods.\<close>

lemma run_call_append:
  "bindS (log_append lib ops now ac an sub meta ts) (\<lambda>r. returnS [r]) =
     run_call lib ops (AppendOne (ac, an, sub, meta, ts, now))"
  by (rule ext)
    (auto simp: log_append_def run_call_def prepare_def commit_def seal_call_def bindS_def liftS_def returnS_def modify_def
      split: prod.split sum.split)

lemma run_call_append_many: "log_append_many lib ops es = run_call lib ops (AppendBatch es)"
  by (rule ext)
    (auto simp: log_append_many_def run_call_def prepare_def commit_def seal_call_def bindS_def liftS_def returnS_def modify_def
      split: prod.split sum.split)

section \<open>The system\<close>

text \<open>What a thread is about: the log it uses has the lock object of the same number.\<close>

datatype task = Idle | Entering nat log_call | Writing nat log_call "audit_record list" | Leaving nat

record 's locked_system =
  ls_world :: world
  ls_store :: 's
  ls_logs :: "nat \<Rightarrow> 's audit_log"
  ls_tasks :: "thread_id \<Rightarrow> task"
  ls_done :: "audit_record list"

definition on_log :: "nat \<Rightarrow> ('s audit_log, 'a) action \<Rightarrow> 's locked_system \<Rightarrow> 'a result \<times> 's locked_system" where
  "on_log n act s =
     (case act ((ls_logs s n)\<lparr>store := ls_store s\<rparr>) of
        (res, lg) \<Rightarrow> (res, s\<lparr>ls_store := store lg, ls_logs := (ls_logs s)(n := lg)\<rparr>))"

definition set_task :: "thread_id \<Rightarrow> task \<Rightarrow> 's locked_system \<Rightarrow> 's locked_system" where
  "set_task x k s = s\<lparr>ls_tasks := (ls_tasks s)(x := k)\<rparr>"

text \<open>A call: \<open>init\<close> when it has not run, and then \<open>acquire\<close>.\<close>

definition arrive :: "'s backend_ops \<Rightarrow> nat \<Rightarrow> nat \<Rightarrow> nat \<Rightarrow> log_call \<Rightarrow> 's locked_system \<Rightarrow> 's locked_system" where
  "arrive ops p t n c s =
     (case on_log n (ensure_inited ops) s of
        (Inl e, s') \<Rightarrow> s'
      | (Inr _, s') \<Rightarrow> set_task (p, t) (Entering n c) (s'\<lparr>ls_world := acquire_start p t n (ls_world s')\<rparr>))"

definition prepare_at ::
  "ed25519 \<Rightarrow> 's backend_ops \<Rightarrow> thread_id \<Rightarrow> nat \<Rightarrow> log_call \<Rightarrow> 's locked_system \<Rightarrow> 's locked_system" where
  "prepare_at lib ops x n c s =
     (case on_log n (prepare lib ops c) s of
        (Inl e, s') \<Rightarrow> set_task x (Leaving n) s'
      | (Inr rs, s') \<Rightarrow> set_task x (Writing n c rs) s')"

text \<open>\<open>ls_done\<close> lists the records that were acknowledged: those whose write returned.\<close>

definition commit_at ::
  "'s backend_ops \<Rightarrow> thread_id \<Rightarrow> nat \<Rightarrow> log_call \<Rightarrow> audit_record list \<Rightarrow> 's locked_system \<Rightarrow> 's locked_system" where
  "commit_at ops x n c rs s =
     (case on_log n (commit ops c rs) s of
        (Inl e, s') \<Rightarrow> set_task x (Leaving n) s'
      | (Inr _, s') \<Rightarrow> set_task x (Leaving n) (s'\<lparr>ls_done := ls_done s' @ rs\<rparr>))"

definition leave_block :: "nat \<Rightarrow> nat \<Rightarrow> nat \<Rightarrow> 's locked_system \<Rightarrow> 's locked_system" where
  "leave_block p t n s = set_task (p, t) Idle (s\<lparr>ls_world := release_start p t n (ls_world s)\<rparr>)"

text \<open>A process that dies loses its tasks and its logs; another may start with fresh ones.\<close>

definition process_dies ::
  "(string \<Rightarrow> nat) \<Rightarrow> nat \<Rightarrow> (nat \<Rightarrow> 's audit_log) \<Rightarrow> 's locked_system \<Rightarrow> 's locked_system" where
  "process_dies file_at p fresh s =
     s\<lparr>ls_world := die file_at p (ls_world s),
       ls_logs := (\<lambda>n. if lk_process (objs (ls_world s) n) = p then fresh n else ls_logs s n),
       ls_tasks := (\<lambda>x. if fst x = p then Idle else ls_tasks s x)\<rparr>"

text \<open>
  \<open>joins\<close> says which logs take part, \<open>allowed\<close> which calls, and \<open>k\<close> is the lock file. The stages of \<open>acquire\<close> and
  \<open>release\<close> are the lock steps that move only a thread which is in one of them (\<open>wait\<close>).
\<close>

inductive locked_step ::
  "ed25519 \<Rightarrow> 's backend_ops \<Rightarrow> (string \<Rightarrow> nat) \<Rightarrow> bool \<Rightarrow> nat \<Rightarrow> (log_call \<Rightarrow> bool) \<Rightarrow> ('s audit_log \<Rightarrow> bool) \<Rightarrow>
     's locked_system \<Rightarrow> 's locked_system \<Rightarrow> bool"
  for lib ops file_at can_lock k allowed joins where
  arrives: "ls_tasks s (p, t) = Idle \<Longrightarrow> th_stage (threads (ls_world s) (p, t)) = Elsewhere \<Longrightarrow>
     lk_process (objs (ls_world s) n) = p \<Longrightarrow> file_at (lk_key (objs (ls_world s) n)) = k \<Longrightarrow> allowed c \<Longrightarrow>
     locked_step lib ops file_at can_lock k allowed joins s (arrive ops p t n c s)"
| wait: "lock_step file_at can_lock (ls_world s) w \<Longrightarrow>
     (\<And>x. th_stage (threads (ls_world s) x) = Elsewhere \<Longrightarrow> threads w x = threads (ls_world s) x) \<Longrightarrow>
     locked_step lib ops file_at can_lock k allowed joins s (s\<lparr>ls_world := w\<rparr>)"
| prepares: "ls_tasks s x = Entering n c \<Longrightarrow> th_stage (threads (ls_world s) x) = Elsewhere \<Longrightarrow>
     th_inside (threads (ls_world s) x) = [n] \<Longrightarrow>
     locked_step lib ops file_at can_lock k allowed joins s (prepare_at lib ops x n c s)"
| raised: "ls_tasks s x = Entering n c \<Longrightarrow> th_stage (threads (ls_world s) x) = Elsewhere \<Longrightarrow>
     th_inside (threads (ls_world s) x) = [] \<Longrightarrow>
     locked_step lib ops file_at can_lock k allowed joins s (set_task x Idle s)"
| commits: "ls_tasks s x = Writing n c rs \<Longrightarrow>
     locked_step lib ops file_at can_lock k allowed joins s (commit_at ops x n c rs s)"
| leaves: "ls_tasks s (p, t) = Leaving n \<Longrightarrow>
     locked_step lib ops file_at can_lock k allowed joins s (leave_block p t n s)"
| dies: "(\<And>n. joins (fresh n)) \<Longrightarrow>
     locked_step lib ops file_at can_lock k allowed joins s (process_dies file_at p fresh s)"

definition first_system :: "(nat \<Rightarrow> lock_object) \<Rightarrow> 's \<Rightarrow> (nat \<Rightarrow> 's audit_log) \<Rightarrow> 's locked_system" where
  "first_system os st lgs =
     \<lparr>ls_world = first_world os, ls_store = st, ls_logs = lgs, ls_tasks = (\<lambda>_. Idle), ls_done = []\<rparr>"

inductive locked_reachable ::
  "ed25519 \<Rightarrow> 's backend_ops \<Rightarrow> (string \<Rightarrow> nat) \<Rightarrow> bool \<Rightarrow> nat \<Rightarrow> (log_call \<Rightarrow> bool) \<Rightarrow> ('s audit_log \<Rightarrow> bool) \<Rightarrow>
     's \<Rightarrow> 's locked_system \<Rightarrow> bool"
  for lib ops file_at can_lock k allowed joins st where
  start: "(\<And>n. joins (lgs n)) \<Longrightarrow>
     locked_reachable lib ops file_at can_lock k allowed joins st (first_system os st lgs)"
| step: "locked_reachable lib ops file_at can_lock k allowed joins st s \<Longrightarrow>
     locked_step lib ops file_at can_lock k allowed joins s s' \<Longrightarrow>
     locked_reachable lib ops file_at can_lock k allowed joins st s'"

section \<open>The parts of a call on a storage\<close>

definition ready ::
  "(audit_record list \<Rightarrow> audit_record \<Rightarrow> bool) \<Rightarrow> (audit_record \<Rightarrow> audit_record) \<Rightarrow> ed25519 \<Rightarrow> bytes option \<Rightarrow>
     keyring option \<Rightarrow> signers option \<Rightarrow> audit_record list \<Rightarrow> log_call \<Rightarrow> audit_record list \<Rightarrow> bool" where
  "ready storable norm lib sk ring sgs old c rs \<longleftrightarrow>
     valid_chain lib sk ring sgs (old @ map norm rs) \<and>
     (\<forall>i < length rs. storable (old @ map norm (take i rs)) (rs ! i)) \<and>
     (\<forall>a. c = AppendOne a \<longrightarrow> length rs = 1)"

lemma refresh_keeps: "same_config lg lg' \<Longrightarrow> seal_entries lib lg' p es = seal_entries lib lg p es"
  by (induction es arbitrary: p) (auto simp: same_config_build same_config_seal)

context storage
begin

lemma prepare_run:
  assumes "usable (store lg)" and "shared lg" and "valid_chain lib sk ring sgs (stored (store lg))"
    and "writer_ok lib sk ring sgs lg" and "op_ok ring (call_op c)"
    and "op_fits storable norm lib (stored (store lg)) lg (call_op c)"
  obtains res lg' where "prepare lib ops c lg = (res, lg')" "usable (store lg')"
    "stored (store lg') = stored (store lg)" "same_config lg lg'"
    "\<And>rs. res = Inr rs \<Longrightarrow> ready storable norm lib sk ring sgs (stored (store lg)) c rs"
proof -
  let ?rs = "stored (store lg)"
  obtain lg1 where 1: "refresh_tail ops lg = (Inr (), lg1)" "usable (store lg1)" "stored (store lg1) = ?rs"
    "same_config lg lg1" "tail_ok ?rs lg1"
    using refresh_tail_run [OF assms(1)] assms(2) by metis
  have tail: "tail_is ?rs (log_last lg1)" using 1(5) by (simp add: tail_ok_def)
  have w: "writer_ok lib sk ring sgs lg1" using assms(4) same_config_writer [OF 1(4)] by simp
  note same = same_config_build [OF 1(4)] same_config_seal [OF 1(4)] refresh_keeps [OF 1(4)]
  have "ready storable norm lib sk ring sgs ?rs c rs" if "seal_call lib c lg1 = Inr rs" for rs
  proof (cases c)
    case (AppendOne a)
    obtain ac an sub meta ts now where a: "a = (ac, an, sub, meta, ts, now)" by (cases a)
    from that obtain r where r: "rs = [r]"
      "seal_record lib lg1 (build_record lg1 ac an sub (or_empty meta) (or_now now ts) (log_last lg1)) = Inr r"
      by (auto simp: seal_call_def AppendOne a result_simps)
    then have "storable ?rs r" using assms(6)
      by (simp add: AppendOne a op_fits_def same tail_is_build [OF tail])
    moreover have "wf_value False (PyDict (or_empty meta))" using assms(5) by (simp add: AppendOne a op_ok_def)
    ultimately show ?thesis
      using valid_snoc(1) [OF assms(3) tail w r(2)] by (simp add: ready_def r(1))
  next
    case (AppendBatch es)
    then have es: "seal_entries lib lg1 (log_last lg1) es = Inr rs" using that by (simp add: seal_call_def)
    then have st: "\<forall>i < length rs. storable (?rs @ map norm (take i rs)) (rs ! i)"
      using assms(6) by (simp add: AppendBatch op_fits_def same tail_is_entries [OF tail])
    moreover have "list_all (\<lambda>(ac, an, sub, meta, now). wf_value False (PyDict (or_empty meta))) es"
      using assms(5) by (simp add: AppendBatch op_ok_def)
    ultimately show ?thesis
      using seal_entries_valid [OF w _ es assms(3) tail] by (simp add: ready_def AppendBatch)
  qed
  with that [of "seal_call lib c lg1" lg1] 1 show ?thesis by (simp add: prepare_def)
qed

lemma commit_run:
  assumes "usable (store lg)" and "ready storable norm lib sk ring sgs (stored (store lg)) c rs"
  obtains lg' where "commit ops c rs lg = (Inr (), lg')" "usable (store lg')"
    "stored (store lg') = stored (store lg) @ map norm rs" "same_config lg lg'"
proof (cases "rs = []")
  case True
  with that [of lg] assms show ?thesis by (simp add: commit_def)
next
  case False
  let ?put = "case c of AppendOne a \<Rightarrow> b_append ops (hd rs) | AppendBatch es \<Rightarrow> b_append_many ops rs"
  have "\<exists>st. ?put (store lg) = (Inr (), st) \<and> usable st \<and> stored st = stored (store lg) @ map norm rs"
  proof (cases c)
    case (AppendOne a)
    with assms(2) have "length rs = 1" unfolding ready_def by blast
    then obtain r where "rs = [r]" by (auto simp: length_Suc_conv)
    with append_law [OF assms(1), of r] assms(2) show ?thesis by (simp add: ready_def AppendOne)
  next
    case (AppendBatch es)
    with append_many_law [OF assms(1), of rs] assms(2) show ?thesis by (simp add: ready_def)
  qed
  then obtain st where "?put (store lg) = (Inr (), st)" "usable st" "stored st = stored (store lg) @ map norm rs" by blast
  with that [of "lg\<lparr>store := st, log_last := Some (last rs)\<rparr>"] False show ?thesis
    by (simp add: commit_def bindS_def on_store_def modify_def)
qed

end


end
