(* ===== verification/Sqlite.thy ===== *)
theory Sqlite
  imports Jsonl_Properties
begin

text \<open>
  \<open>backends/sqlite.py\<close>: one table of a database file. The state is the table that is committed and the
  connection, which may have a transaction open. What the backend uses of \<open>sqlite3\<close> is modelled: the
  primary key, binding a row's values (an integer of at most 64 bits, text that has a UTF-8 form), the
  transaction that the first \<open>INSERT\<close> opens, \<open>commit\<close> and \<open>rollback\<close>. The file can be opened, no other
  connection keeps it busy, and a table \<open>audit_records\<close> it has was made by this backend or its first version.

  The lemmas: \<open>sqlite_storage\<close>, the promises of \<open>storage\<close> for records with growing numbers; what a failed
  write leaves behind is in \<open>Sqlite_Properties\<close>.
\<close>

section \<open>Tables\<close>

record sqlite_row =
  row_seq :: int
  row_text :: "string \<Rightarrow> string"

record sqlite_table =
  columns :: "string list"
  rows :: "sqlite_row list"

text \<open>\<open>_SCHEMA\<close>; every column but the key is text.\<close>

definition v01_columns :: "string list" where
  "v01_columns = [''seq'', ''ts'', ''actor'', ''action'', ''subject'', ''meta'', ''prev_hash'', ''hash'']"

definition new_table :: sqlite_table where
  "new_table = \<lparr>columns = v01_columns @ [''key_id'', ''signer_id'', ''signature''], rows = []\<rparr>"

text \<open>\<open>ALTER TABLE ... ADD COLUMN ... DEFAULT ''\<close>, which fills the rows there are.\<close>

definition add_column :: "string \<Rightarrow> sqlite_table \<Rightarrow> sqlite_table" where
  "add_column c t =
     (if c \<in> set (columns t) then t
      else \<lparr>columns = columns t @ [c], rows = map (\<lambda>r. r\<lparr>row_text := (row_text r)(c := [])\<rparr>) (rows t)\<rparr>)"

text \<open>\<open>session\<close>: no connection, one without an open transaction, or one with the table its transaction sees.\<close>

record sqlite =
  db_file :: "sqlite_table option"
  session :: "sqlite_table option option"

definition view :: "sqlite \<Rightarrow> sqlite_table" where
  "view s =
     (case session s of
        Some (Some t) \<Rightarrow> t
      | _ \<Rightarrow> (case db_file s of None \<Rightarrow> \<lparr>columns = [], rows = []\<rparr> | Some t \<Rightarrow> t))"

definition not_initialized :: exn where
  "not_initialized = RuntimeError ''SqliteBackend is not initialized; call init() first''"

definition sqlite_init :: "(sqlite, unit) action" where
  "sqlite_init s =
     (let t = (case db_file s of None \<Rightarrow> new_table | Some t \<Rightarrow> t);
          t' = add_column ''signature'' (add_column ''signer_id'' (add_column ''key_id'' t))
      in (Inr (), \<lparr>db_file = Some t', session = Some None\<rparr>))"

section \<open>Writing\<close>

definition row_values :: "audit_record \<Rightarrow> (int \<times> (string \<times> string) list) result" where
  "row_values r =
     bindE (dumps compact (PyDict (metadata r))) (\<lambda>meta.
       Inr (seq r, [(''ts'', timestamp r), (''actor'', actor r), (''action'', action r), (''subject'', subject r),
                    (''meta'', meta), (''prev_hash'', prev_hash r), (''hash'', hash r), (''key_id'', key_id r),
                    (''signer_id'', signer_id r), (''signature'', signature r)]))"

text \<open>Binding the values; the key is the first.\<close>

definition bind_row :: "int \<times> (string \<times> string) list \<Rightarrow> sqlite_row result" where
  "bind_row vs =
     (if fst vs < - (2 ^ 63) \<or> 2 ^ 63 \<le> fst vs then Inl OverflowError
      else if \<exists>(c, x) \<in> set (snd vs). has_surrogate x then Inl UnicodeEncodeError
      else Inr \<lparr>row_seq = fst vs, row_text = (\<lambda>c. case map_of (snd vs) c of None \<Rightarrow> [] | Some x \<Rightarrow> x)\<rparr>)"

definition insert_row :: "int \<times> (string \<times> string) list \<Rightarrow> sqlite_table \<Rightarrow> sqlite_table result" where
  "insert_row vs t =
     bindE (bind_row vs) (\<lambda>row.
       if row_seq row \<in> row_seq ` set (rows t)
       then Inl (IntegrityError ''UNIQUE constraint failed: audit_records.seq'')
       else Inr (t\<lparr>rows := rows t @ [row]\<rparr>))"

fun insert_rows :: "(int \<times> (string \<times> string) list) list \<Rightarrow> sqlite_table \<Rightarrow> sqlite_table result" where
  "insert_rows [] t = Inr t"
| "insert_rows (vs # vss) t = bindE (insert_row vs t) (insert_rows vss)"

text \<open>The statement opens a transaction before its values are bound, and leaves it open when it fails.\<close>

definition sqlite_append :: "audit_record \<Rightarrow> (sqlite, unit) action" where
  "sqlite_append r s =
     (if session s = None then (Inl not_initialized, s)
      else case row_values r of
             Inl e \<Rightarrow> (Inl e, s)
           | Inr vs \<Rightarrow>
               (case insert_row vs (view s) of
                  Inl e \<Rightarrow> (Inl e, s\<lparr>session := Some (Some (view s))\<rparr>)
                | Inr t \<Rightarrow> (Inr (), \<lparr>db_file = Some t, session = Some None\<rparr>)))"

definition sqlite_append_many :: "audit_record list \<Rightarrow> (sqlite, unit) action" where
  "sqlite_append_many rs s =
     (case mapE row_values rs of
        Inl e \<Rightarrow> (Inl e, s)
      | Inr vss \<Rightarrow>
          if session s = None then (Inl not_initialized, s)
          else case insert_rows vss (view s) of
                 Inl e \<Rightarrow> (Inl e, s\<lparr>session := Some None\<rparr>)
               | Inr t \<Rightarrow> (Inr (), \<lparr>db_file = Some t, session = Some None\<rparr>))"

section \<open>Reading\<close>

definition from_row :: "sqlite_row \<Rightarrow> audit_record result" where
  "from_row row =
     (let text = (\<lambda>c. PyStr (row_text row c))
      in bindE (loads (row_text row ''meta'')) (\<lambda>meta.
           from_stored (PyDict [(''seq'', PyInt (row_seq row)), (''ts'', text ''ts''), (''actor'', text ''actor''),
             (''action'', text ''action''), (''subject'', text ''subject''), (''meta'', meta),
             (''prev_hash'', text ''prev_hash''), (''hash'', text ''hash''), (''key_id'', text ''key_id''),
             (''signer_id'', text ''signer_id''), (''signature'', text ''signature'')])))"

definition sqlite_load :: "(sqlite, audit_record list) action" where
  "sqlite_load s =
     (if session s = None then (Inl not_initialized, s)
      else (mapE from_row (sort_key row_seq (rows (view s))), s))"

definition sqlite_load_last :: "(sqlite, audit_record option) action" where
  "sqlite_load_last s =
     (if session s = None then (Inl not_initialized, s)
      else (case rev (sort_key row_seq (rows (view s))) of
              [] \<Rightarrow> Inr None
            | row # _ \<Rightarrow> bindE (from_row row) (\<lambda>r. Inr (Some r)), s))"

text \<open>Closing a connection drops the transaction it has open.\<close>

definition sqlite_close :: "(sqlite, unit) action" where
  "sqlite_close s = (Inr (), s\<lparr>session := None\<rparr>)"

definition sqlite_ops :: "sqlite backend_ops" where
  "sqlite_ops =
     \<lparr>b_init = sqlite_init, b_append = sqlite_append, b_append_many = sqlite_append_many,
      b_load = sqlite_load, b_load_last = sqlite_load_last, b_close = sqlite_close\<rparr>"

section \<open>The promises of a backend\<close>

text \<open>A record that comes back from its row.\<close>

definition sqlite_ok :: "audit_record \<Rightarrow> bool" where
  "sqlite_ok r =
     (wf_record r \<and> dumpable (PyDict (metadata r)) \<and> clean (PyDict (metadata r)) \<and> - (2 ^ 63) \<le> seq r \<and> seq r < 2 ^ 63 \<and>
      list_all (\<lambda>f. \<not> has_surrogate (f r))
        [timestamp, actor, action, subject, prev_hash, hash, key_id, signer_id, signature])"

definition row_of :: "audit_record \<Rightarrow> sqlite_row" where
  "row_of r = (case bindE (row_values r) bind_row of Inl e \<Rightarrow> \<lparr>row_seq = 0, row_text = (\<lambda>_. [])\<rparr> | Inr row \<Rightarrow> row)"

lemma from_stored_members:
  "from_stored (PyDict [(''seq'', PyInt s), (''ts'', PyStr ts), (''actor'', PyStr ac), (''action'', PyStr an),
     (''subject'', PyStr su), (''meta'', PyDict m), (''prev_hash'', PyStr ph), (''hash'', PyStr h), (''key_id'', PyStr k),
     (''signer_id'', PyStr sg), (''signature'', PyStr sn)]) =
   Inr \<lparr>seq = s, timestamp = ts, actor = ac, action = an, subject = su, metadata = m, prev_hash = ph, hash = h,
     key_id = k, signer_id = sg, signature = sn\<rparr>"
  by (simp add: from_stored_def dict_get_def dict_item_def py_str_def py_dict_def Let_def del: truthy.simps)
   (cases m; simp)

lemma row_of_ok:
  assumes "sqlite_ok r"
  shows "\<exists>vs. row_values r = Inr vs \<and> bind_row vs = Inr (row_of r)" and "row_seq (row_of r) = seq r"
    and "from_row (row_of r) = Inr (sorted_metadata r)"
    and "row_text (row_of r) ''key_id'' = key_id r \<and> row_text (row_of r) ''signer_id'' = signer_id r \<and>
      row_text (row_of r) ''signature'' = signature r"
proof -
  obtain m where m: "dumps compact (PyDict (metadata r)) = Inr m"
    using assms dumps_Inr [of compact "PyDict (metadata r)"] by (auto simp: sqlite_ok_def)
  have "\<not> has_surrogate m"
    using m assms dump_clean [of "PyDict (metadata r)" 0 m] by (auto simp: dumps_def sqlite_ok_def split: option.splits)
  moreover define vs where "vs = (seq r, [(''ts'', timestamp r), (''actor'', actor r), (''action'', action r),
      (''subject'', subject r), (''meta'', m), (''prev_hash'', prev_hash r), (''hash'', hash r), (''key_id'', key_id r),
      (''signer_id'', signer_id r), (''signature'', signature r)])"
  ultimately have vs: "row_values r = Inr vs"
    and bound: "bind_row vs = Inr \<lparr>row_seq = seq r,
      row_text = (\<lambda>c. case map_of (snd vs) c of None \<Rightarrow> [] | Some x \<Rightarrow> x)\<rparr>"
    using m assms by (simp_all add: row_values_def bind_row_def sqlite_ok_def not_less)
  then have row: "row_of r = \<lparr>row_seq = seq r, row_text = (\<lambda>c. case map_of (snd vs) c of None \<Rightarrow> [] | Some x \<Rightarrow> x)\<rparr>"
    by (simp add: row_of_def)
  show "\<exists>vs. row_values r = Inr vs \<and> bind_row vs = Inr (row_of r)" using vs bound row by simp
  show "row_seq (row_of r) = seq r" using row by simp
  show "row_text (row_of r) ''key_id'' = key_id r \<and> row_text (row_of r) ''signer_id'' = signer_id r \<and>
      row_text (row_of r) ''signature'' = signature r" by (simp add: row vs_def)
  have "loads m = Inr (canon (PyDict (metadata r)))"
    using loads_dumps [OF _ _ m] assms by (simp add: sqlite_ok_def wf_record_def)
  then show "from_row (row_of r) = Inr (sorted_metadata r)"
    by (simp add: from_row_def row vs_def Let_def canon_dict from_stored_members sorted_metadata_def)
qed

text \<open>The records have growing numbers, which is the order of the rows.\<close>

definition numbered :: "audit_record list \<Rightarrow> bool" where
  "numbered rs = sorted_wrt (\<lambda>r r'. seq r < seq r') rs"

definition sqlite_storable :: "audit_record list \<Rightarrow> audit_record \<Rightarrow> bool" where
  "sqlite_storable rs r = (sqlite_ok r \<and> (\<forall>r' \<in> set rs. seq r' < seq r))"

definition table_of :: "string list \<Rightarrow> audit_record list \<Rightarrow> sqlite_table" where
  "table_of cs rs = \<lparr>columns = cs, rows = map row_of rs\<rparr>"

definition sqlite_holds :: "sqlite \<Rightarrow> audit_record list \<Rightarrow> bool" where
  "sqlite_holds s rs =
     (session s = Some None \<and> list_all sqlite_ok rs \<and> numbered rs \<and>
      (\<exists>cs. set (columns new_table) \<subseteq> set cs \<and> db_file s = Some (table_of cs rs)))"

definition sqlite_usable :: "sqlite \<Rightarrow> bool" where
  "sqlite_usable s = (\<exists>rs. sqlite_holds s rs)"

definition sqlite_stored :: "sqlite \<Rightarrow> audit_record list" where
  "sqlite_stored s = (case fst (sqlite_load s) of Inl e \<Rightarrow> [] | Inr rs \<Rightarrow> rs)"

lemma numbered_rows:
  assumes "list_all sqlite_ok rs" and "numbered rs"
  shows "sort_key row_seq (map row_of rs) = map row_of rs"
proof (rule sort_key_id_if_sorted)
  have "sorted_wrt (<) (map seq rs)" using assms(2) by (simp add: numbered_def sorted_wrt_map)
  moreover have "map row_seq (map row_of rs) = map seq rs" using assms(1) row_of_ok(2) by (simp add: list_all_iff)
  ultimately show "sorted (map row_seq (map row_of rs))" using strict_sorted_imp_sorted by metis
qed

lemma sqlite_load_holds:
  assumes "sqlite_holds s rs"
  shows "sqlite_load s = (Inr (map sorted_metadata rs), s)"
    and "sqlite_load_last s = (Inr (last_record (map sorted_metadata rs)), s)"
    and "sqlite_stored s = map sorted_metadata rs"
proof -
  obtain cs where s: "session s = Some None" "db_file s = Some (table_of cs rs)" "list_all sqlite_ok rs" "numbered rs"
    using assms by (auto simp: sqlite_holds_def)
  then have sorted: "sort_key row_seq (rows (view s)) = map row_of rs"
    by (simp add: view_def table_of_def numbered_rows)
  have read: "from_row (row_of r) = Inr (sorted_metadata r)" if "r \<in> set rs" for r
    using row_of_ok(3) s(3) that by (simp add: list_all_iff)
  have "mapE from_row (map row_of rs) = Inr (map sorted_metadata rs)"
    using read by (simp add: mapE_Inr_iff)
  then show load: "sqlite_load s = (Inr (map sorted_metadata rs), s)"
    using s(1) by (simp add: sqlite_load_def sorted)
  then show "sqlite_stored s = map sorted_metadata rs" by (simp add: sqlite_stored_def)
  show "sqlite_load_last s = (Inr (last_record (map sorted_metadata rs)), s)"
    using s(1) read [of "last rs"] by (cases rs rule: rev_cases) (auto simp: sqlite_load_last_def sorted last_record_def)
qed

lemma sqlite_usable_load:
  assumes "sqlite_usable s"
  shows "sqlite_load s = (Inr (sqlite_stored s), s)" and "sqlite_load_last s = (Inr (last_record (sqlite_stored s)), s)"
  using assms sqlite_load_holds by (auto simp: sqlite_usable_def)

lemma insert_ok:
  assumes "sqlite_storable rs r" and "list_all sqlite_ok rs"
  shows "\<exists>vs. row_values r = Inr vs \<and> insert_row vs (table_of cs rs) = Inr (table_of cs (rs @ [r]))"
proof -
  have r: "sqlite_ok r" "\<forall>r' \<in> set rs. seq r' < seq r" using assms(1) by (simp_all add: sqlite_storable_def)
  obtain vs where vs: "row_values r = Inr vs" "bind_row vs = Inr (row_of r)" using row_of_ok(1) [OF r(1)] by blast
  have "row_seq (row_of r) \<notin> row_seq ` set (map row_of rs)"
    using r row_of_ok(2) assms(2) by (fastforce simp: list_all_iff)
  with vs show ?thesis by (auto simp: insert_row_def table_of_def)
qed

lemma numbered_snoc: "numbered (rs @ [r]) \<longleftrightarrow> numbered rs \<and> (\<forall>r' \<in> set rs. seq r' < seq r)"
  by (simp add: numbered_def sorted_wrt_append)

lemma holds_grown:
  "sqlite_holds s rs \<Longrightarrow> db_file s = Some (table_of cs rs) \<Longrightarrow> list_all sqlite_ok rs' \<Longrightarrow> numbered rs' \<Longrightarrow>
   sqlite_holds \<lparr>db_file = Some (table_of cs rs'), session = Some None\<rparr> rs'"
  by (auto simp: sqlite_holds_def table_of_def)

lemma insert_all_ok:
  assumes "list_all sqlite_ok rs" and "numbered rs"
    and "\<forall>i < length new. sqlite_storable (rs @ take i new) (new ! i)"
  shows "\<exists>vss. mapE row_values new = Inr vss \<and> insert_rows vss (table_of cs rs) = Inr (table_of cs (rs @ new)) \<and>
     list_all sqlite_ok (rs @ new) \<and> numbered (rs @ new)"
  using assms
proof (induction new arbitrary: rs)
  case (Cons r new)
  from Cons.prems(3) have r: "sqlite_storable rs r" by fastforce
  from insert_ok [OF r Cons.prems(1)] obtain vs where vs: "row_values r = Inr vs"
    "insert_row vs (table_of cs rs) = Inr (table_of cs (rs @ [r]))" by blast
  have "list_all sqlite_ok (rs @ [r])" "numbered (rs @ [r])"
    using r Cons.prems by (simp_all add: sqlite_storable_def numbered_snoc)
  moreover have "\<forall>i < length new. sqlite_storable ((rs @ [r]) @ take i new) (new ! i)"
    using Cons.prems(3) by fastforce
  ultimately have "\<exists>vss. mapE row_values new = Inr vss \<and> insert_rows vss (table_of cs (rs @ [r])) = Inr (table_of cs ((rs @ [r]) @ new)) \<and>
     list_all sqlite_ok ((rs @ [r]) @ new) \<and> numbered ((rs @ [r]) @ new)"
    by (rule Cons.IH)
  with vs show ?case by auto
qed simp

lemma sorted_metadata_seq [simp]: "seq (sorted_metadata r) = seq r"
  by (simp add: sorted_metadata_def)

lemma storable_norm: "sqlite_storable (map sorted_metadata rs @ map sorted_metadata new) r = sqlite_storable (rs @ new) r"
  by (simp add: sqlite_storable_def ball_Un)

lemma sqlite_norm: "sqlite_ok r \<Longrightarrow> same_record r (sorted_metadata r) \<and> wf_record (sorted_metadata r)"
  using wf_canon [of "PyDict (metadata r)"] canon_canon [of "PyDict (metadata r)"]
  by (simp add: sqlite_ok_def wf_record_def same_record_def same_content_def sorted_metadata_def canon_dict)

lemma sqlite_storage: "storage sqlite_ops sqlite_usable sqlite_stored sqlite_storable sorted_metadata"
proof
  fix r :: audit_record and rs :: "audit_record list" and s
  show "sqlite_storable rs r \<Longrightarrow> same_record r (sorted_metadata r) \<and> (wf_record r \<longrightarrow> wf_record (sorted_metadata r))"
    using sqlite_norm by (simp add: sqlite_storable_def)
  assume "sqlite_usable s"
  then obtain old where holds: "sqlite_holds s old" by (auto simp: sqlite_usable_def)
  then obtain cs where s: "session s = Some None" "db_file s = Some (table_of cs old)" "list_all sqlite_ok old" "numbered old"
    "set (columns new_table) \<subseteq> set cs" by (auto simp: sqlite_holds_def)
  note stored = sqlite_load_holds [OF holds]
  have same: "\<lparr>db_file = Some (table_of cs old), session = Some None\<rparr> = s" using s(1,2) by simp
  have view: "view s = table_of cs old" using s(1,2) by (simp add: view_def)
  show "\<exists>s'. b_init sqlite_ops s = (Inr (), s') \<and> sqlite_usable s' \<and> sqlite_stored s' = sqlite_stored s"
  proof -
    have "sqlite_init s = (Inr (), s)"
      using s same by (auto simp: sqlite_init_def Let_def add_column_def table_of_def new_table_def)
    then show ?thesis using \<open>sqlite_usable s\<close> by (simp add: sqlite_ops_def)
  qed
  show "\<exists>s'. b_load sqlite_ops s = (Inr (sqlite_stored s), s') \<and> sqlite_usable s' \<and> sqlite_stored s' = sqlite_stored s"
    "\<exists>s'. b_load_last sqlite_ops s = (Inr (last_record (sqlite_stored s)), s') \<and> sqlite_usable s' \<and>
      sqlite_stored s' = sqlite_stored s"
    using stored \<open>sqlite_usable s\<close> by (simp_all add: sqlite_ops_def)
  have grown: "sqlite_usable \<lparr>db_file = Some (table_of cs rs'), session = Some None\<rparr> \<and>
      sqlite_stored \<lparr>db_file = Some (table_of cs rs'), session = Some None\<rparr> = map sorted_metadata rs'"
    if "list_all sqlite_ok rs'" "numbered rs'" for rs'
    using holds_grown [OF holds s(2) that] sqlite_load_holds(3) by (auto simp: sqlite_usable_def)
  show "\<exists>s'. b_append sqlite_ops r s = (Inr (), s') \<and> sqlite_usable s' \<and>
      sqlite_stored s' = sqlite_stored s @ [sorted_metadata r]" if st: "sqlite_storable (sqlite_stored s) r"
  proof -
    have "sqlite_storable old r" using st storable_norm [of old "[]" r] by (simp add: stored)
    from insert_ok [OF this s(3)] obtain vs where vs: "row_values r = Inr vs"
      "insert_row vs (table_of cs old) = Inr (table_of cs (old @ [r]))" by blast
    then have "sqlite_append r s = (Inr (), \<lparr>db_file = Some (table_of cs (old @ [r])), session = Some None\<rparr>)"
      using s(1) view by (simp add: sqlite_append_def)
    moreover have "list_all sqlite_ok (old @ [r])" "numbered (old @ [r])"
      using \<open>sqlite_storable old r\<close> s by (simp_all add: sqlite_storable_def numbered_snoc)
    ultimately show ?thesis using grown [of "old @ [r]"] by (simp add: sqlite_ops_def stored)
  qed
  show "\<exists>s'. b_append_many sqlite_ops rs s = (Inr (), s') \<and> sqlite_usable s' \<and>
      sqlite_stored s' = sqlite_stored s @ map sorted_metadata rs"
    if st: "\<forall>i < length rs. sqlite_storable (sqlite_stored s @ map sorted_metadata (take i rs)) (rs ! i)"
  proof -
    have "\<forall>i < length rs. sqlite_storable (old @ take i rs) (rs ! i)"
      using st storable_norm [of old] by (simp add: stored)
    from insert_all_ok [OF s(3,4) this] obtain vss where vss: "mapE row_values rs = Inr vss"
      "insert_rows vss (table_of cs old) = Inr (table_of cs (old @ rs))"
      "list_all sqlite_ok (old @ rs)" "numbered (old @ rs)" by blast
    then have "sqlite_append_many rs s = (Inr (), \<lparr>db_file = Some (table_of cs (old @ rs)), session = Some None\<rparr>)"
      using s(1) view by (simp add: sqlite_append_many_def)
    then show ?thesis using grown [OF vss(3,4)] by (simp add: sqlite_ops_def stored)
  qed
qed

interpretation sqlite_backend: storage sqlite_ops sqlite_usable sqlite_stored sqlite_storable sorted_metadata
  by (rule sqlite_storage)

end
