(* ===== verification/Sqlite_Properties.thy ===== *)
theory Sqlite_Properties
  imports Sqlite
begin

text \<open>
  The SQLite backend keeps what the memory backend keeps (\<open>sqlite_refines_memory\<close>), opens databases of
  older versions (\<open>sqlite_migration\<close>), and what a write that fails leaves behind (\<open>sqlite_failed_writes\<close>).
\<close>

section \<open>Refinement of the memory backend\<close>

datatype store_write = One audit_record | Batch "audit_record list"

definition run_write :: "'s backend_ops \<Rightarrow> store_write \<Rightarrow> ('s, unit) action" where
  "run_write ops wr = (case wr of One r \<Rightarrow> b_append ops r | Batch rs \<Rightarrow> b_append_many ops rs)"

fun run_writes :: "'s backend_ops \<Rightarrow> store_write list \<Rightarrow> ('s, unit) action" where
  "run_writes ops [] = returnS ()"
| "run_writes ops (wr # wrs) = bindS (run_write ops wr) (\<lambda>_. run_writes ops wrs)"

definition write_records :: "store_write \<Rightarrow> audit_record list" where
  "write_records wr = (case wr of One r \<Rightarrow> [r] | Batch rs \<Rightarrow> rs)"

lemma memory_run_write: "run_write memory_ops wr m = (Inr (), m @ write_records wr)"
  by (cases wr) (simp_all add: run_write_def write_records_def memory_ops_def memory_append_each)

lemma storable_same:
  assumes "list_all2 same_record rs rs'"
  shows "sqlite_storable (rs' @ ws) r = sqlite_storable (rs @ ws) r"
proof -
  have "map seq rs = map seq rs'"
    using assms by (induction rule: list_all2_induct) (simp_all add: same_record_def same_content_def)
  then have "set (map seq rs) = set (map seq rs')" by (rule arg_cong)
  then have "(\<forall>k \<in> seq ` set rs. k < n) = (\<forall>k \<in> seq ` set rs'. k < n)" for n by simp
  then show ?thesis by (simp add: sqlite_storable_def ball_Un)
qed

lemma storable_norms: "sqlite_storable (rs @ map sorted_metadata ws) r = sqlite_storable (rs @ ws) r"
  by (simp add: sqlite_storable_def ball_Un)

context storage
begin

lemma run_writes_stored:
  assumes "usable s"
    and "\<forall>i < length (concat (map write_records ws)).
      storable (stored s @ map norm (take i (concat (map write_records ws)))) (concat (map write_records ws) ! i)"
  shows "\<exists>s'. run_writes ops ws s = (Inr (), s') \<and> usable s' \<and>
    stored s' = stored s @ map norm (concat (map write_records ws)) \<and>
    list_all2 same_record (concat (map write_records ws)) (map norm (concat (map write_records ws)))"
  using assms
proof (induction ws arbitrary: s)
  case (Cons wr ws)
  let ?new = "write_records wr" and ?rest = "concat (map write_records ws)"
  have first: "storable (stored s @ map norm (take i ?new)) (?new ! i)" if "i < length ?new" for i
    using Cons.prems(2) [rule_format, of i] that by (simp add: nth_append)
  have "\<exists>s'. run_write ops wr s = (Inr (), s') \<and> usable s' \<and> stored s' = stored s @ map norm ?new"
  proof (cases wr)
    case (One r)
    with first [of 0] append_law [OF Cons.prems(1), of r] show ?thesis by (simp add: run_write_def write_records_def)
  next
    case (Batch rs)
    with first append_many_law [OF Cons.prems(1), of rs] show ?thesis by (simp add: run_write_def write_records_def)
  qed
  then obtain s' where s': "run_write ops wr s = (Inr (), s')" "usable s'" "stored s' = stored s @ map norm ?new" by blast
  have rest: "storable (stored s' @ map norm (take i ?rest)) (?rest ! i)" if "i < length ?rest" for i
    using Cons.prems(2) [rule_format, of "length ?new + i"] that by (simp add: nth_append s'(3))
  from Cons.IH [OF s'(2)] rest obtain s'' where
    s'': "run_writes ops ws s' = (Inr (), s'')" "usable s''" "stored s'' = stored s' @ map norm ?rest"
      "list_all2 same_record ?rest (map norm ?rest)" by blast
  have "list_all2 same_record ?new (map norm ?new)"
    using first norm_same by (auto simp: list_all2_conv_all_nth)
  with s' s'' show ?case by (auto intro: list_all2_appendI)
qed simp

end

lemma memory_run_writes: "run_writes memory_ops ws m = (Inr (), m @ concat (map write_records ws))"
  by (induction ws arbitrary: m) (simp_all add: memory_run_write)

text \<open>C26: The SQLite backend keeps what the memory backend keeps: whatever single records and batches are
  written to both, with growing numbers and values that a row can hold, every write succeeds and
  \<open>load\<close> and \<open>load_last\<close> return the same records from both, up to the order of metadata keys.\<close>

theorem sqlite_refines_memory:
  assumes "sqlite_usable s" and "list_all2 same_record m (sqlite_stored s)"
    and "\<forall>i < length (concat (map write_records ws)).
       sqlite_storable (m @ take i (concat (map write_records ws))) (concat (map write_records ws) ! i)"
  shows "\<exists>s' rs m'. run_writes sqlite_ops ws s = (Inr (), s') \<and> run_writes memory_ops ws m = (Inr (), m') \<and>
     m' = m @ concat (map write_records ws) \<and>
     b_load sqlite_ops s' = (Inr rs, s') \<and> list_all2 same_record m' rs \<and>
     b_load_last sqlite_ops s' = (Inr (last_record rs), s')"
proof -
  let ?rs = "concat (map write_records ws)"
  have "\<forall>i < length ?rs. sqlite_storable (sqlite_stored s @ map sorted_metadata (take i ?rs)) (?rs ! i)"
    using assms(3) storable_same [OF assms(2)] storable_norms by simp
  from sqlite_backend.run_writes_stored [OF assms(1) this] obtain s' where
    s': "run_writes sqlite_ops ws s = (Inr (), s')" "sqlite_usable s'"
      "sqlite_stored s' = sqlite_stored s @ map sorted_metadata ?rs" "list_all2 same_record ?rs (map sorted_metadata ?rs)"
    by blast
  have "list_all2 same_record (m @ ?rs) (sqlite_stored s')"
    unfolding s'(3) using assms(2) s'(4) by (rule list_all2_appendI)
  with s'(1) sqlite_usable_load [OF s'(2)] memory_run_writes [of ws m] show ?thesis
    by (intro exI [of _ s'] exI [of _ "sqlite_stored s'"] exI [of _ "m @ ?rs"]) (simp add: sqlite_ops_def)
qed

lemma sqlite_empty: "sqlite_holds \<lparr>db_file = Some new_table, session = Some None\<rparr> []"
  by (simp add: sqlite_holds_def numbered_def table_of_def new_table_def v01_columns_def)

lemma sample_sqlite_ok: "sqlite_ok sample_record"
  by (simp add: sqlite_ok_def wf_record_def wf_dict dumpable_dict clean_dict sample_record_def is_ascii_no_surrogate
      ascii_genesis)

theorem sqlite_refines_memory_witness:
  "\<exists>s'. run_writes sqlite_ops [One sample_record, Batch [sample_record\<lparr>seq := 1\<rparr>, sample_record\<lparr>seq := 2\<rparr>]]
      \<lparr>db_file = Some new_table, session = Some None\<rparr> = (Inr (), s')"
proof -
  let ?s = "\<lparr>db_file = Some new_table, session = Some None\<rparr>"
  have "sqlite_usable ?s" "sqlite_stored ?s = []"
    using sqlite_empty sqlite_load_holds(3) [OF sqlite_empty] by (auto simp: sqlite_usable_def)
  moreover have "sqlite_ok (sample_record\<lparr>seq := n\<rparr>)" if "0 \<le> n" "n < 3" for n
    using sample_sqlite_ok that by (simp add: sqlite_ok_def wf_record_def)
  from this [of 1] this [of 2] sample_sqlite_ok have
    "\<forall>i < length (concat (map write_records [One sample_record, Batch [sample_record\<lparr>seq := 1\<rparr>, sample_record\<lparr>seq := 2\<rparr>]])).
       sqlite_storable ([] @ take i (concat (map write_records [One sample_record, Batch [sample_record\<lparr>seq := 1\<rparr>, sample_record\<lparr>seq := 2\<rparr>]])))
         (concat (map write_records [One sample_record, Batch [sample_record\<lparr>seq := 1\<rparr>, sample_record\<lparr>seq := 2\<rparr>]]) ! i)"
    by (auto simp: write_records_def sqlite_storable_def less_Suc_eq sample_record_def)
  ultimately show ?thesis
    using sqlite_refines_memory [of ?s "[]" "[One sample_record, Batch [sample_record\<lparr>seq := 1\<rparr>, sample_record\<lparr>seq := 2\<rparr>]]"] by auto
qed

section \<open>Migration\<close>

text \<open>A database of the first version, which had no key and no signature columns.\<close>

definition v01_record :: "audit_record \<Rightarrow> bool" where
  "v01_record r = (sqlite_ok r \<and> key_id r = [] \<and> signer_id r = [] \<and> signature r = [])"

definition v01_row :: "(string \<Rightarrow> string) \<Rightarrow> audit_record \<Rightarrow> sqlite_row" where
  "v01_row other r =
     \<lparr>row_seq = seq r, row_text = (\<lambda>c. if c \<in> set v01_columns then row_text (row_of r) c else other c)\<rparr>"

text \<open>Rows that are read back as the records.\<close>

definition shown :: "sqlite_row list \<Rightarrow> audit_record list \<Rightarrow> bool" where
  "shown rws rs = list_all2 (\<lambda>row r. row_seq row = seq r \<and> from_row row = Inr (sorted_metadata r)) rws rs"

lemma load_shown:
  assumes "session s = Some None" and "db_file s = Some t" and "shown (rows t) rs" and "numbered rs"
  shows "sqlite_load s = (Inr (map sorted_metadata rs), s)"
proof -
  have rows: "map row_seq (rows t) = map seq rs" "map from_row (rows t) = map (\<lambda>r. Inr (sorted_metadata r)) rs"
    using assms(3) by (auto simp: shown_def list_all2_conv_all_nth intro: nth_equalityI)
  have "sorted_wrt (<) (map seq rs)" using assms(4) by (simp add: numbered_def sorted_wrt_map)
  then have "sort_key row_seq (rows t) = rows t"
    using rows(1) strict_sorted_imp_sorted by (metis sort_key_id_if_sorted)
  moreover have "mapE from_row (rows t) = Inr (map sorted_metadata rs)"
    using rows(2) by (simp add: mapE_Inr_iff comp_def)
  ultimately show ?thesis using assms(1,2) by (simp add: sqlite_load_def view_def)
qed

lemma append_shown:
  assumes "session s = Some None" and "db_file s = Some t" and "shown (rows t) rs" and "numbered rs"
    and "sqlite_storable rs r"
  shows "\<exists>s'. sqlite_append r s = (Inr (), s') \<and> sqlite_load s' = (Inr (map sorted_metadata (rs @ [r])), s')"
proof -
  have r: "sqlite_ok r" "\<forall>r' \<in> set rs. seq r' < seq r" using assms(5) by (simp_all add: sqlite_storable_def)
  obtain vs where vs: "row_values r = Inr vs" "bind_row vs = Inr (row_of r)" using row_of_ok(1) [OF r(1)] by blast
  have "map row_seq (rows t) = map seq rs"
    using assms(3) by (auto simp: shown_def list_all2_conv_all_nth intro: nth_equalityI)
  then have "set (map row_seq (rows t)) = set (map seq rs)" by simp
  then have "row_seq (row_of r) \<notin> row_seq ` set (rows t)"
    using r(2) row_of_ok(2) [OF r(1)] by auto
  with vs assms(1,2) have "sqlite_append r s = (Inr (), \<lparr>db_file = Some (t\<lparr>rows := rows t @ [row_of r]\<rparr>), session = Some None\<rparr>)"
    by (simp add: sqlite_append_def insert_row_def view_def)
  moreover have "shown (rows t @ [row_of r]) (rs @ [r])"
    using assms(3) row_of_ok(2,3) [OF r(1)] by (simp add: shown_def list_all2_appendI)
  moreover have "numbered (rs @ [r])" using assms(4) r(2) by (simp add: numbered_snoc)
  ultimately show ?thesis
    using load_shown [of "\<lparr>db_file = Some (t\<lparr>rows := rows t @ [row_of r]\<rparr>), session = Some None\<rparr>"] by auto
qed

lemma from_row_cong:
  assumes "row_seq row = row_seq row'" and "\<forall>c \<in> set (columns new_table) - {''seq''}. row_text row c = row_text row' c"
  shows "from_row row = from_row row'"
  using assms by (simp add: from_row_def new_table_def v01_columns_def)

text \<open>\<open>init\<close> on a database of version 0.1 adds the columns that came later and keeps every record: they
  are loaded as they were, without a key and a signature, and new records are appended after them.\<close>

theorem sqlite_migration:
  assumes "list_all v01_record rs" and "numbered rs"
    and "db_file s = Some \<lparr>columns = v01_columns, rows = map (v01_row other) rs\<rparr>"
  shows "\<exists>s'. sqlite_init s = (Inr (), s') \<and> sqlite_load s' = (Inr (map sorted_metadata rs), s') \<and>
    list_all2 same_record rs (map sorted_metadata rs) \<and>
    (\<forall>r. sqlite_storable rs r \<longrightarrow>
       (\<exists>s''. sqlite_append r s' = (Inr (), s'') \<and> sqlite_load s'' = (Inr (map sorted_metadata (rs @ [r])), s'')))"
proof -
  define late where "late row = row\<lparr>row_text := (row_text row)(''key_id'' := [], ''signer_id'' := [], ''signature'' := [])\<rparr>"
    for row :: sqlite_row
  let ?t = "\<lparr>columns = columns new_table, rows = map (late \<circ> v01_row other) rs\<rparr>"
  let ?s = "\<lparr>db_file = Some ?t, session = Some None\<rparr>"
  have init: "sqlite_init s = (Inr (), ?s)"
    using assms(3) by (simp add: sqlite_init_def add_column_def new_table_def v01_columns_def late_def comp_def)
  have row: "row_seq (late (v01_row other r)) = seq r \<and> from_row (late (v01_row other r)) = Inr (sorted_metadata r)"
    if "r \<in> set rs" for r
  proof -
    have r: "v01_record r" using assms(1) that by (simp add: list_all_iff)
    then have ok: "sqlite_ok r" by (simp add: v01_record_def)
    have "from_row (late (v01_row other r)) = from_row (row_of r)"
      using row_of_ok(2,4) [OF ok] r unfolding v01_record_def by (intro from_row_cong) (auto simp: late_def v01_row_def new_table_def v01_columns_def)
    with row_of_ok(3) [OF ok] show ?thesis by (simp add: late_def v01_row_def)
  qed
  then have shown: "shown (rows ?t) rs" by (simp add: shown_def list_all2_conv_all_nth)
  note load = load_shown [of ?s ?t, OF _ _ shown assms(2)] and append = append_shown [of ?s ?t, OF _ _ shown assms(2)]
  have "list_all2 same_record rs (map sorted_metadata rs)"
    using assms(1) sqlite_norm by (auto simp: list_all2_conv_all_nth list_all_length v01_record_def)
  with init load append show ?thesis by simp
qed

theorem sqlite_migration_witness:
  "\<exists>s'. sqlite_init \<lparr>db_file = Some \<lparr>columns = v01_columns, rows = [v01_row (\<lambda>_. ''?'') (sample_record\<lparr>key_id := [], signer_id := []\<rparr>)]\<rparr>,
      session = None\<rparr> = (Inr (), s') \<and>
     fst (sqlite_load s') = Inr [sample_record\<lparr>key_id := [], signer_id := []\<rparr>]"
proof -
  let ?r = "sample_record\<lparr>key_id := [], signer_id := []\<rparr>"
  have "list_all v01_record [?r]" "numbered [?r]" "sorted_metadata ?r = ?r"
    using sample_sqlite_ok
    by (simp_all add: v01_record_def sqlite_ok_def wf_record_def numbered_def sorted_metadata_def sample_record_def)
  with sqlite_migration [of "[?r]" "\<lparr>db_file = Some \<lparr>columns = v01_columns, rows = [v01_row (\<lambda>_. ''?'') ?r]\<rparr>, session = None\<rparr>" "\<lambda>_. ''?''"]
  show ?thesis by auto
qed


section \<open>Writes that fail\<close>

lemma row_values_seq: "row_values r = Inr vs \<Longrightarrow> fst vs = seq r"
  by (auto simp: row_values_def result_simps)

lemma insert_row_Inr:
  "insert_row vs t = Inr t' \<Longrightarrow> \<exists>row. t' = t\<lparr>rows := rows t @ [row]\<rparr> \<and> row_seq row = fst vs"
  by (auto simp: insert_row_def bind_row_def result_simps split: if_splits)

lemma insert_rows_Inr:
  "insert_rows vss t = Inr t' \<Longrightarrow> \<exists>new. t' = t\<lparr>rows := rows t @ new\<rparr> \<and> map row_seq new = map fst vss"
proof (induction vss arbitrary: t)
  case Nil
  then show ?case by (intro exI [of _ "[]"]) simp
next
  case (Cons vs vss)
  then obtain t1 where t1: "insert_row vs t = Inr t1" "insert_rows vss t1 = Inr t'" by (auto simp: result_simps)
  from insert_row_Inr [OF t1(1)] obtain row where row: "t1 = t\<lparr>rows := rows t @ [row]\<rparr>" "row_seq row = fst vs" by blast
  from Cons.IH [OF t1(2)] obtain new where "t' = t1\<lparr>rows := rows t1 @ new\<rparr>" "map row_seq new = map fst vss" by blast
  with row show ?case by (intro exI [of _ "row # new"]) simp
qed

lemma row_values_seqs: "mapE row_values rs = Inr vss \<Longrightarrow> map fst vss = map seq rs"
  using row_values_seq by (auto simp: mapE_Inr_iff map_eq_conv list_eq_iff_nth_eq)

text \<open>C30: A write that fails changes nothing that is committed. \<open>append_many\<close> is all or nothing, and rolls its
  transaction back. \<open>append\<close> does not: when SQLite refuses the row, the transaction that the statement opened stays
  open, and with it, until the next commit on this connection, the write lock of the database.\<close>

theorem sqlite_failed_writes:
  assumes "session s = Some None" and "db_file s = Some t"
  shows "(case sqlite_append_many rs s of
            (Inl e, s') \<Rightarrow> s' = s
          | (Inr _, s') \<Rightarrow> session s' = Some None \<and>
              (\<exists>new. db_file s' = Some (t\<lparr>rows := rows t @ new\<rparr>) \<and> map row_seq new = map seq rs)) \<and>
         (case sqlite_append r s of
            (Inl e, s') \<Rightarrow> db_file s' = db_file s \<and> sqlite_load s' = (fst (sqlite_load s), s') \<and>
              (if (\<exists>vs. row_values r = Inr vs) then session s' = Some (Some t) else s' = s)
          | (Inr _, s') \<Rightarrow> session s' = Some None \<and>
              (\<exists>row. db_file s' = Some (t\<lparr>rows := rows t @ [row]\<rparr>) \<and> row_seq row = seq r))"
    (is "?many \<and> ?one")
proof
  have view: "view s = t" using assms by (simp add: view_def)
  have s: "s\<lparr>session := Some None\<rparr> = s" using assms by simp
  show ?many
  proof (cases "mapE row_values rs")
    case (Inr vss)
    then show ?thesis
      using assms s view row_values_seqs [OF Inr] insert_rows_Inr [of vss t]
      by (cases "insert_rows vss t") (auto simp: sqlite_append_many_def)
  qed (simp add: sqlite_append_many_def)
  have load: "sqlite_load (s\<lparr>session := Some (Some t)\<rparr>) = (fst (sqlite_load s), s\<lparr>session := Some (Some t)\<rparr>)"
    using assms view by (simp add: sqlite_load_def) (simp add: view_def)
  show ?one
  proof (cases "row_values r")
    case (Inl e)
    then show ?thesis using assms by (simp add: sqlite_append_def sqlite_load_def)
  next
    case (Inr vs)
    then show ?thesis
      using assms view load row_values_seq [OF Inr] insert_row_Inr [of vs t]
      by (cases "insert_row vs t") (auto simp: sqlite_append_def)
  qed
qed

theorem sqlite_failed_writes_witness:
  "\<exists>e s'. sqlite_append sample_record \<lparr>db_file = Some (table_of (columns new_table) [sample_record]), session = Some None\<rparr> = (Inl e, s') \<and>
     session s' = Some (Some (table_of (columns new_table) [sample_record]))"
proof -
  let ?t = "table_of (columns new_table) [sample_record]" and ?vs = "row_values sample_record"
  let ?s = "\<lparr>db_file = Some ?t, session = Some None\<rparr>"
  obtain vs where vs: "row_values sample_record = Inr vs" using row_of_ok(1) [OF sample_sqlite_ok] by blast
  have "\<exists>e. fst (sqlite_append sample_record ?s) = Inl e"
    using row_of_ok(1,2) [OF sample_sqlite_ok] by (auto simp: sqlite_append_def insert_row_def view_def table_of_def)
  then obtain e s' where "sqlite_append sample_record ?s = (Inl e, s')" by (metis prod.collapse)
  moreover from sqlite_failed_writes [of ?s ?t "[]" sample_record] this vs have "session s' = Some (Some ?t)" by simp
  ultimately show ?thesis by blast
qed

end
