(* ===== verification/Sync.thy ===== *)
theory Sync
  imports Sqlite_Properties Log_Anchors
begin

text \<open>
  \<open>sync.py\<close>: \<open>SyncAuditLog\<close>, which runs each method of a log in an event loop of its own. Its state is the log
  it wraps. It takes no lock, and its constructor opens the backend.

  \<open>call_step\<close>, proved for every \<open>storage\<close>: what a call does to the stored chain and which records it returns.
  \<open>sync_session\<close> is a program that opens the log, calls it and closes it; the theorem that many of them keep one
  SQLite log is in \<open>Sync_Properties\<close>.
\<close>

section \<open>The facade\<close>

text \<open>\<open>asyncio.run\<close>, which refuses to run inside a running loop; the coroutine is then never started.\<close>

definition asyncio_run :: "bool \<Rightarrow> ('s, 'a) action \<Rightarrow> ('s, 'a) action" where
  "asyncio_run running act =
     (if running then raiseS (RuntimeError ''asyncio.run() cannot be called from a running event loop'') else act)"

text \<open>The state before the call is that of the backend, the result the object.\<close>

definition sync_new ::
  "ed25519 \<Rightarrow> 's backend_ops \<Rightarrow> bool \<Rightarrow> bytes option \<Rightarrow> string \<Rightarrow> keyring option \<Rightarrow> key_arg option \<Rightarrow> string \<Rightarrow>
     ('s, 's audit_log) action" where
  "sync_new lib ops running seal_key kid ring signing_key signer s =
     (case new_log lib s seal_key kid ring signing_key signer None None of
        Inl e \<Rightarrow> (Inl e, s)
      | Inr lg \<Rightarrow>
          (case asyncio_run running (log_init ops) lg of
             (Inl e, lg') \<Rightarrow> (Inl e, store lg')
           | (Inr _, lg') \<Rightarrow> (Inr lg', store lg')))"

definition sync_public_key :: "ed25519 \<Rightarrow> 's audit_log \<Rightarrow> key_arg option" where
  "sync_public_key = log_public_key"

definition sync_append ::
  "ed25519 \<Rightarrow> 's backend_ops \<Rightarrow> bool \<Rightarrow> string \<Rightarrow> string \<Rightarrow> string \<Rightarrow> string \<Rightarrow> pydict option \<Rightarrow> string option \<Rightarrow>
     ('s audit_log, audit_record) action" where
  "sync_append lib ops running now ac an sub meta ts = asyncio_run running (log_append lib ops now ac an sub meta ts)"

definition sync_append_many ::
  "ed25519 \<Rightarrow> 's backend_ops \<Rightarrow> bool \<Rightarrow> log_entry list \<Rightarrow> ('s audit_log, audit_record list) action" where
  "sync_append_many lib ops running es = asyncio_run running (log_append_many lib ops es)"

definition sync_rotate ::
  "ed25519 \<Rightarrow> 's backend_ops \<Rightarrow> bool \<Rightarrow> string \<Rightarrow> bytes \<Rightarrow> string \<Rightarrow> string \<Rightarrow> ('s audit_log, audit_record) action" where
  "sync_rotate lib ops running now new_seal_key new_key_id ac =
     asyncio_run running (log_rotate lib ops now new_seal_key new_key_id ac)"

definition sync_read :: "'s backend_ops \<Rightarrow> bool \<Rightarrow> ('s audit_log, audit_record list) action" where
  "sync_read ops running = asyncio_run running (log_read ops)"

definition sync_checkpoint :: "ed25519 \<Rightarrow> 's backend_ops \<Rightarrow> bool \<Rightarrow> ('s audit_log, checkpoint) action" where
  "sync_checkpoint lib ops running = asyncio_run running (log_checkpoint lib ops)"

definition sync_merkle_root :: "'s backend_ops \<Rightarrow> bool \<Rightarrow> ('s audit_log, string) action" where
  "sync_merkle_root ops running = asyncio_run running (log_merkle_root ops)"

definition sync_inclusion_proof :: "'s backend_ops \<Rightarrow> bool \<Rightarrow> int \<Rightarrow> ('s audit_log, inclusion_proof) action" where
  "sync_inclusion_proof ops running s = asyncio_run running (log_inclusion_proof ops s)"

definition sync_verify ::
  "ed25519 \<Rightarrow> 's backend_ops \<Rightarrow> (exn \<Rightarrow> string) \<Rightarrow> bool \<Rightarrow> int option \<Rightarrow> checkpoint option \<Rightarrow> signers option \<Rightarrow>
     ('s audit_log, verify_report) action" where
  "sync_verify lib ops exn_str running expected_count cpo sgs =
     asyncio_run running (log_verify lib ops exn_str expected_count cpo sgs)"

definition sync_close :: "'s backend_ops \<Rightarrow> bool \<Rightarrow> ('s audit_log, unit) action" where
  "sync_close ops running = asyncio_run running (log_close ops)"

section \<open>A program that uses it\<close>

text \<open>The calls between the constructor and \<open>close\<close>, each of them inside or outside a running loop.\<close>

datatype sync_call =
    CallAppend string string string "pydict option" "string option" string
  | CallAppendMany "log_entry list"
  | CallRead
  | CallCheckpoint
  | CallMerkleRoot
  | CallInclusionProof int
  | CallVerify "int option" "checkpoint option" "signers option"

definition no_records :: "('s, 'a) action \<Rightarrow> ('s, audit_record list) action" where
  "no_records act = bindS act (\<lambda>_. returnS [])"

text \<open>The records a call says it has appended.\<close>

definition run_call ::
  "ed25519 \<Rightarrow> 's backend_ops \<Rightarrow> (exn \<Rightarrow> string) \<Rightarrow> bool \<times> sync_call \<Rightarrow> ('s audit_log, audit_record list) action" where
  "run_call lib ops exn_str c =
     (case snd c of
        CallAppend ac an sub meta ts now \<Rightarrow>
          bindS (sync_append lib ops (fst c) now ac an sub meta ts) (\<lambda>r. returnS [r])
      | CallAppendMany es \<Rightarrow> sync_append_many lib ops (fst c) es
      | CallRead \<Rightarrow> no_records (sync_read ops (fst c))
      | CallCheckpoint \<Rightarrow> no_records (sync_checkpoint lib ops (fst c))
      | CallMerkleRoot \<Rightarrow> no_records (sync_merkle_root ops (fst c))
      | CallInclusionProof s \<Rightarrow> no_records (sync_inclusion_proof ops (fst c) s)
      | CallVerify n cpo sgs \<Rightarrow> no_records (sync_verify lib ops exn_str (fst c) n cpo sgs))"

text \<open>The caller catches what a call raises and goes on.\<close>

definition returned :: "audit_record list result \<Rightarrow> audit_record list" where
  "returned res = (case res of Inl _ \<Rightarrow> [] | Inr rs \<Rightarrow> rs)"

primrec run_calls ::
  "ed25519 \<Rightarrow> 's backend_ops \<Rightarrow> (exn \<Rightarrow> string) \<Rightarrow> (bool \<times> sync_call) list \<Rightarrow> 's audit_log \<Rightarrow>
     audit_record list \<times> 's audit_log" where
  "run_calls lib ops exn_str [] lg = ([], lg)"
| "run_calls lib ops exn_str (c # cs) lg =
     (case run_call lib ops exn_str c lg of (res, lg1) \<Rightarrow>
      case run_calls lib ops exn_str cs lg1 of (rs, lg2) \<Rightarrow> (returned res @ rs, lg2))"

definition sync_session ::
  "ed25519 \<Rightarrow> 's backend_ops \<Rightarrow> (exn \<Rightarrow> string) \<Rightarrow> ('s, 's audit_log) action \<Rightarrow> (bool \<times> sync_call) list \<Rightarrow> 's \<Rightarrow>
     audit_record list \<times> 's" where
  "sync_session lib ops exn_str opener cs s =
     (case opener s of
        (Inl e, s1) \<Rightarrow> ([], s1)
      | (Inr lg, s1) \<Rightarrow>
          (case run_calls lib ops exn_str cs (lg\<lparr>store := s1\<rparr>) of (rs, lg1) \<Rightarrow>
             (rs, store (snd (sync_close ops False lg1)))))"

primrec sync_sessions ::
  "ed25519 \<Rightarrow> 's backend_ops \<Rightarrow> (exn \<Rightarrow> string) \<Rightarrow> ('s, 's audit_log) action \<Rightarrow> (bool \<times> sync_call) list list \<Rightarrow> 's \<Rightarrow>
     audit_record list \<times> 's" where
  "sync_sessions lib ops exn_str opener [] s = ([], s)"
| "sync_sessions lib ops exn_str opener (cs # css) s =
     (case sync_session lib ops exn_str opener cs s of (rs, s1) \<Rightarrow>
      case sync_sessions lib ops exn_str opener css s1 of (rs', s2) \<Rightarrow> (rs @ rs', s2))"

section \<open>What a call does\<close>

text \<open>The entries a call may add.\<close>

definition call_size :: "sync_call \<Rightarrow> nat" where
  "call_size c = (case c of CallAppend _ _ _ _ _ _ \<Rightarrow> 1 | CallAppendMany es \<Rightarrow> length es | _ \<Rightarrow> 0)"

text \<open>The entries it adds: none inside a running loop, and all or none of a batch.\<close>

definition call_adds :: "bool \<times> sync_call \<Rightarrow> nat" where
  "call_adds c =
     (if fst c then 0
      else case snd c of
          CallAppend ac an sub meta ts now \<Rightarrow> if entry_ok ac an sub (or_empty meta) (or_now now ts) then 1 else 0
        | CallAppendMany es \<Rightarrow>
            if list_all (\<lambda>(ac, an, sub, meta, now). entry_ok ac an sub (or_empty meta) now) es then length es else 0
        | _ \<Rightarrow> 0)"

text \<open>The operation of the log behind a call, for the conditions it has to meet.\<close>

definition log_op_of :: "sync_call \<Rightarrow> log_op" where
  "log_op_of c =
     (case c of
        CallAppend ac an sub meta ts now \<Rightarrow> Append ac an sub meta ts now
      | CallAppendMany es \<Rightarrow> AppendMany es
      | _ \<Rightarrow> Read)"

definition call_ok :: "sync_call \<Rightarrow> bool" where
  "call_ok c = op_ok None (log_op_of c)"

lemma refused_call: "run_call lib ops exn_str (True, c) lg = (Inl (RuntimeError ''asyncio.run() cannot be called from a running event loop''), lg)"
  by (simp add: run_call_def asyncio_run_def no_records_def sync_append_def sync_append_many_def sync_read_def
      sync_checkpoint_def sync_merkle_root_def sync_inclusion_proof_def sync_verify_def bindS_def split: sync_call.split)

lemma no_records_run: "snd (act lg) = lg1 \<Longrightarrow> \<exists>res. no_records act lg = (res, lg1) \<and> returned res = []"
  by (cases "act lg") (auto simp: no_records_def bindS_def returned_def split: sum.split)

text \<open>Every other method reads first and changes nothing more.\<close>

lemma reading_calls:
  assumes "log_op_of c = Read" and "log_read ops lg = (Inr rs, lg1)"
  shows "\<exists>res. run_call lib ops exn_str (False, c) lg = (res, lg1) \<and> returned res = []"
proof -
  have acts: "snd (log_read ops lg) = lg1" "snd (log_checkpoint lib ops lg) = lg1" "snd (log_merkle_root ops lg) = lg1"
    "snd (log_inclusion_proof ops i lg) = lg1" "snd (log_verify lib ops exn_str n cpo sgs lg) = lg1" for i n cpo sgs
    using assms(2) by (simp_all add: log_checkpoint_def log_merkle_root_def log_inclusion_proof_def log_verify_def)
  have run: "\<exists>res. no_records (log_read ops) lg = (res, lg1) \<and> returned res = []"
    "\<exists>res. no_records (log_checkpoint lib ops) lg = (res, lg1) \<and> returned res = []"
    "\<exists>res. no_records (log_merkle_root ops) lg = (res, lg1) \<and> returned res = []"
    "\<exists>res. no_records (log_inclusion_proof ops i) lg = (res, lg1) \<and> returned res = []"
    "\<exists>res. no_records (log_verify lib ops exn_str n cpo sgs) lg = (res, lg1) \<and> returned res = []" for i n cpo sgs
    by (rule no_records_run, rule acts)+
  show ?thesis
    using assms(1) run by (cases c) (simp_all add: log_op_of_def run_call_def asyncio_run_def sync_read_def
        sync_checkpoint_def sync_merkle_root_def sync_inclusion_proof_def sync_verify_def)
qed

text \<open>A log that may be used, over the records it has stored.\<close>

definition in_service ::
  "('s \<Rightarrow> bool) \<Rightarrow> ('s \<Rightarrow> audit_record list) \<Rightarrow> ed25519 \<Rightarrow> bytes option \<Rightarrow> keyring option \<Rightarrow> signers option \<Rightarrow>
     's audit_log \<Rightarrow> audit_record list \<Rightarrow> bool" where
  "in_service usable stored lib sk ring sgs lg rs =
     (usable (store lg) \<and> stored (store lg) = rs \<and> valid_chain lib sk ring sgs rs \<and> tail_known rs lg \<and>
      writer_ok lib sk ring sgs lg)"

context storage
begin

lemma read_run:
  assumes "in_service usable stored lib sk ring sgs lg rs"
  obtains lg1 where "log_read ops lg = (Inr rs, lg1)" "in_service usable stored lib sk ring sgs lg1 rs" "same_config lg lg1"
proof -
  have lg: "usable (store lg)" "stored (store lg) = rs" "valid_chain lib sk ring sgs rs" "writer_ok lib sk ring sgs lg"
    "tail_known (stored (store lg)) lg" using assms by (simp_all add: in_service_def)
  obtain lg1 where 1: "log_read ops lg = (Inr rs, lg1)" "usable (store lg1)" "stored (store lg1) = rs" "same_config lg lg1"
    "tail_known rs lg1"
    using log_read_run [OF lg(1,5)] lg(2) by metis
  moreover have "in_service usable stored lib sk ring sgs lg1 rs"
    using 1 lg(3,4) same_config_writer [OF 1(4)] by (simp add: in_service_def)
  ultimately show ?thesis by (intro that)
qed

lemma call_step:
  assumes lg: "in_service usable stored lib sk ring sgs lg rs" and ok: "call_ok c"
    and fits: "op_fits storable norm lib rs lg (log_op_of c)"
  obtains res lg1 new where "run_call lib ops exn_str (running, c) lg = (res, lg1)" "same_config lg lg1"
    "in_service usable stored lib sk ring sgs lg1 (rs @ map norm new)" "returned res = new" "length new = call_adds (running, c)"
    "list_all2 same_record new (map norm new)"
proof (cases running)
  case True
  with refused_call [of lib ops exn_str c lg] lg that [of _ lg "[]"] show ?thesis
    by (simp add: returned_def call_adds_def)
next
  case False
  have s: "usable (store lg)" "stored (store lg) = rs" "valid_chain lib sk ring sgs (stored (store lg))"
    "writer_ok lib sk ring sgs lg" "tail_known (stored (store lg)) lg" using lg by (simp_all add: in_service_def)
  show ?thesis
  proof (cases "log_op_of c = Read")
    case True
    obtain lg1 where 1: "log_read ops lg = (Inr rs, lg1)" "in_service usable stored lib sk ring sgs lg1 rs" "same_config lg lg1"
      using read_run [OF lg] .
    obtain res where "run_call lib ops exn_str (False, c) lg = (res, lg1)" "returned res = []"
      using reading_calls [OF True 1(1)] by blast
    moreover have "call_adds (running, c) = 0" using True by (cases c) (simp_all add: call_adds_def log_op_of_def)
    ultimately show ?thesis using 1 False that [of res lg1 "[]"] by simp
  next
    case writes: False
    have ascii: "is_ascii (case last_record (stored (store lg)) of None \<Rightarrow> GENESIS_HASH | Some p \<Rightarrow> hash p)"
      using last_record_ascii [OF s(3)] .
    show ?thesis
    proof (cases c)
      case (CallAppend ac an sub meta ts now)
      have wf: "wf_value False (PyDict (or_empty meta))" using ok by (simp add: call_ok_def log_op_of_def CallAppend op_ok_def)
      have "\<forall>r. seal_record lib lg (build_record lg ac an sub (or_empty meta) (or_now now ts)
          (last_record (stored (store lg)))) = Inr r \<longrightarrow> storable (stored (store lg)) r"
        using fits s(2) by (simp add: op_fits_def log_op_of_def CallAppend)
      from s(1,5,3,4) wf this show ?thesis
      proof (cases rule: append_step)
        case (refused e lg1)
        have "\<not> entry_ok ac an sub (or_empty meta) (or_now now ts)"
          using refused(2) by (simp add: seal_accepts [OF s(4) ascii wf, symmetric])
        with refused s same_config_writer [OF refused(5)] False that [of "Inl e" lg1 "[]"] show ?thesis
          by (simp add: run_call_def CallAppend sync_append_def asyncio_run_def returned_def in_service_def tail_known_def
              call_adds_def)
      next
        case (appended r lg1)
        have "entry_ok ac an sub (or_empty meta) (or_now now ts)"
          using seal_accepts [OF s(4) ascii wf] appended(2) by blast
        with appended s same_config_writer [OF appended(5)] False that [of "Inr [r]" lg1 "[r]"] show ?thesis
          by (simp add: run_call_def CallAppend sync_append_def asyncio_run_def returned_def in_service_def tail_known_def
              call_adds_def)
      qed
    next
      case (CallAppendMany es)
      have wf: "list_all (\<lambda>(ac, an, sub, meta, now). wf_value False (PyDict (or_empty meta))) es"
        using ok by (simp add: call_ok_def log_op_of_def CallAppendMany op_ok_def)
      have st: "\<forall>rs. seal_entries lib lg (last_record (stored (store lg))) es = Inr rs \<longrightarrow>
          (\<forall>i < length rs. storable (stored (store lg) @ map norm (take i rs)) (rs ! i))"
        using fits s(2) by (simp add: op_fits_def log_op_of_def CallAppendMany)
      from s(1,5,3,4) wf st show ?thesis
      proof (cases rule: append_many_step)
        case (refused e lg1)
        have "\<not> list_all (\<lambda>(ac, an, sub, meta, now). entry_ok ac an sub (or_empty meta) now) es"
          using refused(2) by (simp add: seal_entries_accepts [OF s(4) ascii wf, symmetric])
        with refused s same_config_writer [OF refused(5)] False that [of "Inl e" lg1 "[]"] show ?thesis
          by (simp add: run_call_def CallAppendMany sync_append_many_def asyncio_run_def returned_def in_service_def tail_known_def
              call_adds_def)
      next
        case (appended new lg1)
        have "\<forall>i < length new. storable (stored (store lg) @ map norm (take i new)) (new ! i)" using st appended(2) by blast
        then have "list_all2 same_record new (map norm new)" using norm_same by (auto simp: list_all2_conv_all_nth)
        moreover have "list_all (\<lambda>(ac, an, sub, meta, now). entry_ok ac an sub (or_empty meta) now) es"
          using seal_entries_accepts [OF s(4) ascii wf] appended(2) by blast
        ultimately show ?thesis
          using appended s same_config_writer [OF appended(5)] False seal_entries_length [OF appended(2)]
            that [of "Inr new" lg1 new]
          by (simp add: run_call_def CallAppendMany sync_append_many_def asyncio_run_def returned_def in_service_def
              tail_known_def call_adds_def)
      qed
    qed (use writes in \<open>simp_all add: log_op_of_def\<close>)
  qed
qed

end

end
