(* ===== verification/Sync_Properties.thy ===== *)
theory Sync_Properties
  imports Sync
begin

text \<open>
  What \<open>SyncAuditLog\<close> promises over SQLite (\<open>sync_sessions_verify\<close>): programs that run one after the other, open
  the log, call it and close it, keep one log, with every record an append returned and no other.

  \<open>sync_fits\<close> shows that a row can hold whatever the log seals; \<open>at_rest\<close> describes the database between two
  programs.
\<close>

section \<open>A row can hold what is sealed\<close>


lemma no_surrogate_nil [simp]: "\<not> has_surrogate []"
  by (simp add: is_ascii_no_surrogate)




section \<open>One program\<close>














section \<open>Many programs\<close>






end
