(* ===== verification/Postgres.thy ===== *)
theory Postgres
  imports Sqlite_Properties
begin

text \<open>
  \<open>backends/postgres.py\<close>: a table of a PostgreSQL server, which is reached through a pool of connections of the
  package \<open>asyncpg\<close>. The package and the server behind it are the record \<open>asyncpg\<close> of the operations the backend
  calls, over a state \<open>'d\<close> of which nothing is known here; \<open>installed\<close> says whether the package can be imported.
  The backend is the texts of its SQL statements, the order of its calls and the conversion of rows.

  What the server does with the statements is described in \<open>Postgres_Server\<close>.
\<close>

section \<open>What the backend calls\<close>

text \<open>Values and rows are the Python values that \<open>asyncpg\<close> takes and returns.\<close>

record ('d, 'p, 'c) asyncpg =
  installed :: bool
  create_pool :: "string \<Rightarrow> ('d, 'p) action"
  pool_acquire :: "'p \<Rightarrow> ('d, 'c) action"
  pool_release :: "'p \<Rightarrow> 'c \<Rightarrow> ('d, unit) action"
  pool_close :: "'p \<Rightarrow> ('d, unit) action"
  conn_execute :: "'c \<Rightarrow> string \<Rightarrow> pyval list \<Rightarrow> ('d, unit) action"
  conn_executemany :: "'c \<Rightarrow> string \<Rightarrow> pyval list list \<Rightarrow> ('d, unit) action"
  conn_fetch :: "'c \<Rightarrow> string \<Rightarrow> ('d, pydict list) action"
  conn_fetchrow :: "'c \<Rightarrow> string \<Rightarrow> ('d, pydict option) action"
  tx_begin :: "'c \<Rightarrow> ('d, unit) action"
  tx_commit :: "'c \<Rightarrow> ('d, unit) action"
  tx_rollback :: "'c \<Rightarrow> ('d, unit) action"

text \<open>\<open>async with pool.acquire() as conn\<close> and \<open>async with conn.transaction()\<close>: the end of the block is reached also
  by an exception, which then goes on unless the end raises one itself.\<close>

definition finally_do :: "('d, unit) action \<Rightarrow> 'a result \<Rightarrow> ('d, 'a) action" where
  "finally_do last_act res d = (case last_act d of (Inl e, d1) \<Rightarrow> (Inl e, d1) | (Inr _, d1) \<Rightarrow> (res, d1))"

definition with_connection :: "('d, 'p, 'c) asyncpg \<Rightarrow> 'p \<Rightarrow> ('c \<Rightarrow> ('d, 'a) action) \<Rightarrow> ('d, 'a) action" where
  "with_connection pg p body =
     bindS (pool_acquire pg p) (\<lambda>c d. case body c d of (res, d1) \<Rightarrow> finally_do (pool_release pg p c) res d1)"

definition with_transaction :: "('d, 'p, 'c) asyncpg \<Rightarrow> 'c \<Rightarrow> ('d, 'a) action \<Rightarrow> ('d, 'a) action" where
  "with_transaction pg c body =
     bindS (tx_begin pg c) (\<lambda>_ d.
       case body d of
         (Inl e, d1) \<Rightarrow> finally_do (tx_rollback pg c) (Inl e) d1
       | (Inr x, d1) \<Rightarrow> finally_do (tx_commit pg c) (Inr x) d1)"

section \<open>Statements\<close>

definition table_name :: "string \<Rightarrow> string" where
  "table_name t = [quote] @ t @ [quote]"

definition text_literal :: "string \<Rightarrow> string" where
  "text_literal s = [CHR 0x27] @ s @ [CHR 0x27]"

definition SCHEMA :: "string \<Rightarrow> string" where
  "SCHEMA t =
     LF # ''CREATE TABLE IF NOT EXISTS '' @ table_name t @ '' ('' @
     LF # ''    seq       BIGINT PRIMARY KEY,'' @
     LF # ''    ts        TEXT NOT NULL,'' @
     LF # ''    actor     TEXT NOT NULL,'' @
     LF # ''    action    TEXT NOT NULL,'' @
     LF # ''    subject   TEXT NOT NULL DEFAULT '' @ text_literal [] @ '','' @
     LF # ''    meta      TEXT NOT NULL DEFAULT '' @ text_literal ''{}'' @ '','' @
     LF # ''    prev_hash TEXT NOT NULL,'' @
     LF # ''    hash      TEXT NOT NULL,'' @
     LF # ''    key_id    TEXT NOT NULL DEFAULT '' @ text_literal [] @ '','' @
     LF # ''    signer_id TEXT NOT NULL DEFAULT '' @ text_literal [] @ '','' @
     LF # ''    signature TEXT NOT NULL DEFAULT '' @ text_literal [] @
     LF # '')'' @ [LF]"

definition INSERT_SQL :: "string \<Rightarrow> string" where
  "INSERT_SQL t =
     ''INSERT INTO '' @ table_name t @
     '' (seq, ts, actor, action, subject, meta, prev_hash, hash, key_id, signer_id, signature)'' @
     '' VALUES ($1, $2, $3, $4, $5, $6, $7, $8, $9, $10, $11)''"

definition SELECT_SQL :: "string \<Rightarrow> string" where
  "SELECT_SQL t =
     ''SELECT seq, ts, actor, action, subject, meta, prev_hash, hash, key_id, signer_id, signature'' @
     '' FROM '' @ table_name t @ '' ORDER BY seq''"

definition add_column_sql :: "string \<Rightarrow> string \<Rightarrow> string" where
  "add_column_sql t c =
     ''ALTER TABLE '' @ table_name t @ '' ADD COLUMN IF NOT EXISTS'' @ '' '' @ c @ '' TEXT NOT NULL DEFAULT '' @ text_literal []"

section \<open>The backend\<close>

record ('d, 'p) postgres =
  pg_server :: 'd
  pg_pool :: "'p option"

text \<open>What the pool does to the server; without a pool, \<open>None.acquire\<close>.\<close>

definition on_pool :: "('p \<Rightarrow> ('d, 'a) action) \<Rightarrow> (('d, 'p) postgres, 'a) action" where
  "on_pool act s =
     (case pg_pool s of
        None \<Rightarrow> (Inl (AttributeError ''acquire''), s)
      | Some p \<Rightarrow> (case act p (pg_server s) of (res, d) \<Rightarrow> (res, s\<lparr>pg_server := d\<rparr>)))"

definition require_asyncpg :: "('d, 'p, 'c) asyncpg \<Rightarrow> unit result" where
  "require_asyncpg pg =
     (if installed pg then Inr ()
      else Inl (ImportError ''PostgresBackend requires the 'postgres' extra: pip install auditchain[postgres]''))"

definition make_pool :: "('d, 'p, 'c) asyncpg \<Rightarrow> string \<Rightarrow> (('d, 'p) postgres, unit) action" where
  "make_pool pg dsn s =
     (if pg_pool s \<noteq> None then (Inr (), s)
      else case create_pool pg dsn (pg_server s) of
             (Inl e, d) \<Rightarrow> (Inl e, s\<lparr>pg_server := d\<rparr>)
           | (Inr p, d) \<Rightarrow> (Inr (), \<lparr>pg_server = d, pg_pool = Some p\<rparr>))"

definition create_table :: "('d, 'p, 'c) asyncpg \<Rightarrow> string \<Rightarrow> 'c \<Rightarrow> ('d, unit) action" where
  "create_table pg t c =
     bindS (conn_execute pg c (SCHEMA t) []) (\<lambda>_.
     bindS (conn_execute pg c (add_column_sql t ''signer_id'') []) (\<lambda>_.
       conn_execute pg c (add_column_sql t ''signature'') []))"

definition postgres_init :: "('d, 'p, 'c) asyncpg \<Rightarrow> string \<Rightarrow> string \<Rightarrow> (('d, 'p) postgres, unit) action" where
  "postgres_init pg dsn t =
     bindS (liftS (require_asyncpg pg)) (\<lambda>_.
     bindS (make_pool pg dsn) (\<lambda>_.
       on_pool (\<lambda>p. with_connection pg p (create_table pg t))))"

definition postgres_row_values :: "audit_record \<Rightarrow> pyval list result" where
  "postgres_row_values r =
     bindE (dumps compact (PyDict (metadata r))) (\<lambda>meta.
       Inr [PyInt (seq r), PyStr (timestamp r), PyStr (actor r), PyStr (action r), PyStr (subject r), PyStr meta,
            PyStr (prev_hash r), PyStr (hash r), PyStr (key_id r), PyStr (signer_id r), PyStr (signature r)])"

definition postgres_append :: "('d, 'p, 'c) asyncpg \<Rightarrow> string \<Rightarrow> audit_record \<Rightarrow> (('d, 'p) postgres, unit) action" where
  "postgres_append pg t r =
     on_pool (\<lambda>p. with_connection pg p (\<lambda>c.
       bindS (liftS (postgres_row_values r)) (conn_execute pg c (INSERT_SQL t))))"

definition postgres_append_many ::
  "('d, 'p, 'c) asyncpg \<Rightarrow> string \<Rightarrow> audit_record list \<Rightarrow> (('d, 'p) postgres, unit) action" where
  "postgres_append_many pg t rs =
     bindS (liftS (mapE postgres_row_values rs)) (\<lambda>vss.
       on_pool (\<lambda>p. with_connection pg p (\<lambda>c.
         with_transaction pg c (conn_executemany pg c (INSERT_SQL t) vss))))"

text \<open>\<open>row[c]\<close> and \<open>json.loads\<close>, which wants a string.\<close>

definition row_item :: "pydict \<Rightarrow> string \<Rightarrow> (string \<times> pyval) result" where
  "row_item row c = bindE (dict_item row c) (\<lambda>v. Inr (c, v))"

definition loads_value :: "pyval \<Rightarrow> pyval result" where
  "loads_value v = (case v of PyStr s \<Rightarrow> loads s | _ \<Rightarrow> Inl (TypeError ''loads''))"

definition from_postgres_row :: "pydict \<Rightarrow> audit_record result" where
  "from_postgres_row row =
     bindE (mapE (row_item row) [''seq'', ''ts'', ''actor'', ''action'', ''subject'']) (\<lambda>before.
     bindE (bindE (dict_item row ''meta'') loads_value) (\<lambda>meta.
     bindE (mapE (row_item row) [''prev_hash'', ''hash'', ''key_id'', ''signer_id'', ''signature'']) (\<lambda>after.
       from_stored (PyDict (before @ [(''meta'', meta)] @ after)))))"

definition postgres_load :: "('d, 'p, 'c) asyncpg \<Rightarrow> string \<Rightarrow> (('d, 'p) postgres, audit_record list) action" where
  "postgres_load pg t =
     bindS (on_pool (\<lambda>p. with_connection pg p (\<lambda>c. conn_fetch pg c (SELECT_SQL t)))) (\<lambda>rows.
       liftS (mapE from_postgres_row rows))"

definition postgres_load_last ::
  "('d, 'p, 'c) asyncpg \<Rightarrow> string \<Rightarrow> (('d, 'p) postgres, audit_record option) action" where
  "postgres_load_last pg t =
     bindS (on_pool (\<lambda>p. with_connection pg p (\<lambda>c. conn_fetchrow pg c (SELECT_SQL t @ '' DESC LIMIT 1'')))) (\<lambda>row.
       case row of None \<Rightarrow> returnS None | Some row \<Rightarrow> liftS (bindE (from_postgres_row row) (\<lambda>r. Inr (Some r))))"

definition postgres_close :: "('d, 'p, 'c) asyncpg \<Rightarrow> (('d, 'p) postgres, unit) action" where
  "postgres_close pg s =
     (case pg_pool s of
        None \<Rightarrow> (Inr (), s)
      | Some p \<Rightarrow>
          (case pool_close pg p (pg_server s) of
             (Inl e, d) \<Rightarrow> (Inl e, s\<lparr>pg_server := d\<rparr>)
           | (Inr _, d) \<Rightarrow> (Inr (), \<lparr>pg_server = d, pg_pool = None\<rparr>)))"

definition postgres_ops :: "('d, 'p, 'c) asyncpg \<Rightarrow> string \<Rightarrow> string \<Rightarrow> ('d, 'p) postgres backend_ops" where
  "postgres_ops pg dsn t =
     \<lparr>b_init = postgres_init pg dsn t, b_append = postgres_append pg t, b_append_many = postgres_append_many pg t,
      b_load = postgres_load pg t, b_load_last = postgres_load_last pg t, b_close = postgres_close pg\<rparr>"

end
