(* ===== verification/Postgres_Server.thy ===== *)
theory Postgres_Server
  imports Postgres
begin

text \<open>
  What the documentation of PostgreSQL and \<open>asyncpg\<close> promises of the statements the backend uses: the statements as
  a datatype, their text, and their effect on the tables; and \<open>asyncpg_ok\<close>, that a parameter \<open>asyncpg\<close> behaves so,
  while nobody else writes to the table. A server in a few lines, \<open>demo_pg\<close>, shows that the promise can be kept.

  \<open>statement_texts\<close> shows that the texts in \<open>postgres.py\<close> are the texts of the statements that are meant: the columns
  agree with each other, and there is a placeholder for each.
\<close>

section \<open>Statements and their text\<close>

datatype pg_type = BigintKey | TextNotNull | TextDefault string

text \<open>A column has a name, some space after it, and a type.\<close>

datatype sql =
    CreateTable string "(string \<times> nat \<times> pg_type) list"
  | AddColumn string string pg_type
  | InsertInto string "string list"
  | SelectAll string "string list" string
  | SelectLast string "string list" string

definition type_text :: "pg_type \<Rightarrow> string" where
  "type_text ty =
     (case ty of
        BigintKey \<Rightarrow> ''BIGINT PRIMARY KEY''
      | TextNotNull \<Rightarrow> ''TEXT NOT NULL''
      | TextDefault d \<Rightarrow> ''TEXT NOT NULL DEFAULT '' @ text_literal d)"

definition column_text :: "string \<times> nat \<times> pg_type \<Rightarrow> string" where
  "column_text col = (case col of (c, n, ty) \<Rightarrow> LF # ''    '' @ c @ replicate n CHR '' '' @ type_text ty)"

definition placeholder :: "nat \<Rightarrow> string" where
  "placeholder i = CHR ''$'' # dec_nat (Suc i)"

definition select_text :: "string \<Rightarrow> string list \<Rightarrow> string \<Rightarrow> string" where
  "select_text t cs k = ''SELECT '' @ join '', '' cs @ '' FROM '' @ table_name t @ '' ORDER BY '' @ k"

definition render :: "sql \<Rightarrow> string" where
  "render st =
     (case st of
        CreateTable t cols \<Rightarrow>
          LF # ''CREATE TABLE IF NOT EXISTS '' @ table_name t @ '' ('' @ join '','' (map column_text cols) @ LF # '')'' @ [LF]
      | AddColumn t c ty \<Rightarrow>
          ''ALTER TABLE '' @ table_name t @ '' ADD COLUMN IF NOT EXISTS '' @ c @ '' '' @ type_text ty
      | InsertInto t cs \<Rightarrow>
          ''INSERT INTO '' @ table_name t @ '' ('' @ join '', '' cs @ '') VALUES ('' @
          join '', '' (map placeholder [0..<length cs]) @ '')''
      | SelectAll t cs k \<Rightarrow> select_text t cs k
      | SelectLast t cs k \<Rightarrow> select_text t cs k @ '' DESC LIMIT 1'')"

text \<open>The columns of the backend.\<close>

definition pg_layout :: "(string \<times> nat \<times> pg_type) list" where
  "pg_layout =
     [(''seq'', 7, BigintKey), (''ts'', 8, TextNotNull), (''actor'', 5, TextNotNull), (''action'', 4, TextNotNull),
      (''subject'', 3, TextDefault []), (''meta'', 6, TextDefault ''{}''), (''prev_hash'', 1, TextNotNull),
      (''hash'', 6, TextNotNull), (''key_id'', 4, TextDefault []), (''signer_id'', 1, TextDefault []),
      (''signature'', 1, TextDefault [])]"

definition pg_names :: "string list" where
  "pg_names = map fst pg_layout"

lemma statement_texts:
  "SCHEMA t = render (CreateTable t pg_layout)"
  "add_column_sql t c = render (AddColumn t c (TextDefault []))"
  "INSERT_SQL t = render (InsertInto t pg_names)"
  "SELECT_SQL t = render (SelectAll t pg_names ''seq'')"
  "SELECT_SQL t @ '' DESC LIMIT 1'' = render (SelectLast t pg_names ''seq'')"
proof -
  have digits: "map placeholder [0..<11] = [''$1'', ''$2'', ''$3'', ''$4'', ''$5'', ''$6'', ''$7'', ''$8'', ''$9'', ''$10'', ''$11'']"
    by code_simp
  show "SCHEMA t = render (CreateTable t pg_layout)"
    by (simp add: SCHEMA_def render_def pg_layout_def column_text_def type_text_def numeral_eq_Suc)
  show "add_column_sql t c = render (AddColumn t c (TextDefault []))"
    by (simp add: add_column_sql_def render_def type_text_def)
  have len: "length pg_names = 11" by (simp add: pg_names_def pg_layout_def)
  show "INSERT_SQL t = render (InsertInto t pg_names)"
    unfolding render_def sql.case len digits by (simp add: INSERT_SQL_def pg_names_def pg_layout_def)
  show "SELECT_SQL t = render (SelectAll t pg_names ''seq'')"
    "SELECT_SQL t @ '' DESC LIMIT 1'' = render (SelectLast t pg_names ''seq'')"
    by (simp_all add: SELECT_SQL_def render_def select_text_def pg_names_def pg_layout_def)
qed

section \<open>Their effect\<close>

record pg_table =
  pg_columns :: "(string \<times> pg_type) list"
  pg_rows :: "(string \<Rightarrow> pyval) list"

type_synonym pg_db = "string \<rightharpoonup> pg_table"

text \<open>A \<open>BIGINT\<close> has 64 bits; a \<open>TEXT\<close> is UTF-8 without a zero byte.\<close>

fun admits :: "pg_type \<Rightarrow> pyval \<Rightarrow> bool" where
  "admits BigintKey (PyInt n) = (- (2 ^ 63) \<le> n \<and> n < 2 ^ 63)"
| "admits BigintKey _ = False"
| "admits _ (PyStr s) = (\<not> has_surrogate s \<and> CHR 0x00 \<notin> set s)"
| "admits _ _ = False"

definition default_of :: "pg_type \<Rightarrow> pyval" where
  "default_of ty = (case ty of TextDefault d \<Rightarrow> PyStr d | _ \<Rightarrow> PyNone)"

definition new_row :: "(string \<times> pg_type) list \<Rightarrow> string list \<Rightarrow> pyval list \<Rightarrow> string \<Rightarrow> pyval" where
  "new_row cols cs args c =
     (case map_of (zip cs args) c of
        Some v \<Rightarrow> v
      | None \<Rightarrow> (case map_of cols c of None \<Rightarrow> PyNone | Some ty \<Rightarrow> default_of ty))"

definition row_fits :: "pg_table \<Rightarrow> (string \<Rightarrow> pyval) \<Rightarrow> bool" where
  "row_fits tab row =
     list_all (\<lambda>(c, ty). admits ty (row c) \<and> (ty = BigintKey \<longrightarrow> row c \<notin> set (map (\<lambda>r. r c) (pg_rows tab))))
       (pg_columns tab)"

text \<open>\<open>None\<close>: the statement fails.\<close>

definition insert_into :: "pg_table \<Rightarrow> string list \<Rightarrow> pyval list \<Rightarrow> pg_table option" where
  "insert_into tab cs args =
     (let row = new_row (pg_columns tab) cs args
      in if length args = length cs \<and> set cs \<subseteq> set (map fst (pg_columns tab)) \<and> row_fits tab row
         then Some (tab\<lparr>pg_rows := pg_rows tab @ [row]\<rparr>) else None)"

definition add_pg_column :: "pg_table \<Rightarrow> string \<Rightarrow> pg_type \<Rightarrow> pg_table" where
  "add_pg_column tab c ty =
     (if c \<in> set (map fst (pg_columns tab)) then tab
      else \<lparr>pg_columns = pg_columns tab @ [(c, ty)], pg_rows = map (\<lambda>r. r(c := default_of ty)) (pg_rows tab)\<rparr>)"

definition sql_write :: "sql \<Rightarrow> pyval list \<Rightarrow> pg_db \<Rightarrow> pg_db option" where
  "sql_write st args db =
     (case st of
        CreateTable t cols \<Rightarrow>
          Some (if db t = None then db(t \<mapsto> \<lparr>pg_columns = map (\<lambda>(c, n, ty). (c, ty)) cols, pg_rows = []\<rparr>) else db)
      | AddColumn t c ty \<Rightarrow> map_option (\<lambda>tab. db(t \<mapsto> add_pg_column tab c ty)) (db t)
      | InsertInto t cs \<Rightarrow>
          (case db t of None \<Rightarrow> None | Some tab \<Rightarrow> map_option (\<lambda>tab'. db(t \<mapsto> tab')) (insert_into tab cs args))
      | _ \<Rightarrow> None)"

fun sql_write_all :: "sql \<Rightarrow> pyval list list \<Rightarrow> pg_db \<Rightarrow> pg_db option" where
  "sql_write_all st [] db = Some db"
| "sql_write_all st (args # argss) db =
     (case sql_write st args db of None \<Rightarrow> None | Some db' \<Rightarrow> sql_write_all st argss db')"

definition sort_value :: "pyval \<Rightarrow> int" where
  "sort_value v = (case v of PyInt n \<Rightarrow> n | _ \<Rightarrow> 0)"

definition ordered_rows :: "pg_table \<Rightarrow> string list \<Rightarrow> string \<Rightarrow> pydict list" where
  "ordered_rows tab cs k = map (\<lambda>r. map (\<lambda>c. (c, r c)) cs) (sort_key (\<lambda>r. sort_value (r k)) (pg_rows tab))"

text \<open>\<open>ORDER BY\<close> a column of integers.\<close>

definition sql_read :: "sql \<Rightarrow> pg_db \<Rightarrow> pydict list option" where
  "sql_read st db =
     (case st of
        SelectAll t cs k \<Rightarrow> map_option (\<lambda>tab. ordered_rows tab cs k) (db t)
      | SelectLast t cs k \<Rightarrow> map_option (\<lambda>tab. take 1 (rev (ordered_rows tab cs k))) (db t)
      | _ \<Rightarrow> None)"

section \<open>What a client may rely on\<close>

text \<open>What is observed of the state of the package and the server: the tables that are committed, the pools that are
  open, the connections that are out of a pool, and what the transaction of one of these sees; \<open>None\<close> when a
  statement in it has failed.\<close>

record ('d, 'p, 'c) pg_view =
  tables :: "'d \<Rightarrow> pg_db"
  pool_open :: "'d \<Rightarrow> 'p \<Rightarrow> bool"
  in_use :: "'d \<Rightarrow> 'p \<Rightarrow> 'c \<Rightarrow> bool"
  in_tx :: "'d \<Rightarrow> 'p \<Rightarrow> 'c \<Rightarrow> pg_db option \<Rightarrow> bool"

text \<open>A call that succeeds with a result, or fails, and what holds afterwards.\<close>

definition yields :: "'a result \<times> 'd \<Rightarrow> 'a option \<Rightarrow> ('d \<Rightarrow> bool) \<Rightarrow> bool" where
  "yields out x post = (post (snd out) \<and> (case x of None \<Rightarrow> \<exists>e. fst out = Inl e | Some v \<Rightarrow> fst out = Inr v))"

definition connects :: "('d, 'p, 'c) asyncpg \<Rightarrow> ('d, 'p, 'c) pg_view \<Rightarrow> bool" where
  "connects pg v =
     (installed pg \<and>
      (\<forall>dsn d. \<exists>p. yields (create_pool pg dsn d) (Some p) (\<lambda>d'. tables v d' = tables v d \<and> pool_open v d' p)) \<and>
      (\<forall>d p. pool_open v d p \<longrightarrow>
         (\<exists>c. yields (pool_acquire pg p d) (Some c) (\<lambda>d'. tables v d' = tables v d \<and> in_use v d' p c)) \<and>
         yields (pool_close pg p d) (Some ()) (\<lambda>d'. tables v d' = tables v d)) \<and>
      (\<forall>d p c. in_use v d p c \<longrightarrow>
         yields (pool_release pg p c d) (Some ()) (\<lambda>d'. tables v d' = tables v d \<and> pool_open v d' p) \<and>
         yields (tx_begin pg c d) (Some ()) (\<lambda>d'. tables v d' = tables v d \<and> in_tx v d' p c (Some (tables v d)))) \<and>
      (\<forall>d p c db. in_tx v d p c db \<longrightarrow>
         yields (tx_rollback pg c d) (Some ()) (\<lambda>d'. tables v d' = tables v d \<and> in_use v d' p c)) \<and>
      (\<forall>d p c db. in_tx v d p c (Some db) \<longrightarrow>
         yields (tx_commit pg c d) (Some ()) (\<lambda>d'. tables v d' = db \<and> in_use v d' p c)))"

text \<open>The statements of the backend, on integers and strings.\<close>

definition sql_values :: "pyval list \<Rightarrow> bool" where
  "sql_values vs = list_all (\<lambda>v. case v of PyInt _ \<Rightarrow> True | PyStr _ \<Rightarrow> True | _ \<Rightarrow> False) vs"

definition write_statements :: "string \<Rightarrow> sql set" where
  "write_statements t =
     {CreateTable t pg_layout, AddColumn t ''signer_id'' (TextDefault []), AddColumn t ''signature'' (TextDefault []),
      InsertInto t pg_names}"

definition executes :: "('d, 'p, 'c) asyncpg \<Rightarrow> ('d, 'p, 'c) pg_view \<Rightarrow> string \<Rightarrow> bool" where
  "executes pg v t =
     ((\<forall>st \<in> write_statements t. \<forall>d p c args. in_use v d p c \<longrightarrow> sql_values args \<longrightarrow>
         (case sql_write st args (tables v d) of
            None \<Rightarrow> yields (conn_execute pg c (render st) args d) None (\<lambda>d'. tables v d' = tables v d \<and> in_use v d' p c)
          | Some db \<Rightarrow> yields (conn_execute pg c (render st) args d) (Some ()) (\<lambda>d'. tables v d' = db \<and> in_use v d' p c))) \<and>
      (\<forall>st \<in> write_statements t. \<forall>d p c args db. in_tx v d p c (Some db) \<longrightarrow> list_all sql_values args \<longrightarrow>
         (case sql_write_all st args db of
            None \<Rightarrow> yields (conn_executemany pg c (render st) args d) None
              (\<lambda>d'. tables v d' = tables v d \<and> in_tx v d' p c None)
          | Some db' \<Rightarrow> yields (conn_executemany pg c (render st) args d) (Some ())
              (\<lambda>d'. tables v d' = tables v d \<and> in_tx v d' p c (Some db')))) \<and>
      (\<forall>d p c. in_use v d p c \<longrightarrow>
         yields (conn_fetch pg c (render (SelectAll t pg_names ''seq'')) d) (sql_read (SelectAll t pg_names ''seq'') (tables v d))
           (\<lambda>d'. tables v d' = tables v d \<and> in_use v d' p c) \<and>
         yields (conn_fetchrow pg c (render (SelectLast t pg_names ''seq'')) d)
           (map_option (\<lambda>rows. case rows of [] \<Rightarrow> None | row # _ \<Rightarrow> Some row)
              (sql_read (SelectLast t pg_names ''seq'') (tables v d)))
           (\<lambda>d'. tables v d' = tables v d \<and> in_use v d' p c)))"

definition asyncpg_ok :: "('d, 'p, 'c) asyncpg \<Rightarrow> ('d, 'p, 'c) pg_view \<Rightarrow> string \<Rightarrow> bool" where
  "asyncpg_ok pg v t = (connects pg v \<and> executes pg v t)"

section \<open>A server that keeps the promise\<close>

record demo_server =
  committed :: pg_db
  open_tx :: "pg_db option option"

definition demo_statement :: "string \<Rightarrow> string \<Rightarrow> sql option" where
  "demo_statement t q =
     find (\<lambda>st. render st = q)
       [CreateTable t pg_layout, AddColumn t ''signer_id'' (TextDefault []), AddColumn t ''signature'' (TextDefault []),
        InsertInto t pg_names]"

definition demo_refusal :: exn where
  "demo_refusal = BackendError ''refused''"

definition demo_write :: "(sql \<Rightarrow> pg_db option) \<Rightarrow> sql option \<Rightarrow> pg_db option" where
  "demo_write f st = (case st of None \<Rightarrow> None | Some st \<Rightarrow> f st)"

definition demo_pg :: "string \<Rightarrow> (demo_server, unit, unit) asyncpg" where
  "demo_pg t =
     \<lparr>installed = True, create_pool = (\<lambda>_ d. (Inr (), d\<lparr>open_tx := None\<rparr>)), pool_acquire = (\<lambda>_. returnS ()),
      pool_release = (\<lambda>_ _. returnS ()), pool_close = (\<lambda>_. returnS ()),
      conn_execute = (\<lambda>_ q args d.
        case demo_write (\<lambda>st. sql_write st args (committed d)) (demo_statement t q) of
          None \<Rightarrow> (Inl demo_refusal, d) | Some db \<Rightarrow> (Inr (), d\<lparr>committed := db\<rparr>)),
      conn_executemany = (\<lambda>_ q argss d.
        case open_tx d of
          Some (Some db) \<Rightarrow>
            (case demo_write (\<lambda>st. sql_write_all st argss db) (demo_statement t q) of
               None \<Rightarrow> (Inl demo_refusal, d\<lparr>open_tx := Some None\<rparr>) | Some db' \<Rightarrow> (Inr (), d\<lparr>open_tx := Some (Some db')\<rparr>))
        | _ \<Rightarrow> (Inl demo_refusal, d)),
      conn_fetch = (\<lambda>_ _ d.
        case sql_read (SelectAll t pg_names ''seq'') (committed d) of
          None \<Rightarrow> (Inl demo_refusal, d) | Some rws \<Rightarrow> (Inr rws, d)),
      conn_fetchrow = (\<lambda>_ _ d.
        case sql_read (SelectLast t pg_names ''seq'') (committed d) of
          None \<Rightarrow> (Inl demo_refusal, d)
        | Some rws \<Rightarrow> (Inr (case rws of [] \<Rightarrow> None | row # _ \<Rightarrow> Some row), d)),
      tx_begin = (\<lambda>_ d. (Inr (), d\<lparr>open_tx := Some (Some (committed d))\<rparr>)),
      tx_commit = (\<lambda>_ d. (Inr (), d\<lparr>committed := (case open_tx d of Some (Some db) \<Rightarrow> db | _ \<Rightarrow> committed d), open_tx := None\<rparr>)),
      tx_rollback = (\<lambda>_ d. (Inr (), d\<lparr>open_tx := None\<rparr>))\<rparr>"

definition demo_view :: "(demo_server, unit, unit) pg_view" where
  "demo_view =
     \<lparr>tables = committed, pool_open = (\<lambda>d _. open_tx d = None), in_use = (\<lambda>d _ _. open_tx d = None),
      in_tx = (\<lambda>d _ _ db. open_tx d = Some db)\<rparr>"

lemma render_distinct:
  "render (CreateTable t cs) \<noteq> render (AddColumn t' c ty)" "render (CreateTable t cs) \<noteq> render (InsertInto t' ns)"
  "render (AddColumn t' c ty) \<noteq> render (InsertInto t'' ns)"
  "render (AddColumn t ''signer_id'' ty) \<noteq> render (AddColumn t ''signature'' ty')"
  by (simp_all add: render_def LF_def)

lemma demo_statement_found: "st \<in> write_statements t \<Longrightarrow> demo_statement t (render st) = Some st"
  unfolding write_statements_def demo_statement_def insert_iff empty_iff
  using render_distinct render_distinct [symmetric] by (elim disjE) simp_all

theorem demo_pg_ok: "asyncpg_ok (demo_pg t) demo_view t"
  unfolding asyncpg_ok_def
proof
  show "connects (demo_pg t) demo_view" by (auto simp: connects_def demo_pg_def demo_view_def yields_def)
  show "executes (demo_pg t) demo_view t"
    unfolding executes_def
  proof (intro conjI ballI allI impI)
    fix st d p c args
    assume "st \<in> write_statements t"
    then show "case sql_write st args (tables demo_view d) of
        None \<Rightarrow> yields (conn_execute (demo_pg t) c (render st) args d) None
          (\<lambda>d'. tables demo_view d' = tables demo_view d \<and> in_use demo_view d' p c)
      | Some db \<Rightarrow> yields (conn_execute (demo_pg t) c (render st) args d) (Some ())
          (\<lambda>d'. tables demo_view d' = db \<and> in_use demo_view d' p c)" if "in_use demo_view d p c"
      using that demo_statement_found by (simp add: demo_pg_def demo_view_def yields_def demo_write_def split: option.split)
  next
    fix st d p c argss db
    assume "st \<in> write_statements t" and "in_tx demo_view d p c (Some db)"
    then show "case sql_write_all st argss db of
        None \<Rightarrow> yields (conn_executemany (demo_pg t) c (render st) argss d) None
          (\<lambda>d'. tables demo_view d' = tables demo_view d \<and> in_tx demo_view d' p c None)
      | Some db' \<Rightarrow> yields (conn_executemany (demo_pg t) c (render st) argss d) (Some ())
          (\<lambda>d'. tables demo_view d' = tables demo_view d \<and> in_tx demo_view d' p c (Some db'))"
      using demo_statement_found by (simp add: demo_pg_def demo_view_def yields_def demo_write_def split: option.split)
  qed (auto simp: demo_pg_def demo_view_def yields_def split: option.split)
qed

end
