(* ===== verification/Postgres_Storage.thy ===== *)
theory Postgres_Storage
  imports Postgres_Server
begin

text \<open>
  The PostgreSQL backend over a server that behaves as documented (\<open>asyncpg_ok\<close>) keeps the promises of \<open>storage\<close>
  (\<open>postgres_storage\<close>), so all that is proved of logs over a \<open>storage\<close> holds for it. \<open>yields\<close> carries what a call
  returns and leaves behind through the connection, the transaction and the pool.
\<close>

section \<open>Calls through a pool\<close>

lemma yields_bind:
  "yields (m d) (Some x) P \<Longrightarrow> (\<And>d1. P d1 \<Longrightarrow> yields (f x d1) y Q) \<Longrightarrow> yields (bindS m f d) y Q"
  by (cases "m d") (auto simp: yields_def bindS_def)

lemma yields_bind_None: "yields (m d) None P \<Longrightarrow> yields (bindS m f d) None P"
  by (cases "m d") (auto simp: yields_def bindS_def)

lemma yields_mono: "yields out x P \<Longrightarrow> (\<And>d. P d \<Longrightarrow> Q d) \<Longrightarrow> yields out x Q"
  by (auto simp: yields_def)

lemma yields_Some: "yields out (Some x) P \<Longrightarrow> \<exists>d. out = (Inr x, d) \<and> P d"
  by (cases out) (auto simp: yields_def)

lemma yields_finally:
  assumes "yields (res, d) x P" and "\<And>d. P d \<Longrightarrow> yields (last_act d) (Some ()) Q"
  shows "yields (finally_do last_act res d) x Q"
  using assms(1) assms(2) [of d] by (auto simp: yields_def finally_do_def split: prod.splits sum.splits option.splits)

lemma with_connection_run:
  assumes pg: "connects pg v" and "pool_open v d p"
    and "\<And>c d1. in_use v d1 p c \<Longrightarrow> tables v d1 = tables v d \<Longrightarrow>
      yields (body c d1) x (\<lambda>d2. tables v d2 = db \<and> in_use v d2 p c)"
  shows "yields (with_connection pg p body d) x (\<lambda>d2. tables v d2 = db \<and> pool_open v d2 p)"
proof -
  from pg assms(2) obtain c where c: "yields (pool_acquire pg p d) (Some c) (\<lambda>d'. tables v d' = tables v d \<and> in_use v d' p c)"
    unfolding connects_def by blast
  show ?thesis
    unfolding with_connection_def
  proof (rule yields_bind, rule c)
    fix d1
    assume "tables v d1 = tables v d \<and> in_use v d1 p c"
    then have "yields (body c d1) x (\<lambda>d2. tables v d2 = db \<and> in_use v d2 p c)" using assms(3) by blast
    moreover have "yields (pool_release pg p c d2) (Some ()) (\<lambda>d3. tables v d3 = db \<and> pool_open v d3 p)"
      if "tables v d2 = db \<and> in_use v d2 p c" for d2
      using pg that unfolding connects_def by blast
    ultimately show "yields (case body c d1 of (res, d2) \<Rightarrow> finally_do (pool_release pg p c) res d2) x
        (\<lambda>d2. tables v d2 = db \<and> pool_open v d2 p)"
      by (cases "body c d1") (simp add: yields_finally)
  qed
qed

lemma with_transaction_run:
  assumes pg: "connects pg v" and "in_use v d p c"
    and "\<And>d1. in_tx v d1 p c (Some (tables v d)) \<Longrightarrow> tables v d1 = tables v d \<Longrightarrow>
      yields (body d1) x (\<lambda>d2. tables v d2 = tables v d \<and> in_tx v d2 p c (case x of None \<Rightarrow> None | Some _ \<Rightarrow> Some db))"
  shows "yields (with_transaction pg c body d) x
    (\<lambda>d2. tables v d2 = (case x of None \<Rightarrow> tables v d | Some _ \<Rightarrow> db) \<and> in_use v d2 p c)"
  unfolding with_transaction_def
proof (rule yields_bind)
  show "yields (tx_begin pg c d) (Some ()) (\<lambda>d'. tables v d' = tables v d \<and> in_tx v d' p c (Some (tables v d)))"
    using pg assms(2) unfolding connects_def by blast
  fix d1
  assume "tables v d1 = tables v d \<and> in_tx v d1 p c (Some (tables v d))"
  then have run: "yields (body d1) x
      (\<lambda>d2. tables v d2 = tables v d \<and> in_tx v d2 p c (case x of None \<Rightarrow> None | Some _ \<Rightarrow> Some db))"
    using assms(3) by blast
  obtain res d2 where body: "body d1 = (res, d2)" by (cases "body d1")
  have rollback: "yields (tx_rollback pg c d') (Some ()) (\<lambda>d3. tables v d3 = tables v d' \<and> in_use v d3 p c)"
    if "in_tx v d' p c db'" for d' db'
    using pg that unfolding connects_def by blast
  have commit: "yields (tx_commit pg c d') (Some ()) (\<lambda>d3. tables v d3 = db' \<and> in_use v d3 p c)"
    if "in_tx v d' p c (Some db')" for d' db'
    using pg that unfolding connects_def by blast
  show "yields (case body d1 of (Inl e, d1) \<Rightarrow> finally_do (tx_rollback pg c) (Inl e) d1
      | (Inr y, d1) \<Rightarrow> finally_do (tx_commit pg c) (Inr y) d1) x
      (\<lambda>d2. tables v d2 = (case x of None \<Rightarrow> tables v d | Some _ \<Rightarrow> db) \<and> in_use v d2 p c)"
  proof (cases x)
    case None
    with run body obtain e where "res = Inl e" "tables v d2 = tables v d" "in_tx v d2 p c None"
      by (auto simp: yields_def)
    then show ?thesis
      using run body None rollback [of d2 None] by (auto simp: yields_def finally_do_def split: prod.splits sum.splits)
  next
    case (Some y)
    with run body have "res = Inr y" "in_tx v d2 p c (Some db)" by (auto simp: yields_def)
    then show ?thesis
      using body Some commit [of d2 db] by (auto simp: yields_def finally_do_def split: prod.splits sum.splits)
  qed
qed

section \<open>Records and rows\<close>

definition postgres_ok :: "audit_record \<Rightarrow> bool" where
  "postgres_ok r =
     (sqlite_ok r \<and> texts_ok (\<lambda>_. True) (PyDict (metadata r)) \<and>
      list_all (\<lambda>f. no_zero (f r)) [timestamp, actor, action, subject, prev_hash, hash, key_id, signer_id, signature])"

definition pg_cols :: "(string \<times> pg_type) list" where
  "pg_cols = map (\<lambda>(c, n, ty). (c, ty)) pg_layout"

definition pg_row_of :: "audit_record \<Rightarrow> string \<Rightarrow> pyval" where
  "pg_row_of r = new_row pg_cols pg_names (case postgres_row_values r of Inl e \<Rightarrow> [] | Inr vs \<Rightarrow> vs)"

lemmas pg_layout_simps = pg_cols_def pg_names_def pg_layout_def

lemma postgres_row:
  assumes "postgres_ok r"
  obtains vs where "postgres_row_values r = Inr vs" "sql_values vs" "length vs = length pg_names"
    "\<forall>(c, ty) \<in> set pg_cols. admits ty (pg_row_of r c)" "pg_row_of r ''seq'' = PyInt (seq r)"
    "from_postgres_row (map (\<lambda>c. (c, pg_row_of r c)) pg_names) = Inr (sorted_metadata r)"
proof -
  have ok: "sqlite_ok r" using assms by (simp add: postgres_ok_def)
  obtain m where m: "dumps compact (PyDict (metadata r)) = Inr m"
    using ok dumps_Inr [of compact "PyDict (metadata r)"] by (auto simp: sqlite_ok_def)
  then have m_text: "dump_value compact (PyDict (metadata r)) 0 = Some m" by (auto simp: dumps_def split: option.splits)
  have clean: "\<not> has_surrogate m" using dump_clean [OF m_text] ok by (simp add: sqlite_ok_def)
  have zero: "no_zero m" using dump_no_zero [OF m_text] assms by (simp add: postgres_ok_def)
  have loads: "loads m = Inr (canon (PyDict (metadata r)))"
    using loads_dumps [OF _ _ m] ok by (simp add: sqlite_ok_def wf_record_def)
  define vs where "vs = [PyInt (seq r), PyStr (timestamp r), PyStr (actor r), PyStr (action r), PyStr (subject r),
    PyStr m, PyStr (prev_hash r), PyStr (hash r), PyStr (key_id r), PyStr (signer_id r), PyStr (signature r)]"
  have vs: "postgres_row_values r = Inr vs" by (simp add: postgres_row_values_def m vs_def)
  then have row: "pg_row_of r = new_row pg_cols pg_names vs" by (simp add: pg_row_of_def)
  have cells: "pg_row_of r ''seq'' = PyInt (seq r)" "pg_row_of r ''ts'' = PyStr (timestamp r)"
    "pg_row_of r ''actor'' = PyStr (actor r)" "pg_row_of r ''action'' = PyStr (action r)"
    "pg_row_of r ''subject'' = PyStr (subject r)" "pg_row_of r ''meta'' = PyStr m"
    "pg_row_of r ''prev_hash'' = PyStr (prev_hash r)" "pg_row_of r ''hash'' = PyStr (hash r)"
    "pg_row_of r ''key_id'' = PyStr (key_id r)" "pg_row_of r ''signer_id'' = PyStr (signer_id r)"
    "pg_row_of r ''signature'' = PyStr (signature r)"
    by (simp_all add: row new_row_def vs_def pg_names_def pg_layout_def)
  have "\<forall>(c, ty) \<in> set pg_cols. admits ty (pg_row_of r c)"
    using assms clean zero by (simp add: pg_cols_def pg_layout_def cells postgres_ok_def sqlite_ok_def no_zero_def)
  moreover have "from_postgres_row (map (\<lambda>c. (c, pg_row_of r c)) pg_names) = Inr (sorted_metadata r)"
    using loads by (simp add: from_postgres_row_def row_item_def dict_item_def pg_names_def pg_layout_def cells
        loads_value_def canon_dict from_stored_members sorted_metadata_def)
  ultimately show ?thesis
    by (intro that [OF vs]) (simp_all add: vs_def sql_values_def pg_names_def pg_layout_def cells)
qed

section \<open>Writes and reads\<close>

definition connected :: "('d, 'p, 'c) pg_view \<Rightarrow> ('d, 'p) postgres \<Rightarrow> 'p \<Rightarrow> bool" where
  "connected v s p = (pg_pool s = Some p \<and> pool_open v (pg_server s) p)"

lemma on_pool_run:
  assumes pg: "connects pg v" and s: "connected v s p"
    and body: "\<And>c d. in_use v d p c \<Longrightarrow> tables v d = tables v (pg_server s) \<Longrightarrow>
      yields (body c d) x (\<lambda>d'. tables v d' = db \<and> in_use v d' p c)"
  shows "yields (on_pool (\<lambda>p. with_connection pg p body) s) x (\<lambda>s'. connected v s' p \<and> tables v (pg_server s') = db)"
proof -
  have "yields (with_connection pg p body (pg_server s)) x (\<lambda>d'. tables v d' = db \<and> pool_open v d' p)"
    using with_connection_run [OF pg _ body] s by (simp add: connected_def)
  with s show ?thesis
    by (cases "with_connection pg p body (pg_server s)") (auto simp: on_pool_def connected_def yields_def split: option.splits)
qed

text \<open>The tables after an insertion, if it works.\<close>

definition inserted :: "string \<Rightarrow> audit_record \<Rightarrow> pg_db \<Rightarrow> pg_db option" where
  "inserted t r db =
     (case postgres_row_values r of Inl e \<Rightarrow> None | Inr vs \<Rightarrow> sql_write (InsertInto t pg_names) vs db)"

definition inserted_all :: "string \<Rightarrow> audit_record list \<Rightarrow> pg_db \<Rightarrow> pg_db option" where
  "inserted_all t rs db =
     (case mapE postgres_row_values rs of Inl e \<Rightarrow> None | Inr vss \<Rightarrow> sql_write_all (InsertInto t pg_names) vss db)"

definition kept_or :: "pg_db \<Rightarrow> pg_db option \<Rightarrow> pg_db" where
  "kept_or db x = (case x of None \<Rightarrow> db | Some db' \<Rightarrow> db')"

lemma kept_or_simps [simp]: "kept_or db None = db" "kept_or db (Some db') = db'"
  by (simp_all add: kept_or_def)

lemma row_values_sql: "postgres_row_values r = Inr vs \<Longrightarrow> sql_values vs"
  by (auto simp: postgres_row_values_def result_simps sql_values_def)

lemma insert_statement: "InsertInto t pg_names \<in> write_statements t"
  by (simp add: write_statements_def)

lemma execute_run:
  assumes "asyncpg_ok pg v t" and "st \<in> write_statements t" and "in_use v d p c" and "sql_values args"
  shows "yields (conn_execute pg c (render st) args d) (map_option (\<lambda>_. ()) (sql_write st args (tables v d)))
    (\<lambda>d'. tables v d' = kept_or (tables v d) (sql_write st args (tables v d)) \<and> in_use v d' p c)"
proof -
  have "case sql_write st args (tables v d) of
      None \<Rightarrow> yields (conn_execute pg c (render st) args d) None (\<lambda>d'. tables v d' = tables v d \<and> in_use v d' p c)
    | Some db \<Rightarrow> yields (conn_execute pg c (render st) args d) (Some ()) (\<lambda>d'. tables v d' = db \<and> in_use v d' p c)"
    using assms unfolding asyncpg_ok_def executes_def by blast
  then show ?thesis by (auto simp: kept_or_def split: option.splits)
qed

lemma executemany_run:
  assumes "asyncpg_ok pg v t" and "st \<in> write_statements t" and "in_tx v d p c (Some db)" and "list_all sql_values argss"
  shows "yields (conn_executemany pg c (render st) argss d) (map_option (\<lambda>_. ()) (sql_write_all st argss db))
    (\<lambda>d'. tables v d' = tables v d \<and> in_tx v d' p c (sql_write_all st argss db))"
proof -
  have "case sql_write_all st argss db of
      None \<Rightarrow> yields (conn_executemany pg c (render st) argss d) None (\<lambda>d'. tables v d' = tables v d \<and> in_tx v d' p c None)
    | Some db' \<Rightarrow> yields (conn_executemany pg c (render st) argss d) (Some ())
        (\<lambda>d'. tables v d' = tables v d \<and> in_tx v d' p c (Some db'))"
    using assms unfolding asyncpg_ok_def executes_def by blast
  then show ?thesis by (auto split: option.splits)
qed

lemma postgres_append_run:
  assumes ok: "asyncpg_ok pg v t" and s: "connected v s p"
  shows "yields (postgres_append pg t r s) (map_option (\<lambda>_. ()) (inserted t r (tables v (pg_server s))))
    (\<lambda>s'. connected v s' p \<and> tables v (pg_server s') =
       kept_or (tables v (pg_server s)) (inserted t r (tables v (pg_server s))))"
proof -
  let ?d = "pg_server s" and ?x = "inserted t r (tables v (pg_server s))"
  have pg: "connects pg v" using ok by (simp add: asyncpg_ok_def)
  have "yields (bindS (liftS (postgres_row_values r)) (conn_execute pg c (INSERT_SQL t)) d1) (map_option (\<lambda>_. ()) ?x)
      (\<lambda>d2. tables v d2 = kept_or (tables v ?d) ?x \<and> in_use v d2 p c)"
    if "in_use v d1 p c" "tables v d1 = tables v ?d" for c d1
  proof (cases "postgres_row_values r")
    case (Inl e)
    with that show ?thesis by (simp add: bindS_def inserted_def yields_def kept_or_def)
  next
    case (Inr vs)
    with execute_run [OF ok insert_statement that(1) row_values_sql [OF Inr]] that(2) show ?thesis
      by (simp add: bindS_def inserted_def statement_texts)
  qed
  then show ?thesis unfolding postgres_append_def by (rule on_pool_run [OF pg s])
qed

lemma postgres_append_many_run:
  assumes ok: "asyncpg_ok pg v t" and s: "connected v s p"
  shows "yields (postgres_append_many pg t rs s) (map_option (\<lambda>_. ()) (inserted_all t rs (tables v (pg_server s))))
    (\<lambda>s'. connected v s' p \<and> tables v (pg_server s') =
       kept_or (tables v (pg_server s)) (inserted_all t rs (tables v (pg_server s))))"
proof (cases "mapE postgres_row_values rs")
  case (Inl e)
  with s show ?thesis by (simp add: postgres_append_many_def bindS_def inserted_all_def yields_def kept_or_def)
next
  case (Inr vss)
  let ?st = "InsertInto t pg_names" and ?db = "tables v (pg_server s)"
  let ?x = "sql_write_all ?st vss ?db"
  have pg: "connects pg v" using ok by (simp add: asyncpg_ok_def)
  have "sql_values vs" if "vs \<in> set vss" for vs
  proof -
    have "Inr vs \<in> set (map postgres_row_values rs)" using Inr that by (simp add: mapE_Inr_iff)
    then obtain r where "postgres_row_values r = Inr vs" by (metis imageE list.set_map)
    then show ?thesis by (rule row_values_sql)
  qed
  then have vss: "list_all sql_values vss" by (simp add: list_all_iff)
  have "yields (with_transaction pg c (conn_executemany pg c (INSERT_SQL t) vss) d) (map_option (\<lambda>_. ()) ?x)
      (\<lambda>d'. tables v d' = kept_or ?db ?x \<and> in_use v d' p c)"
    if d: "in_use v d p c" "tables v d = ?db" for c d
  proof -
    have "yields (conn_executemany pg c (INSERT_SQL t) vss d1) (map_option (\<lambda>_. ()) ?x)
        (\<lambda>d2. tables v d2 = tables v d \<and> in_tx v d2 p c (case map_option (\<lambda>_. ()) ?x of None \<Rightarrow> None | Some _ \<Rightarrow> Some (kept_or ?db ?x)))"
      if "in_tx v d1 p c (Some (tables v d))" "tables v d1 = tables v d" for d1
      using executemany_run [OF ok insert_statement that(1) vss] that(2) d(2)
      by (cases ?x) (simp_all add: statement_texts)
    from with_transaction_run [OF pg d(1) this] show ?thesis
      using d(2) by (cases ?x) simp_all
  qed
  then have "yields (on_pool (\<lambda>p. with_connection pg p (\<lambda>c. with_transaction pg c (conn_executemany pg c (INSERT_SQL t) vss))) s)
      (map_option (\<lambda>_. ()) ?x) (\<lambda>s'. connected v s' p \<and> tables v (pg_server s') = kept_or ?db ?x)"
    by (rule on_pool_run [OF pg s])
  then show ?thesis by (simp add: postgres_append_many_def bindS_def Inr inserted_all_def)
qed

lemma load_run:
  assumes ok: "asyncpg_ok pg v t" and s: "connected v s p"
    and rows: "sql_read (SelectAll t pg_names ''seq'') (tables v (pg_server s)) = Some rws"
    and recs: "mapE from_postgres_row rws = Inr rs"
  shows "yields (postgres_load pg t s) (Some rs) (\<lambda>s'. connected v s' p \<and> tables v (pg_server s') = tables v (pg_server s))"
    and "sql_read (SelectLast t pg_names ''seq'') (tables v (pg_server s)) = Some last_rws \<Longrightarrow> length last_rws \<le> 1 \<Longrightarrow>
      mapE from_postgres_row last_rws = Inr last_rs \<Longrightarrow>
      yields (postgres_load_last pg t s) (Some (last_record last_rs))
        (\<lambda>s'. connected v s' p \<and> tables v (pg_server s') = tables v (pg_server s))"
proof -
  let ?same = "\<lambda>s'. connected v s' p \<and> tables v (pg_server s') = tables v (pg_server s)"
  have pg: "connects pg v" using ok by (simp add: asyncpg_ok_def)
  have read: "yields (conn_fetch pg c (SELECT_SQL t) d) (sql_read (SelectAll t pg_names ''seq'') (tables v d))
        (\<lambda>d'. tables v d' = tables v d \<and> in_use v d' p c)"
      "yields (conn_fetchrow pg c (SELECT_SQL t @ '' DESC LIMIT 1'') d)
        (map_option (\<lambda>rows. case rows of [] \<Rightarrow> None | row # _ \<Rightarrow> Some row)
           (sql_read (SelectLast t pg_names ''seq'') (tables v d)))
        (\<lambda>d'. tables v d' = tables v d \<and> in_use v d' p c)" if "in_use v d p c" for c d
    unfolding statement_texts(5) unfolding statement_texts(4) using ok that unfolding asyncpg_ok_def executes_def by blast+
  have "yields (on_pool (\<lambda>p. with_connection pg p (\<lambda>c. conn_fetch pg c (SELECT_SQL t))) s) (Some rws) ?same"
    by (rule on_pool_run [OF pg s]) (use read(1) rows in fastforce)
  then show "yields (postgres_load pg t s) (Some rs) ?same"
    unfolding postgres_load_def by (rule yields_bind) (simp add: recs yields_def)
  assume last: "sql_read (SelectLast t pg_names ''seq'') (tables v (pg_server s)) = Some last_rws"
    and len: "length last_rws \<le> 1" and last_recs: "mapE from_postgres_row last_rws = Inr last_rs"
  have "yields (on_pool (\<lambda>p. with_connection pg p (\<lambda>c. conn_fetchrow pg c (SELECT_SQL t @ '' DESC LIMIT 1''))) s)
      (Some (case last_rws of [] \<Rightarrow> None | row # _ \<Rightarrow> Some row)) ?same"
    by (rule on_pool_run [OF pg s]) (use read(2) last in fastforce)
  then show "yields (postgres_load_last pg t s) (Some (last_record last_rs)) ?same"
    unfolding postgres_load_last_def
  proof (rule yields_bind)
    fix d1
    assume same: "?same d1"
    show "yields ((case case last_rws of [] \<Rightarrow> None | row # _ \<Rightarrow> Some row of None \<Rightarrow> returnS None
        | Some row \<Rightarrow> liftS (bindE (from_postgres_row row) (\<lambda>r. Inr (Some r)))) d1) (Some (last_record last_rs)) ?same"
      using len last_recs same
      by (cases last_rws) (auto simp: last_record_def yields_def result_simps)
  qed
qed

section \<open>The promises of a backend\<close>

definition pg_table_of :: "audit_record list \<Rightarrow> pg_table" where
  "pg_table_of rs = \<lparr>pg_columns = pg_cols, pg_rows = map pg_row_of rs\<rparr>"

definition pg_storable :: "audit_record list \<Rightarrow> audit_record \<Rightarrow> bool" where
  "pg_storable rs r = (postgres_ok r \<and> (\<forall>r' \<in> set rs. seq r' < seq r))"

definition pg_holds :: "('d, 'p, 'c) pg_view \<Rightarrow> string \<Rightarrow> ('d, 'p) postgres \<Rightarrow> audit_record list \<Rightarrow> bool" where
  "pg_holds v t s rs =
     ((\<exists>p. connected v s p) \<and> tables v (pg_server s) t = Some (pg_table_of rs) \<and> list_all postgres_ok rs \<and> numbered rs)"

definition pg_usable :: "('d, 'p, 'c) pg_view \<Rightarrow> string \<Rightarrow> ('d, 'p) postgres \<Rightarrow> bool" where
  "pg_usable v t s = (\<exists>rs. pg_holds v t s rs)"

text \<open>The records that the rows of the table are.\<close>

definition pg_stored :: "('d, 'p, 'c) pg_view \<Rightarrow> string \<Rightarrow> ('d, 'p) postgres \<Rightarrow> audit_record list" where
  "pg_stored v t s =
     (case tables v (pg_server s) t of
        None \<Rightarrow> []
      | Some tab \<Rightarrow>
          (case mapE from_postgres_row (ordered_rows tab pg_names ''seq'') of Inl e \<Rightarrow> [] | Inr rs \<Rightarrow> rs))"

lemma inserted_ok:
  assumes "pg_storable rs r" and "list_all postgres_ok rs" and "db t = Some (pg_table_of rs)"
  shows "inserted t r db = Some (db(t \<mapsto> pg_table_of (rs @ [r])))"
proof -
  have r: "postgres_ok r" "\<forall>r' \<in> set rs. seq r' < seq r" using assms(1) by (simp_all add: pg_storable_def)
  from postgres_row [OF r(1)] obtain vs where vs: "postgres_row_values r = Inr vs" "length vs = length pg_names"
    "\<forall>(c, ty) \<in> set pg_cols. admits ty (pg_row_of r c)" "pg_row_of r ''seq'' = PyInt (seq r)" by metis
  have row: "new_row pg_cols pg_names vs = pg_row_of r" by (simp add: pg_row_of_def vs(1))
  have "pg_row_of r' ''seq'' = PyInt (seq r')" if "r' \<in> set rs" for r'
    using postgres_row [of r'] assms(2) that by (metis list_all_iff)
  then have "PyInt (seq r) \<notin> set (map (\<lambda>r'. r' ''seq'') (map pg_row_of rs))" using r(2) by fastforce
  then have "\<forall>(c, ty) \<in> set pg_cols. ty = BigintKey \<longrightarrow> pg_row_of r c \<notin> set (map (\<lambda>r'. r' c) (map pg_row_of rs))"
    using vs(4) by (simp add: pg_cols_def pg_layout_def)
  with vs(3) have "row_fits (pg_table_of rs) (pg_row_of r)"
    unfolding row_fits_def pg_table_of_def list_all_iff pg_table.simps by blast
  moreover have "set pg_names \<subseteq> set (map fst pg_cols)" by (simp add: pg_names_def pg_cols_def pg_layout_def)
  ultimately have "insert_into (pg_table_of rs) pg_names vs = Some (pg_table_of (rs @ [r]))"
    using vs(2) row by (simp add: insert_into_def pg_table_of_def)
  then show ?thesis by (simp add: inserted_def vs(1) sql_write_def assms(3))
qed

lemma inserted_all_ok:
  assumes "list_all postgres_ok rs" and "numbered rs" and "db t = Some (pg_table_of rs)"
    and "\<forall>i < length new. pg_storable (rs @ take i new) (new ! i)"
  shows "inserted_all t new db = Some (db(t \<mapsto> pg_table_of (rs @ new))) \<and> list_all postgres_ok (rs @ new) \<and> numbered (rs @ new)"
  using assms
proof (induction new arbitrary: rs db)
  case (Cons r new)
  from Cons.prems(4) have r: "pg_storable rs r" by fastforce
  from inserted_ok [where t = t and db = db, OF r Cons.prems(1,3)] obtain vs where vs: "postgres_row_values r = Inr vs"
    "sql_write (InsertInto t pg_names) vs db = Some (db(t \<mapsto> pg_table_of (rs @ [r])))"
    by (auto simp: inserted_def split: sum.splits)
  have "\<forall>i < length new. pg_storable ((rs @ [r]) @ take i new) (new ! i)" using Cons.prems(4) by fastforce
  moreover have "list_all postgres_ok (rs @ [r])" "numbered (rs @ [r])"
    using r Cons.prems by (simp_all add: pg_storable_def numbered_snoc)
  ultimately have "inserted_all t new (db(t \<mapsto> pg_table_of (rs @ [r]))) =
      Some (db(t \<mapsto> pg_table_of (rs @ [r]), t \<mapsto> pg_table_of ((rs @ [r]) @ new))) \<and>
      list_all postgres_ok ((rs @ [r]) @ new) \<and> numbered ((rs @ [r]) @ new)"
    by (intro Cons.IH) simp_all
  with vs show ?case by (auto simp: inserted_all_def split: sum.splits)
qed (simp add: inserted_all_def fun_upd_idem)

lemma ordered_table:
  assumes "list_all postgres_ok rs" and "numbered rs"
  shows "ordered_rows (pg_table_of rs) pg_names ''seq'' = map (\<lambda>r. map (\<lambda>c. (c, pg_row_of r c)) pg_names) rs"
    and "mapE from_postgres_row (map (\<lambda>r. map (\<lambda>c. (c, pg_row_of r c)) pg_names) rs) = Inr (map sorted_metadata rs)"
proof -
  have row: "pg_row_of r ''seq'' = PyInt (seq r)"
    "from_postgres_row (map (\<lambda>c. (c, pg_row_of r c)) pg_names) = Inr (sorted_metadata r)" if "r \<in> set rs" for r
    using postgres_row [of r] assms(1) that by (metis list_all_iff)+
  have "map (\<lambda>row. sort_value (row ''seq'')) (map pg_row_of rs) = map seq rs" using row(1) by (simp add: sort_value_def)
  moreover have "sorted_wrt (<) (map seq rs)" using assms(2) by (simp add: numbered_def sorted_wrt_map)
  ultimately have "sort_key (\<lambda>row. sort_value (row ''seq'')) (map pg_row_of rs) = map pg_row_of rs"
    using strict_sorted_imp_sorted by (metis sort_key_id_if_sorted)
  then show "ordered_rows (pg_table_of rs) pg_names ''seq'' = map (\<lambda>r. map (\<lambda>c. (c, pg_row_of r c)) pg_names) rs"
    by (simp add: ordered_rows_def pg_table_of_def comp_def)
  show "mapE from_postgres_row (map (\<lambda>r. map (\<lambda>c. (c, pg_row_of r c)) pg_names) rs) = Inr (map sorted_metadata rs)"
    using row(2) by (simp add: mapE_Inr_iff comp_def)
qed

lemma pg_stored_holds: "pg_holds v t s rs \<Longrightarrow> pg_stored v t s = map sorted_metadata rs"
  using ordered_table [of rs] by (simp add: pg_holds_def pg_stored_def)

section \<open>Opening and closing\<close>

definition upgraded :: "pg_table option \<Rightarrow> pg_table" where
  "upgraded x =
     add_pg_column (add_pg_column (case x of None \<Rightarrow> \<lparr>pg_columns = pg_cols, pg_rows = []\<rparr> | Some tab \<Rightarrow> tab)
       ''signer_id'' (TextDefault [])) ''signature'' (TextDefault [])"

lemma upgraded_table: "upgraded None = pg_table_of []" "upgraded (Some (pg_table_of rs)) = pg_table_of rs"
  by (simp_all add: upgraded_def add_pg_column_def pg_table_of_def pg_cols_def pg_layout_def)

lemma statement_run:
  assumes "asyncpg_ok pg v t" and "st \<in> write_statements t" and "in_use v d p c"
    and "sql_write st [] (tables v d) = Some db"
  shows "yields (conn_execute pg c (render st) [] d) (Some ()) (\<lambda>d'. tables v d' = db \<and> in_use v d' p c)"
  using execute_run [OF assms(1-3), of "[]"] assms(4) by (simp add: sql_values_def)

lemma create_table_run:
  assumes ok: "asyncpg_ok pg v t" and d: "in_use v d p c"
  shows "yields (create_table pg t c d) (Some ())
    (\<lambda>d'. tables v d' = (tables v d)(t \<mapsto> upgraded (tables v d t)) \<and> in_use v d' p c)"
  unfolding create_table_def statement_texts
proof (intro yields_bind)
  let ?tab = "case tables v d t of None \<Rightarrow> \<lparr>pg_columns = pg_cols, pg_rows = []\<rparr> | Some tab \<Rightarrow> tab"
  let ?tab' = "add_pg_column ?tab ''signer_id'' (TextDefault [])"
  have "sql_write (CreateTable t pg_layout) [] (tables v d) = Some ((tables v d)(t \<mapsto> ?tab))"
    by (cases "tables v d t") (simp_all add: sql_write_def pg_cols_def fun_upd_idem)
  then show "yields (conn_execute pg c (render (CreateTable t pg_layout)) [] d) (Some ())
      (\<lambda>d'. tables v d' = (tables v d)(t \<mapsto> ?tab) \<and> in_use v d' p c)"
    by (intro statement_run [OF ok _ d]) (simp add: write_statements_def)
  fix d1
  assume 1: "tables v d1 = (tables v d)(t \<mapsto> ?tab) \<and> in_use v d1 p c"
  then show "yields (conn_execute pg c (render (AddColumn t ''signer_id'' (TextDefault []))) [] d1) (Some ())
      (\<lambda>d'. tables v d' = (tables v d)(t \<mapsto> ?tab') \<and> in_use v d' p c)"
    by (intro statement_run [OF ok]) (simp_all add: write_statements_def sql_write_def)
  fix d2
  assume 2: "tables v d2 = (tables v d)(t \<mapsto> ?tab') \<and> in_use v d2 p c"
  then show "yields (conn_execute pg c (render (AddColumn t ''signature'' (TextDefault []))) [] d2) (Some ())
      (\<lambda>d'. tables v d' = (tables v d)(t \<mapsto> upgraded (tables v d t)) \<and> in_use v d' p c)"
    by (intro statement_run [OF ok]) (simp_all add: write_statements_def sql_write_def upgraded_def)
qed

lemma init_run:
  assumes ok: "asyncpg_ok pg v t" and s: "pg_pool s = None \<or> (\<exists>p. connected v s p)"
  shows "yields (postgres_init pg dsn t s) (Some ()) (\<lambda>s'. (\<exists>p. connected v s' p) \<and>
    tables v (pg_server s') = (tables v (pg_server s))(t \<mapsto> upgraded (tables v (pg_server s) t)))"
proof -
  let ?db = "tables v (pg_server s)"
  have pg: "connects pg v" using ok by (simp add: asyncpg_ok_def)
  then have inst: "require_asyncpg pg = Inr ()" by (simp add: connects_def require_asyncpg_def)
  have "yields (make_pool pg dsn s) (Some ()) (\<lambda>s'. (\<exists>p. connected v s' p) \<and> tables v (pg_server s') = ?db)"
  proof (cases "pg_pool s")
    case None
    from pg obtain p where "yields (create_pool pg dsn (pg_server s)) (Some p) (\<lambda>d'. tables v d' = ?db \<and> pool_open v d' p)"
      unfolding connects_def by blast
    with None show ?thesis
      by (cases "create_pool pg dsn (pg_server s)") (auto simp: make_pool_def yields_def connected_def)
  qed (use s in \<open>auto simp: make_pool_def yields_def\<close>)
  moreover have "yields (on_pool (\<lambda>p. with_connection pg p (create_table pg t)) s1) (Some ())
      (\<lambda>s'. (\<exists>p. connected v s' p) \<and> tables v (pg_server s') = ?db(t \<mapsto> upgraded (?db t)))"
    if "(\<exists>p. connected v s1 p) \<and> tables v (pg_server s1) = ?db" for s1
  proof -
    from that obtain p where p: "connected v s1 p" by blast
    have body: "yields (create_table pg t c d) (Some ()) (\<lambda>d'. tables v d' = ?db(t \<mapsto> upgraded (?db t)) \<and> in_use v d' p c)"
      if d: "in_use v d p c" "tables v d = tables v (pg_server s1)" for c d
      using create_table_run [OF ok d(1)] d(2) \<open>_ \<and> tables v (pg_server s1) = ?db\<close> by simp
    have "yields (on_pool (\<lambda>p. with_connection pg p (create_table pg t)) s1) (Some ())
        (\<lambda>s'. connected v s' p \<and> tables v (pg_server s') = ?db(t \<mapsto> upgraded (?db t)))"
      by (rule on_pool_run [OF pg p]) (rule body)
    then show ?thesis by (rule yields_mono) auto
  qed
  ultimately show ?thesis
    by (simp add: postgres_init_def inst) (rule yields_bind)
qed

lemma close_run:
  assumes ok: "asyncpg_ok pg v t" and s: "connected v s p"
  shows "yields (postgres_close pg s) (Some ())
    (\<lambda>s'. pg_pool s' = None \<and> tables v (pg_server s') = tables v (pg_server s))"
proof -
  have "connects pg v" using ok by (simp add: asyncpg_ok_def)
  then have "yields (pool_close pg p (pg_server s)) (Some ()) (\<lambda>d'. tables v d' = tables v (pg_server s))"
    using s unfolding connects_def connected_def by blast
  with s show ?thesis
    by (cases "pool_close pg p (pg_server s)") (auto simp: postgres_close_def yields_def connected_def)
qed

section \<open>The contract\<close>

lemma storable_norm_pg: "pg_storable (map sorted_metadata rs @ map sorted_metadata new) r = pg_storable (rs @ new) r"
  by (simp add: pg_storable_def ball_Un)

lemma pg_holds_grown:
  assumes "pg_holds v t s rs" and "connected v s' p" and "tables v (pg_server s') = db(t \<mapsto> pg_table_of rs')"
    and "list_all postgres_ok rs'" and "numbered rs'"
  shows "pg_usable v t s'" and "pg_stored v t s' = map sorted_metadata rs'"
proof -
  have "pg_holds v t s' rs'" using assms by (auto simp: pg_holds_def)
  then show "pg_usable v t s'" "pg_stored v t s' = map sorted_metadata rs'"
    using pg_stored_holds by (auto simp: pg_usable_def)
qed

lemma postgres_storage:
  assumes ok: "asyncpg_ok pg v t"
  shows "storage (postgres_ops pg dsn t) (pg_usable v t) (pg_stored v t) pg_storable sorted_metadata"
proof
  fix r :: audit_record and rs :: "audit_record list" and s
  show "pg_storable rs r \<Longrightarrow> same_record r (sorted_metadata r) \<and> (wf_record r \<longrightarrow> wf_record (sorted_metadata r))"
    using sqlite_norm by (simp add: pg_storable_def postgres_ok_def)
  assume "pg_usable v t s"
  then obtain old where holds: "pg_holds v t s old" by (auto simp: pg_usable_def)
  then obtain p where s: "connected v s p" "tables v (pg_server s) t = Some (pg_table_of old)" "list_all postgres_ok old"
    "numbered old" by (auto simp: pg_holds_def)
  note stored = pg_stored_holds [OF holds]
  note table = ordered_table [OF s(3,4)]
  show "\<exists>s'. b_init (postgres_ops pg dsn t) s = (Inr (), s') \<and> pg_usable v t s' \<and> pg_stored v t s' = pg_stored v t s"
  proof -
    have "pg_pool s = None \<or> (\<exists>p. connected v s p)" using s(1) by blast
    from yields_Some [OF init_run [OF ok this, of dsn]] obtain s' p' where
      "postgres_init pg dsn t s = (Inr (), s')" "connected v s' p'"
      "tables v (pg_server s') = (tables v (pg_server s))(t \<mapsto> pg_table_of old)"
      by (auto simp: s(2) upgraded_table)
    with pg_holds_grown [OF holds this(2,3) s(3,4)] show ?thesis by (simp add: postgres_ops_def stored)
  qed
  have unchanged: "pg_usable v t s' \<and> pg_stored v t s' = pg_stored v t s"
    if "connected v s' p \<and> tables v (pg_server s') = tables v (pg_server s)" for s'
    using that pg_holds_grown [OF holds, of s' p "tables v (pg_server s)" old] s by (simp add: stored fun_upd_idem)
  show "\<exists>s'. b_append (postgres_ops pg dsn t) r s = (Inr (), s') \<and> pg_usable v t s' \<and>
      pg_stored v t s' = pg_stored v t s @ [sorted_metadata r]" if st: "pg_storable (pg_stored v t s) r"
  proof -
    have st': "pg_storable old r" using st storable_norm_pg [of old "[]" r] by (simp add: stored)
    from inserted_ok [where db = "tables v (pg_server s)" and t = t, OF st' s(3,2)] yields_Some postgres_append_run [OF ok s(1), of r]
    obtain s' where s': "postgres_append pg t r s = (Inr (), s')" "connected v s' p"
      "tables v (pg_server s') = (tables v (pg_server s))(t \<mapsto> pg_table_of (old @ [r]))" by fastforce
    have "list_all postgres_ok (old @ [r])" "numbered (old @ [r])"
      using st' s by (simp_all add: pg_storable_def numbered_snoc)
    with pg_holds_grown [OF holds s'(2,3)] s'(1) show ?thesis by (simp add: postgres_ops_def stored)
  qed
  show "\<exists>s'. b_append_many (postgres_ops pg dsn t) rs s = (Inr (), s') \<and> pg_usable v t s' \<and>
      pg_stored v t s' = pg_stored v t s @ map sorted_metadata rs"
    if st: "\<forall>i < length rs. pg_storable (pg_stored v t s @ map sorted_metadata (take i rs)) (rs ! i)"
  proof -
    have "\<forall>i < length rs. pg_storable (old @ take i rs) (rs ! i)"
      using st storable_norm_pg [of old] by (simp add: stored)
    note ins = inserted_all_ok [where db = "tables v (pg_server s)" and t = t, OF s(3,4,2) this]
    with yields_Some postgres_append_many_run [OF ok s(1), of rs] obtain s' where
      s': "postgres_append_many pg t rs s = (Inr (), s')" "connected v s' p"
      "tables v (pg_server s') = (tables v (pg_server s))(t \<mapsto> pg_table_of (old @ rs))" by fastforce
    with pg_holds_grown [OF holds s'(2,3)] ins show ?thesis by (simp add: postgres_ops_def stored)
  qed
  have all: "sql_read (SelectAll t pg_names ''seq'') (tables v (pg_server s)) =
      Some (map (\<lambda>r. map (\<lambda>c. (c, pg_row_of r c)) pg_names) old)"
    using s(2) table(1) by (simp add: sql_read_def)
  from yields_Some [OF load_run(1) [OF ok s(1) all table(2)]] obtain s' where
    s': "postgres_load pg t s = (Inr (map sorted_metadata old), s')"
      "connected v s' p \<and> tables v (pg_server s') = tables v (pg_server s)" by blast
  with unchanged [OF s'(2)] show "\<exists>s'. b_load (postgres_ops pg dsn t) s = (Inr (pg_stored v t s), s') \<and> pg_usable v t s' \<and>
      pg_stored v t s' = pg_stored v t s" by (simp add: postgres_ops_def stored)
  let ?last = "take 1 (rev old)"
  have "sql_read (SelectLast t pg_names ''seq'') (tables v (pg_server s)) =
      Some (map (\<lambda>r. map (\<lambda>c. (c, pg_row_of r c)) pg_names) ?last)"
    using s(2) table(1) by (simp add: sql_read_def rev_map take_map)
  moreover have "list_all postgres_ok ?last" "numbered ?last"
    using s(3) by (cases old rule: rev_cases; simp add: numbered_def)+
  note ordered_table(2) [OF this]
  moreover have "last_record (map sorted_metadata ?last) = last_record (pg_stored v t s)"
    by (cases old rule: rev_cases) (simp_all add: last_record_def stored)
  ultimately have "yields (postgres_load_last pg t s) (Some (last_record (pg_stored v t s)))
      (\<lambda>s'. connected v s' p \<and> tables v (pg_server s') = tables v (pg_server s))"
    using load_run(2) [OF ok s(1) all table(2), of "map (\<lambda>r. map (\<lambda>c. (c, pg_row_of r c)) pg_names) ?last"] by simp
  from yields_Some [OF this] unchanged
  show "\<exists>s'. b_load_last (postgres_ops pg dsn t) s = (Inr (last_record (pg_stored v t s)), s') \<and> pg_usable v t s' \<and>
      pg_stored v t s' = pg_stored v t s" by (auto simp: postgres_ops_def)
qed

end
