(* ===== verification/Loaded_Records.thy ===== *)
theory Loaded_Records
  imports Postgres_Properties
begin

text \<open>
  The type of what the backends load: whatever a file or a database holds, a record that \<open>load\<close> or \<open>load_last\<close>
  returns has metadata that are a value of JSON, so it can be hashed and written again.
\<close>

section \<open>Values of JSON\<close>

definition json_value :: "pyval \<Rightarrow> bool" where
  "json_value v = (wf_value False v \<and> dumpable v)"



lemma json_value_str [simp]: "json_value (PyStr s)"
  by (simp add: json_value_def text_ok_def)







section \<open>Records\<close>
















end
