(* ===== verification/Handlers.thy ===== *)
theory Handlers
  imports Jsonl_Properties
begin

text \<open>
  \<open>handlers.py\<close>: the handler that turns the records of Python's \<open>logging\<close> into audit records. What of a
  \<open>LogRecord\<close> the handler reads is a record here; a formatted message or traceback and the callables the
  application passes are values or functions of it. The time of a log record is its rendering by
  \<open>_iso_from_created\<close>.

  With \<open>background=True\<close> the callers of \<open>emit\<close>, one caller of \<open>close\<close> and the worker thread take steps in any
  order (\<open>handler_step\<close>); what a thread does between two accesses to shared state is one step. The
  methods of the log that the worker calls run to their end in one step, as no other thread uses the log.
\<close>

section \<open>From a log record to an entry\<close>

record log_record =
  lr_name :: string
  lr_levelname :: string
  lr_module :: string
  lr_lineno :: int
  lr_funcname :: pyval
  lr_message :: "string result"
  lr_exception :: "string option"
  lr_time :: string
  lr_extra :: pydict

datatype actor_option = NoActor | ActorText string | ActorCall "log_record \<Rightarrow> pyval result"

datatype metadata_option = NoMetadata | MetadataDict pydict | MetadataCall "log_record \<Rightarrow> pydict result"

text \<open>\<open>getattr(record, key, None)\<close>\<close>

definition extra_of :: "log_record \<Rightarrow> string \<Rightarrow> pyval" where
  "extra_of r k = dict_get (lr_extra r) k PyNone"

definition dict_update :: "pydict \<Rightarrow> pydict \<Rightarrow> pydict" where
  "dict_update d e = foldl (\<lambda>d (k, v). dict_put d k v) d e"

definition resolve_actor :: "actor_option \<Rightarrow> log_record \<Rightarrow> string result" where
  "resolve_actor opt r =
     (if extra_of r ''audit_actor'' \<noteq> PyNone then Inr (py_str (extra_of r ''audit_actor''))
      else case opt of
             ActorCall f \<Rightarrow> bindE (f r) (\<lambda>v. Inr (py_str v))
           | ActorText s \<Rightarrow> Inr s
           | NoActor \<Rightarrow> Inr (lr_name r))"

definition resolve_metadata :: "metadata_option \<Rightarrow> bool \<Rightarrow> log_record \<Rightarrow> pydict result" where
  "resolve_metadata opt include_exception r =
     (let data = [(''logger'', PyStr (lr_name r)), (''level'', PyStr (lr_levelname r)), (''module'', PyStr (lr_module r)),
                  (''line'', PyInt (lr_lineno r)), (''func'', lr_funcname r)];
          data = (case lr_exception r of
                    Some t \<Rightarrow> if include_exception then dict_put data ''exception'' (PyStr t) else data
                  | None \<Rightarrow> data)
      in bindE (case opt of
                  MetadataCall f \<Rightarrow> bindE (f r) (\<lambda>m. Inr (dict_update data m))
                | MetadataDict m \<Rightarrow> Inr (dict_update data m)
                | NoMetadata \<Rightarrow> Inr data) (\<lambda>data.
           Inr (case extra_of r ''audit_metadata'' of PyDict m \<Rightarrow> dict_update data m | _ \<Rightarrow> data)))"

type_synonym entry = "string \<times> string \<times> string \<times> pydict \<times> string"

record 's handler =
  h_log :: "'s audit_log"
  h_actor :: actor_option
  h_metadata :: metadata_option
  h_background :: bool
  h_include_exception :: bool
  h_close_log :: bool
  h_closed :: bool
  h_error_count :: nat
  h_last_error :: "exn option"
  h_reported :: "exn list"

definition new_handler ::
  "'s audit_log \<Rightarrow> actor_option \<Rightarrow> metadata_option \<Rightarrow> bool \<Rightarrow> bool \<Rightarrow> bool \<Rightarrow> 's handler" where
  "new_handler lg ac meta background include_exception close_log =
     \<lparr>h_log = lg, h_actor = ac, h_metadata = meta, h_background = background, h_include_exception = include_exception,
      h_close_log = close_log, h_closed = False, h_error_count = 0, h_last_error = None, h_reported = []\<rparr>"

text \<open>\<open>_entry\<close>: the message is formatted only when there is no action of its own.\<close>

definition entry_of :: "'s handler \<Rightarrow> log_record \<Rightarrow> entry result" where
  "entry_of h r =
     bindE (if truthy (extra_of r ''audit_action'') then Inr (extra_of r ''audit_action'')
            else bindE (lr_message r) (\<lambda>s. Inr (PyStr s))) (\<lambda>an.
     let subj = (if truthy (extra_of r ''audit_subject'') then extra_of r ''audit_subject'' else PyStr [])
     in bindE (resolve_actor (h_actor h) r) (\<lambda>ac.
        bindE (resolve_metadata (h_metadata h) (h_include_exception h) r) (\<lambda>meta.
          Inr (ac, py_str an, py_str subj, meta, lr_time r))))"

section \<open>Writing\<close>

text \<open>\<open>_report_error\<close>: \<open>handleError\<close> is called, and whatever it raises is dropped.\<close>

definition report_error :: "exn \<Rightarrow> 's handler \<Rightarrow> 's handler" where
  "report_error e h = h\<lparr>h_reported := h_reported h @ [e]\<rparr>"

definition handler_closed :: exn where
  "handler_closed = RuntimeError ''auditchain: the handler is closed''"

definition write_entry :: "ed25519 \<Rightarrow> 's backend_ops \<Rightarrow> string \<Rightarrow> entry \<Rightarrow> 's handler \<Rightarrow> 's handler" where
  "write_entry lib ops now e h =
     (case e of (ac, an, sub, meta, ts) \<Rightarrow>
        case log_append lib ops now ac an sub (Some meta) (Some ts) (h_log h) of
          (Inr r, lg) \<Rightarrow> h\<lparr>h_log := lg\<rparr>
        | (Inl x, lg) \<Rightarrow>
            report_error x (h\<lparr>h_log := lg, h_error_count := h_error_count h + 1, h_last_error := Some x\<rparr>))"

text \<open>The part of \<open>emit\<close> before the entry is handed over: the entry, if there is one to hand over.\<close>

definition emit_prepare :: "log_record \<Rightarrow> 's handler \<Rightarrow> entry option \<times> 's handler" where
  "emit_prepare r h =
     (if h_closed h then (None, report_error handler_closed h)
      else case entry_of h r of
             Inl x \<Rightarrow> (None, report_error x h)
           | Inr e \<Rightarrow> (Some e, h))"

text \<open>\<open>emit\<close> with \<open>background=False\<close>; \<open>running\<close>: the caller is inside an event loop.\<close>

definition inside_loop :: exn where
  "inside_loop = RuntimeError ''AuditLogHandler(background=False) cannot write from inside a running event loop; use background=True''"

definition emit_here ::
  "ed25519 \<Rightarrow> 's backend_ops \<Rightarrow> string \<Rightarrow> bool \<Rightarrow> log_record \<Rightarrow> ('s handler, unit) action" where
  "emit_here lib ops now running r h =
     (case emit_prepare r h of
        (None, h') \<Rightarrow> (Inr (), h')
      | (Some e, h') \<Rightarrow> if running then (Inl inside_loop, h') else (Inr (), write_entry lib ops now e h'))"

text \<open>\<open>close\<close> with \<open>background=False\<close>\<close>

definition close_here :: "'s backend_ops \<Rightarrow> 's handler \<Rightarrow> 's handler" where
  "close_here ops h =
     (if h_closed h then h
      else if h_close_log h
      then (case log_close ops (h_log h) of
              (Inr _, lg) \<Rightarrow> h\<lparr>h_log := lg, h_closed := True\<rparr>
            | (Inl x, lg) \<Rightarrow> h\<lparr>h_log := lg, h_error_count := h_error_count h + 1, h_last_error := Some x, h_closed := True\<rparr>)
      else h\<lparr>h_closed := True\<rparr>)"

section \<open>The background thread\<close>

datatype queue_item = Entry entry | Stop

datatype worker = Waiting | Working queue_item | Ended

datatype closing = NotClosing | Flushing | Joining

text \<open>\<open>s_queue\<close> and \<open>s_unfinished\<close> are the queue with its count of unfinished tasks, \<open>s_emitting\<close> the entries
  that callers of \<open>emit\<close> are about to put there. \<open>s_put\<close> and \<open>s_written\<close> record what was put and what the worker
  has handed to \<open>_write\<close>, with the time; no step depends on them.\<close>

record 's handler_system =
  s_handler :: "'s handler"
  s_emitting :: "entry list"
  s_queue :: "queue_item list"
  s_unfinished :: nat
  s_worker :: worker
  s_closing :: closing
  s_put :: "entry list"
  s_written :: "(entry \<times> string) list"

definition start_handler :: "'s handler \<Rightarrow> 's handler_system" where
  "start_handler h =
     \<lparr>s_handler = h, s_emitting = [], s_queue = [], s_unfinished = 0, s_worker = Waiting, s_closing = NotClosing,
      s_put = [], s_written = []\<rparr>"

definition emit_start :: "log_record \<Rightarrow> 's handler_system \<Rightarrow> 's handler_system" where
  "emit_start r s =
     (case emit_prepare r (s_handler s) of
        (None, h) \<Rightarrow> s\<lparr>s_handler := h\<rparr>
      | (Some e, h) \<Rightarrow> s\<lparr>s_handler := h, s_emitting := s_emitting s @ [e]\<rparr>)"

definition enqueue :: "queue_item \<Rightarrow> 's handler_system \<Rightarrow> 's handler_system" where
  "enqueue x s = s\<lparr>s_queue := s_queue s @ [x], s_unfinished := s_unfinished s + 1\<rparr>"

definition emit_put :: "entry \<Rightarrow> 's handler_system \<Rightarrow> 's handler_system" where
  "emit_put e s = enqueue (Entry e) (s\<lparr>s_emitting := remove1 e (s_emitting s), s_put := s_put s @ [e]\<rparr>)"

text \<open>One round of the worker: \<open>get\<close>, then \<open>_write\<close> and \<open>task_done\<close>, or the end.\<close>

definition worker_step :: "ed25519 \<Rightarrow> 's backend_ops \<Rightarrow> string \<Rightarrow> 's handler_system \<Rightarrow> 's handler_system" where
  "worker_step lib ops now s =
     (case s_worker s of
        Waiting \<Rightarrow>
          (case s_queue s of
             [] \<Rightarrow> s
           | x # q \<Rightarrow> s\<lparr>s_worker := Working x, s_queue := q\<rparr>)
      | Working (Entry e) \<Rightarrow>
          s\<lparr>s_handler := write_entry lib ops now e (s_handler s), s_unfinished := s_unfinished s - 1,
            s_worker := Waiting, s_written := s_written s @ [(e, now)]\<rparr>
      | Working Stop \<Rightarrow>
          (let h = s_handler s
           in s\<lparr>s_handler := (if h_close_log h then h\<lparr>h_log := snd (log_close ops (h_log h))\<rparr> else h),
                s_unfinished := s_unfinished s - 1, s_worker := Ended\<rparr>)
      | Ended \<Rightarrow> s)"

text \<open>\<open>close\<close>: wait for the queue (\<open>flush\<close>), put the sentinel, wait for the thread.\<close>

inductive handler_step :: "ed25519 \<Rightarrow> 's backend_ops \<Rightarrow> 's handler_system \<Rightarrow> 's handler_system \<Rightarrow> bool"
  for lib ops where
  emitting: "handler_step lib ops s (emit_start r s)"
| putting: "e \<in> set (s_emitting s) \<Longrightarrow> handler_step lib ops s (emit_put e s)"
| working: "handler_step lib ops s (worker_step lib ops now s)"
| closing: "s_closing s = NotClosing \<Longrightarrow> \<not> h_closed (s_handler s) \<Longrightarrow>
    handler_step lib ops s (s\<lparr>s_closing := Flushing\<rparr>)"
| flushed: "s_closing s = Flushing \<Longrightarrow> s_unfinished s = 0 \<Longrightarrow>
    handler_step lib ops s ((enqueue Stop s)\<lparr>s_closing := Joining\<rparr>)"
| joined: "s_closing s = Joining \<Longrightarrow> s_worker s = Ended \<Longrightarrow>
    handler_step lib ops s (s\<lparr>s_handler := (s_handler s)\<lparr>h_closed := True\<rparr>, s_closing := NotClosing\<rparr>)"

inductive handler_reachable :: "ed25519 \<Rightarrow> 's backend_ops \<Rightarrow> 's handler \<Rightarrow> 's handler_system \<Rightarrow> bool"
  for lib ops h0 where
  start: "handler_reachable lib ops h0 (start_handler h0)"
| step: "handler_reachable lib ops h0 s \<Longrightarrow> handler_step lib ops s s' \<Longrightarrow> handler_reachable lib ops h0 s'"

end
