(* ===== verification/Handler_Properties.thy ===== *)
theory Handler_Properties
  imports Handlers
begin

text \<open>
  What the background handler promises: the worker writes what was put into the queue, in that order and
  nothing else, and counts every failure (\<open>handler_writes_in_order\<close>); left to itself it empties the queue
  (\<open>worker_drains\<close>); and what an \<open>emit\<close> that overlaps with \<open>close\<close> can lose (\<open>entry_after_stop_lost\<close>).
\<close>

section \<open>What the worker has written\<close>

definition append_entry ::
  "ed25519 \<Rightarrow> 's backend_ops \<Rightarrow> entry \<times> string \<Rightarrow> ('s audit_log, audit_record) action" where
  "append_entry lib ops w =
     (case w of ((ac, an, sub, meta, ts), now) \<Rightarrow> log_append lib ops now ac an sub (Some meta) (Some ts))"

definition written_log :: "ed25519 \<Rightarrow> 's backend_ops \<Rightarrow> (entry \<times> string) list \<Rightarrow> 's audit_log \<Rightarrow> 's audit_log" where
  "written_log lib ops ws lg = foldl (\<lambda>lg w. snd (append_entry lib ops w lg)) lg ws"

fun failures :: "ed25519 \<Rightarrow> 's backend_ops \<Rightarrow> (entry \<times> string) list \<Rightarrow> 's audit_log \<Rightarrow> exn list" where
  "failures lib ops [] lg = []"
| "failures lib ops (w # ws) lg =
     (case append_entry lib ops w lg of
        (Inl x, lg') \<Rightarrow> x # failures lib ops ws lg'
      | (Inr r, lg') \<Rightarrow> failures lib ops ws lg')"

lemma written_log_snoc: "written_log lib ops (ws @ [w]) lg = snd (append_entry lib ops w (written_log lib ops ws lg))"
  by (simp add: written_log_def)

lemma failures_snoc:
  "failures lib ops (ws @ [w]) lg = failures lib ops ws lg @
     (case append_entry lib ops w (written_log lib ops ws lg) of (Inl x, lg') \<Rightarrow> [x] | (Inr r, lg') \<Rightarrow> [])"
  by (induction ws arbitrary: lg) (auto simp: written_log_def split: prod.splits sum.splits)

definition queued :: "queue_item list \<Rightarrow> entry list" where
  "queued q = concat (map (\<lambda>x. case x of Entry e \<Rightarrow> [e] | Stop \<Rightarrow> []) q)"

definition in_hand :: "worker \<Rightarrow> entry list" where
  "in_hand wk = (case wk of Working (Entry e) \<Rightarrow> [e] | _ \<Rightarrow> [])"

lemma queued_simps [simp]:
  "queued [] = []" "queued (Entry e # q) = e # queued q" "queued (Stop # q) = queued q"
  "queued (q @ q') = queued q @ queued q'" "in_hand Waiting = []" "in_hand Ended = []"
  "in_hand (Working (Entry e)) = [e]" "in_hand (Working Stop) = []"
  by (simp_all add: queued_def in_hand_def)

text \<open>The configuration of a handler does not change.\<close>

definition same_setup :: "'s handler \<Rightarrow> 's handler \<Rightarrow> bool" where
  "same_setup h h' =
     (h_actor h' = h_actor h \<and> h_metadata h' = h_metadata h \<and> h_include_exception h' = h_include_exception h \<and>
      h_close_log h' = h_close_log h)"

definition handler_inv :: "ed25519 \<Rightarrow> 's backend_ops \<Rightarrow> 's handler \<Rightarrow> 's handler_system \<Rightarrow> bool" where
  "handler_inv lib ops h0 s =
     (let h = s_handler s; lg = written_log lib ops (s_written s) (h_log h0)
      in same_setup h0 h \<and> s_put s = map fst (s_written s) @ in_hand (s_worker s) @ queued (s_queue s) \<and>
         h_log h = (if s_worker s = Ended \<and> h_close_log h0 then snd (log_close ops lg) else lg) \<and>
         h_error_count h = h_error_count h0 + length (failures lib ops (s_written s) (h_log h0)) \<and>
         s_unfinished s = length (s_queue s) + (case s_worker s of Working x \<Rightarrow> 1 | _ \<Rightarrow> 0) \<and>
         (h_closed h \<longrightarrow> s_worker s = Ended \<or> h_closed h0))"

lemma write_entry_simps:
  "h_log (write_entry lib ops now e h) = snd (append_entry lib ops (e, now) (h_log h))"
  "h_error_count (write_entry lib ops now e h) =
     h_error_count h + (case append_entry lib ops (e, now) (h_log h) of (Inl x, lg) \<Rightarrow> 1 | (Inr r, lg) \<Rightarrow> 0)"
  "same_setup h0 (write_entry lib ops now e h) = same_setup h0 h"
  "h_closed (write_entry lib ops now e h) = h_closed h"
  by (auto simp: write_entry_def append_entry_def report_error_def same_setup_def split: prod.splits sum.splits)

lemma emit_prepare_simps:
  assumes "emit_prepare r h = (x, h')"
  shows "h_log h' = h_log h" "h_error_count h' = h_error_count h" "same_setup h0 h' = same_setup h0 h" "h_closed h' = h_closed h"
  using assms by (auto simp: emit_prepare_def report_error_def same_setup_def split: if_splits sum.splits)

lemma handler_invD:
  assumes "handler_inv lib ops h0 s"
  shows "same_setup h0 (s_handler s)" "s_put s = map fst (s_written s) @ in_hand (s_worker s) @ queued (s_queue s)"
    "s_worker s \<noteq> Ended \<Longrightarrow> h_log (s_handler s) = written_log lib ops (s_written s) (h_log h0)"
    "h_error_count (s_handler s) = h_error_count h0 + length (failures lib ops (s_written s) (h_log h0))"
    "s_unfinished s = length (s_queue s) + (case s_worker s of Working x \<Rightarrow> 1 | _ \<Rightarrow> 0)"
    "h_closed (s_handler s) \<Longrightarrow> s_worker s = Ended \<or> h_closed h0"
  using assms by (simp_all add: handler_inv_def Let_def)

lemma worker_inv:
  assumes "handler_inv lib ops h0 s"
  shows "handler_inv lib ops h0 (worker_step lib ops now s)"
proof (cases "s_worker s")
  case Waiting
  note inv = handler_invD [OF assms]
  show ?thesis
  proof (cases "s_queue s")
    case Nil
    then show ?thesis using assms Waiting by (simp add: worker_step_def)
  next
    case (Cons x q)
    then show ?thesis
      using assms Waiting by (cases x) (simp_all add: worker_step_def handler_inv_def Let_def)
  qed
next
  case (Working x)
  note inv = handler_invD [OF assms]
  show ?thesis
  proof (cases x)
    case (Entry e)
    obtain r lg where r: "append_entry lib ops (e, now) (written_log lib ops (s_written s) (h_log h0)) = (r, lg)"
      by (metis surj_pair)
    have "h_log (s_handler s) = written_log lib ops (s_written s) (h_log h0)" using inv(3) Working by simp
    with assms Working Entry r show ?thesis
      by (cases r) (simp_all add: worker_step_def handler_inv_def Let_def write_entry_simps written_log_snoc failures_snoc)
  next
    case Stop
    with assms Working show ?thesis by (simp add: worker_step_def handler_inv_def Let_def same_setup_def)
  qed
next
  case Ended
  with assms show ?thesis by (simp add: worker_step_def)
qed

lemma emit_start_inv:
  assumes "handler_inv lib ops h0 s"
  shows "handler_inv lib ops h0 (emit_start r s)"
proof -
  obtain x h where x: "emit_prepare r (s_handler s) = (x, h)" by fastforce
  note same = emit_prepare_simps [OF x]
  from assms show ?thesis
    by (cases x) (simp_all add: emit_start_def x handler_inv_def Let_def same(1,2,4) same(3) [of h0])
qed

lemma handler_step_inv: "handler_step lib ops s s' \<Longrightarrow> handler_inv lib ops h0 s \<Longrightarrow> handler_inv lib ops h0 s'"
proof (induction rule: handler_step.induct)
  case (emitting s r)
  then show ?case by (rule emit_start_inv)
next
  case (working s now)
  then show ?case by (rule worker_inv)
qed (simp_all add: handler_inv_def Let_def emit_put_def enqueue_def same_setup_def)

lemma handler_reachable_inv: "handler_reachable lib ops h0 s \<Longrightarrow> handler_inv lib ops h0 s"
proof (induction rule: handler_reachable.induct)
  case start
  show ?case by (simp add: handler_inv_def start_handler_def written_log_def same_setup_def Let_def)
qed (rule handler_step_inv)


definition demo_message :: log_record where
  "demo_message =
     \<lparr>lr_name = ''billing'', lr_levelname = ''INFO'', lr_module = ''app'', lr_lineno = 42, lr_funcname = PyStr ''approve'',
      lr_message = Inr ''invoice.approve inv-7'', lr_exception = None, lr_time = ''2026-01-01T00:00:00.000000Z'',
      lr_extra = [(''audit_metadata'', PyDict [(''amount'', PyInt 1200)])]\<rparr>"

definition demo_entry :: entry where
  "demo_entry =
     (''billing'', ''invoice.approve inv-7'', [],
      [(''logger'', PyStr ''billing''), (''level'', PyStr ''INFO''), (''module'', PyStr ''app''), (''line'', PyInt 42),
       (''func'', PyStr ''approve''), (''amount'', PyInt 1200)], ''2026-01-01T00:00:00.000000Z'')"

abbreviation demo_handler :: "audit_record list handler" where
  "demo_handler \<equiv> new_handler (demo_log [] NoLock) NoActor NoMetadata True True False"

lemma demo_entry_of: "entry_of demo_handler demo_message = Inr demo_entry"
  by (simp add: entry_of_def demo_message_def extra_of_def dict_get_def resolve_actor_def resolve_metadata_def new_handler_def
      dict_update_def Let_def py_str_def demo_entry_def)

definition demo_put :: "audit_record list handler_system" where
  "demo_put = emit_put demo_entry (emit_start demo_message (start_handler demo_handler))"

lemma demo_put_reachable:
  "handler_reachable lib ops demo_handler demo_put" "s_worker demo_put = Waiting" "s_queue demo_put = [Entry demo_entry]"
  "s_unfinished demo_put = 1" "s_put demo_put = [demo_entry]" "s_written demo_put = []"
proof -
  have emit: "emit_start demo_message (start_handler demo_handler) = (start_handler demo_handler)\<lparr>s_emitting := [demo_entry]\<rparr>"
    using demo_entry_of by (simp add: emit_start_def emit_prepare_def start_handler_def) (simp add: new_handler_def)
  have "handler_reachable lib ops demo_handler (emit_start demo_message (start_handler demo_handler))"
    by (rule handler_reachable.step [OF handler_reachable.start handler_step.emitting])
  then show "handler_reachable lib ops demo_handler demo_put"
    unfolding demo_put_def by (rule handler_reachable.step [OF _ handler_step.putting]) (simp add: emit)
  show "s_worker demo_put = Waiting" "s_queue demo_put = [Entry demo_entry]" "s_unfinished demo_put = 1"
    "s_put demo_put = [demo_entry]" "s_written demo_put = []"
    unfolding demo_put_def emit by (simp_all add: emit_put_def enqueue_def start_handler_def)
qed


section \<open>The worker empties the queue\<close>

definition stopping :: "'s handler_system \<Rightarrow> bool" where
  "stopping s = (Stop \<in> set (s_queue s) \<or> s_worker s \<in> {Working Stop, Ended})"

text \<open>How many steps the worker has to go.\<close>

definition to_do :: "'s handler_system \<Rightarrow> nat" where
  "to_do s = 2 * length (s_queue s) + (case s_worker s of Working x \<Rightarrow> 1 | _ \<Rightarrow> 0)"

lemma worker_progress:
  assumes "\<not> stopping s"
  shows "to_do (worker_step lib ops now s) = to_do s - 1" "s_put (worker_step lib ops now s) = s_put s"
    "\<not> stopping (worker_step lib ops now s)"
proof -
  have "to_do (worker_step lib ops now s) = to_do s - 1 \<and> s_put (worker_step lib ops now s) = s_put s \<and>
      \<not> stopping (worker_step lib ops now s)"
  proof (cases "s_worker s")
    case Waiting
    with assms show ?thesis by (cases "s_queue s") (auto simp: worker_step_def to_do_def stopping_def)
  next
    case (Working x)
    with assms show ?thesis by (cases x) (auto simp: worker_step_def to_do_def stopping_def)
  qed (use assms in \<open>simp add: stopping_def\<close>)
  then show "to_do (worker_step lib ops now s) = to_do s - 1" "s_put (worker_step lib ops now s) = s_put s"
    "\<not> stopping (worker_step lib ops now s)" by simp_all
qed

lemma worker_runs:
  assumes "handler_reachable lib ops h0 s" and "\<not> stopping s"
  shows "to_do ((worker_step lib ops now ^^ n) s) = to_do s - n \<and> s_put ((worker_step lib ops now ^^ n) s) = s_put s \<and>
    \<not> stopping ((worker_step lib ops now ^^ n) s) \<and> handler_reachable lib ops h0 ((worker_step lib ops now ^^ n) s)"
proof (induction n)
  case (Suc n)
  then show ?case
    using worker_progress [of "(worker_step lib ops now ^^ n) s" lib ops now]
    by (auto intro: handler_reachable.step handler_step.working)
qed (use assms in simp)

text \<open>C34: As long as nobody has closed the handler, the worker by itself gets through the queue: at most two
  steps for each unfinished task, after which nothing is unfinished and every entry that was put is written.\<close>

theorem worker_drains:
  assumes "handler_reachable lib ops h0 s" and "\<not> stopping s"
  shows "let s' = (worker_step lib ops now ^^ (2 * s_unfinished s)) s
     in s_unfinished s' = 0 \<and> s_put s' = s_put s \<and> map fst (s_written s') = s_put s \<and> \<not> stopping s' \<and>
        handler_reachable lib ops h0 s'"
proof -
  let ?s = "(worker_step lib ops now ^^ (2 * s_unfinished s)) s"
  note run = worker_runs [OF assms, where now = now and n = "2 * s_unfinished s"]
  have "to_do s \<le> 2 * s_unfinished s"
    using handler_invD(5) [OF handler_reachable_inv [OF assms(1)]] by (simp add: to_do_def split: worker.splits)
  with run have "to_do ?s = 0" by simp
  then have idle: "s_queue ?s = []" "s_worker ?s = Waiting \<or> s_worker ?s = Ended"
    by (simp_all add: to_do_def split: worker.splits)
  have inv: "handler_inv lib ops h0 ?s" using run handler_reachable_inv by blast
  have "s_unfinished ?s = 0" using handler_invD(5) [OF inv] idle by auto
  moreover have "map fst (s_written ?s) = s_put ?s"
    using handler_invD(2) [OF inv] idle run by auto
  ultimately show ?thesis using run by (simp add: Let_def)
qed

theorem worker_drains_witness:
  "s_unfinished ((worker_step demo_ed25519 memory_ops [] ^^ 2) demo_put) = 0 \<and>
   map fst (s_written ((worker_step demo_ed25519 memory_ops [] ^^ 2) demo_put)) = [demo_entry]"
proof -
  have "\<not> stopping demo_put" by (simp add: stopping_def demo_put_reachable(2,3))
  from worker_drains [OF demo_put_reachable(1) this, of demo_ed25519 memory_ops "[]"] show ?thesis
    using demo_put_reachable(4,5) by (simp add: Let_def)
qed

section \<open>An emit that overlaps with close\<close>

lemma ended_stays:
  assumes "handler_step lib ops s s'" and "s_worker s = Ended"
  shows "s_worker s' = Ended \<and> s_written s' = s_written s \<and> h_log (s_handler s') = h_log (s_handler s)"
  using assms
proof (induction rule: handler_step.induct)
  case (emitting s r)
  obtain x h where "emit_prepare r (s_handler s) = (x, h)" by fastforce
  with emit_prepare_simps(1) [OF this] emitting show ?case by (cases x) (simp_all add: emit_start_def)
qed (simp_all add: emit_put_def enqueue_def worker_step_def)

lemma ended_forever:
  "(handler_step lib ops)\<^sup>*\<^sup>* s s' \<Longrightarrow> s_worker s = Ended \<Longrightarrow>
   s_worker s' = Ended \<and> s_written s' = s_written s \<and> h_log (s_handler s') = h_log (s_handler s)"
  by (induction rule: rtranclp_induct) (use ended_stays in fastforce)+

text \<open>C35: \<open>emit\<close> tests \<open>_closed\<close> before it puts its entry. When \<open>close\<close> runs between the two, the entry lands
  behind the sentinel: \<open>emit\<close> has accepted it, yet it is never written, no error is counted and none is
  reported, whatever happens afterwards.\<close>

theorem entry_after_stop_lost:
  assumes "\<not> h_closed h0" and "entry_of h0 r = Inr e"
  shows "\<exists>s. handler_reachable lib ops h0 s \<and> h_closed (s_handler s) \<and> s_put s = [e] \<and>
    h_error_count (s_handler s) = h_error_count h0 \<and> h_reported (s_handler s) = h_reported h0 \<and>
    (\<forall>s'. (handler_step lib ops)\<^sup>*\<^sup>* s s' \<longrightarrow> s_written s' = [] \<and> h_log (s_handler s') = h_log (s_handler s))"
proof -
  let ?s1 = "(start_handler h0)\<lparr>s_emitting := [e]\<rparr>"
  let ?s2 = "?s1\<lparr>s_closing := Flushing\<rparr>"
  let ?s3 = "(enqueue Stop ?s2)\<lparr>s_closing := Joining\<rparr>"
  let ?s5 = "worker_step lib ops [] (worker_step lib ops [] ?s3)"
  let ?s6 = "?s5\<lparr>s_handler := (s_handler ?s5)\<lparr>h_closed := True\<rparr>, s_closing := NotClosing\<rparr>"
  have "emit_start r (start_handler h0) = ?s1"
    using assms by (simp add: emit_start_def start_handler_def emit_prepare_def)
  then have "handler_reachable lib ops h0 ?s1"
    using handler_reachable.step [OF handler_reachable.start handler_step.emitting, of lib ops h0 r] by simp
  then have "handler_reachable lib ops h0 ?s2"
    by (rule handler_reachable.step [OF _ handler_step.closing]) (use assms in \<open>simp_all add: start_handler_def\<close>)
  then have "handler_reachable lib ops h0 ?s3"
    by (rule handler_reachable.step [OF _ handler_step.flushed]) (simp_all add: start_handler_def)
  then have "handler_reachable lib ops h0 ?s5"
    by (intro handler_reachable.step [OF _ handler_step.working])
  then have "handler_reachable lib ops h0 ?s6"
    by (rule handler_reachable.step [OF _ handler_step.joined]) (simp_all add: start_handler_def enqueue_def worker_step_def Let_def)
  then have "handler_reachable lib ops h0 (emit_put e ?s6)"
    by (rule handler_reachable.step [OF _ handler_step.putting]) (simp add: start_handler_def enqueue_def worker_step_def Let_def)
  moreover have "s_worker (emit_put e ?s6) = Ended" "s_written (emit_put e ?s6) = []"
    by (simp_all add: start_handler_def enqueue_def worker_step_def emit_put_def Let_def)
  then have "\<forall>s'. (handler_step lib ops)\<^sup>*\<^sup>* (emit_put e ?s6) s' \<longrightarrow>
      s_written s' = [] \<and> h_log (s_handler s') = h_log (s_handler (emit_put e ?s6))"
    using ended_forever by metis
  ultimately show ?thesis
    by (intro exI [of _ "emit_put e ?s6"]) (simp add: start_handler_def enqueue_def worker_step_def emit_put_def Let_def)
qed

theorem entry_after_stop_lost_witness:
  "\<exists>s. handler_reachable demo_ed25519 memory_ops demo_handler s \<and> h_closed (s_handler s) \<and> s_put s = [demo_entry] \<and>
     s_written s = [] \<and> h_error_count (s_handler s) = 0 \<and> h_reported (s_handler s) = []"
proof -
  have demo: "\<not> h_closed demo_handler" "h_error_count demo_handler = 0" "h_reported demo_handler = []"
    by (simp_all add: new_handler_def)
  obtain s where "handler_reachable demo_ed25519 memory_ops demo_handler s" "h_closed (s_handler s)" "s_put s = [demo_entry]"
    "h_error_count (s_handler s) = h_error_count demo_handler" "h_reported (s_handler s) = h_reported demo_handler"
    "\<forall>s'. (handler_step demo_ed25519 memory_ops)\<^sup>*\<^sup>* s s' \<longrightarrow> s_written s' = [] \<and> h_log (s_handler s') = h_log (s_handler s)"
    using entry_after_stop_lost [OF demo(1) demo_entry_of, of demo_ed25519 memory_ops] by (elim exE conjE) (rule that)
  then show ?thesis using demo(2,3) by (intro exI [of _ s]) simp
qed

end
