(* ===== verification/Cli.thy ===== *)
theory Cli
  imports Overlap Sqlite_Properties
begin

text \<open>
  \<open>__main__.py\<close>: the commands, as functions of their parsed arguments and of the files. A file is its bytes;
  paths are in the normal form of \<open>pathlib\<close>, and directories exist. \<open>Cli_Args\<close> reads the command
  line; the permissions \<open>_keygen\<close> sets are left out. What is printed is kept line by line.

  A \<open>platform\<close> holds what the commands use of other packages: the primitives of \<open>cryptography\<close>, the text
  of exceptions, and how SQLite keeps a table in a file.
\<close>

section \<open>Files\<close>

type_synonym files = "string \<Rightarrow> string option"

record platform =
  pf_lib :: ed25519
  pf_exn_str :: "exn \<Rightarrow> string"
  pf_read_table :: "string \<Rightarrow> sqlite_table option result"
  pf_write_table :: "sqlite_table \<Rightarrow> string"

text \<open>\<open>read_bytes\<close> and \<open>read_text(encoding="utf-8")\<close>\<close>

definition read_bytes :: "files \<Rightarrow> string \<Rightarrow> bytes result" where
  "read_bytes fs p = (case fs p of None \<Rightarrow> Inl (OSError p) | Some t \<Rightarrow> Inr (raw_bytes t))"

definition read_text :: "files \<Rightarrow> string \<Rightarrow> string result" where
  "read_text fs p =
     (case fs p of
        None \<Rightarrow> Inl (OSError p)
      | Some t \<Rightarrow>
          (case utf8_chars t of
             None \<Rightarrow> Inl UnicodeDecodeError
           | Some cs \<Rightarrow> Inr (concat (universal_newlines cs))))"

definition text_of_bytes :: "bytes \<Rightarrow> string" where
  "text_of_bytes bs = map (\<lambda>b. char_of (unat b)) bs"

section \<open>The backend of a file\<close>

text \<open>The two kinds of storage behind one interface; \<open>Damaged\<close> is a file that SQLite refuses to open.\<close>

datatype any_store = JsonlStore disk_file | SqliteStore sqlite | Damaged exn

definition via :: "('t \<Rightarrow> 's) \<Rightarrow> ('t, 'a) action \<Rightarrow> 't \<Rightarrow> 'a result \<times> 's" where
  "via con m t = (fst (m t), con (snd (m t)))"

definition dispatch :: "(disk_file, 'a) action \<Rightarrow> (sqlite, 'a) action \<Rightarrow> (any_store, 'a) action" where
  "dispatch j q s =
     (case s of
        JsonlStore f \<Rightarrow> via JsonlStore j f
      | SqliteStore t \<Rightarrow> via SqliteStore q t
      | Damaged e \<Rightarrow> (Inl e, s))"

definition any_ops :: "(exn \<Rightarrow> string) \<Rightarrow> string \<Rightarrow> any_store backend_ops" where
  "any_ops exn_str path =
     (let j = jsonl_ops exn_str path
      in \<lparr>b_init = dispatch (b_init j) sqlite_init,
          b_append = (\<lambda>r. dispatch (b_append j r) (sqlite_append r)),
          b_append_many = (\<lambda>rs. dispatch (b_append_many j rs) (sqlite_append_many rs)),
          b_load = dispatch (b_load j) sqlite_load,
          b_load_last = dispatch (b_load_last j) sqlite_load_last,
          b_close = (\<lambda>s. case s of Damaged e \<Rightarrow> (Inr (), s) | _ \<Rightarrow> dispatch (b_close j) sqlite_close s)\<rparr>)"

definition build_backend :: "platform \<Rightarrow> files \<Rightarrow> string \<Rightarrow> string \<Rightarrow> any_store" where
  "build_backend pf fs p fmt =
     (if fmt = ''jsonl'' then JsonlStore (fs p)
      else case fs p of
             None \<Rightarrow> SqliteStore \<lparr>db_file = None, session = None\<rparr>
           | Some t \<Rightarrow> (case pf_read_table pf t of
                          Inl e \<Rightarrow> Damaged e
                        | Inr table \<Rightarrow> SqliteStore \<lparr>db_file = table, session = None\<rparr>))"

text \<open>The file behind a storage afterwards.\<close>

definition write_back :: "platform \<Rightarrow> string \<Rightarrow> any_store \<Rightarrow> any_store \<Rightarrow> files \<Rightarrow> files" where
  "write_back pf p s s' fs =
     (case (s, s') of
        (JsonlStore f, JsonlStore f') \<Rightarrow> fs(p := f')
      | (SqliteStore t, SqliteStore t') \<Rightarrow>
          if db_file t' = db_file t then fs else fs(p := map_option (pf_write_table pf) (db_file t'))
      | _ \<Rightarrow> fs)"

text \<open>\<open>path.suffix\<close>: what follows the last dot of the name, unless that is its first or last character.\<close>

definition file_name :: "string \<Rightarrow> string" where
  "file_name p = rev (takeWhile (\<lambda>c. c \<noteq> CHR ''/'') (rev p))"

definition suffix_of :: "string \<Rightarrow> string" where
  "suffix_of p =
     (let name = rev (file_name p); ext = takeWhile (\<lambda>c. c \<noteq> CHR ''.'') name
      in if ext = [] \<or> length name \<le> length ext + 1 then [] else CHR ''.'' # rev ext)"

definition detect_format :: "string \<Rightarrow> string \<Rightarrow> string result" where
  "detect_format p fmt =
     (if fmt \<noteq> ''auto'' then Inr fmt
      else if lower (suffix_of p) \<in> {''.jsonl'', ''.ndjson''} then Inr ''jsonl''
      else if lower (suffix_of p) \<in> {''.sqlite'', ''.sqlite3'', ''.db''} then Inr ''sqlite''
      else Inl (ValueError (''cannot detect the storage format of '' @ p @ ''; pass --format jsonl|sqlite'')))"

section \<open>Keys and anchors\<close>

definition read_seal_key :: "files \<Rightarrow> string option \<Rightarrow> bytes option result" where
  "read_seal_key fs file_arg =
     (case file_arg of None \<Rightarrow> Inr None | Some p \<Rightarrow> bindE (read_bytes fs p) (\<lambda>b. Inr (Some b)))"

text \<open>A path of a file that exists, or else a key in hex.\<close>

definition key_value :: "files \<Rightarrow> string \<Rightarrow> key_arg" where
  "key_value fs v = (case fs v of Some t \<Rightarrow> BytesKey (raw_bytes t) | None \<Rightarrow> StrKey v)"

definition read_private_key :: "files \<Rightarrow> string option \<Rightarrow> key_arg option" where
  "read_private_key fs v = map_option (key_value fs) v"

definition read_public_key :: "platform \<Rightarrow> files \<Rightarrow> string option \<Rightarrow> key_arg option result" where
  "read_public_key pf fs v =
     (case v of
        None \<Rightarrow> Inr None
      | Some s \<Rightarrow> bindE (load_public_key (pf_lib pf) (key_value fs s)) (\<lambda>k. Inr (Some (PublicKey k))))"

definition load_checkpoint_file ::
  "platform \<Rightarrow> files \<Rightarrow> string \<Rightarrow> bytes option \<Rightarrow> key_arg option \<Rightarrow> checkpoint result" where
  "load_checkpoint_file pf fs p sk pk = bindE (read_text fs p) (\<lambda>t. load_checkpoint (pf_lib pf) t sk pk)"

definition load_anchor ::
  "platform \<Rightarrow> files \<Rightarrow> string option \<Rightarrow> bytes option \<Rightarrow> key_arg option \<Rightarrow> checkpoint option result" where
  "load_anchor pf fs cp_file sk pk =
     (case cp_file of
        None \<Rightarrow> Inr None
      | Some p \<Rightarrow> bindE (load_checkpoint_file pf fs p sk pk) (\<lambda>cp. Inr (Some cp)))"

definition load_signer_args :: "files \<Rightarrow> string list \<Rightarrow> signers option result" where
  "load_signer_args fs specs =
     (if specs = [] then Inr None
      else bindE (load_signers (\<lambda>p. map_option raw_bytes (fs p)) specs) (\<lambda>sgs.
             Inr (Some (map (map_prod id BytesKey) sgs))))"

section \<open>Commands\<close>

text \<open>A method of a log that is closed afterwards, whatever happens.\<close>

definition run_and_close ::
  "platform \<Rightarrow> string \<Rightarrow> (any_store audit_log, 'a) action \<Rightarrow> any_store audit_log \<Rightarrow> (files, 'a) action" where
  "run_and_close pf p m lg fs =
     (let (x, lg1) = m lg;
          (y, lg2) = log_close (any_ops (pf_exn_str pf) p) lg1
      in (bindE y (\<lambda>_. x), write_back pf p (store lg) (store lg2) fs))"

definition cli_log ::
  "platform \<Rightarrow> files \<Rightarrow> string \<Rightarrow> string \<Rightarrow> bytes option \<Rightarrow> key_arg option \<Rightarrow> string \<Rightarrow> any_store audit_log result" where
  "cli_log pf fs p fmt sk signing signer =
     new_log (pf_lib pf) (build_backend pf fs p fmt) sk ''k0'' None signing signer None None"

definition verify_file ::
  "platform \<Rightarrow> string \<Rightarrow> string \<Rightarrow> int option \<Rightarrow> string option \<Rightarrow> string option \<Rightarrow> signers option \<Rightarrow> key_arg option \<Rightarrow>
     (files, verify_report) action" where
  "verify_file pf p fmt expected seal_key_file cp_file sgs pk fs =
     (case bindE (read_seal_key fs seal_key_file) (\<lambda>sk.
           bindE (load_anchor pf fs cp_file sk pk) (\<lambda>cp.
           bindE (cli_log pf fs p fmt sk None ''s0'') (\<lambda>lg. Inr (cp, lg)))) of
        Inl e \<Rightarrow> (Inl e, fs)
      | Inr (cp, lg) \<Rightarrow>
          run_and_close pf p (log_verify (pf_lib pf) (any_ops (pf_exn_str pf) p) (pf_exn_str pf) expected cp sgs) lg fs)"

definition write_text :: "string \<Rightarrow> string result \<Rightarrow> (files, unit) action" where
  "write_text p t fs = (case t of Inl e \<Rightarrow> (Inl e, fs) | Inr s \<Rightarrow> (Inr (), fs(p := Some s)))"

text \<open>Returns the line it prints.\<close>

definition checkpoint_line :: "string \<Rightarrow> checkpoint \<Rightarrow> string" where
  "checkpoint_line out cp =
     ''checkpoint written to '' @ out @ '': seq '' @ dec_int (cp_seq cp) @
     (if cp_signature_ed25519 cp \<noteq> [] then '' (Ed25519-signed by '' @ cp_signer_id cp @ '')''
      else if cp_signature cp \<noteq> [] then '' (signed)''
      else '' (unsigned '' @ [CHR 0xE2, CHR 0x80, CHR 0x94] @ '' log has no seal key)'')"

definition checkpoint_file ::
  "platform \<Rightarrow> string \<Rightarrow> string \<Rightarrow> string option \<Rightarrow> string option \<Rightarrow> string option \<Rightarrow> string \<Rightarrow> (files, string) action" where
  "checkpoint_file pf p fmt output seal_key_file signing signer fs =
     (case bindE (read_seal_key fs seal_key_file) (\<lambda>sk.
             cli_log pf fs p fmt sk (read_private_key fs signing) signer) of
        Inl e \<Rightarrow> (Inl e, fs)
      | Inr lg \<Rightarrow>
          bindS (run_and_close pf p (log_checkpoint (pf_lib pf) (any_ops (pf_exn_str pf) p)) lg) (\<lambda>cp.
            let out = (case output of None \<Rightarrow> p @ ''.checkpoint'' | Some out \<Rightarrow> out)
            in bindS (write_text out (save_checkpoint cp)) (\<lambda>_. returnS (checkpoint_line out cp))) fs)"

definition proof_mismatch :: exn where
  "proof_mismatch = ValueError ''merkle root mismatch: the log does not match the checkpoint; refusing to produce a proof''"

definition proof_of_file ::
  "platform \<Rightarrow> string \<Rightarrow> string \<Rightarrow> int \<Rightarrow> checkpoint option \<Rightarrow> string option \<Rightarrow> (files, inclusion_proof) action" where
  "proof_of_file pf p fmt s cpo seal_key_file fs =
     (case bindE (read_seal_key fs seal_key_file) (\<lambda>sk. cli_log pf fs p fmt sk None ''s0'') of
        Inl e \<Rightarrow> (Inl e, fs)
      | Inr lg \<Rightarrow>
          run_and_close pf p
            (bindS (log_inclusion_proof (any_ops (pf_exn_str pf) p) s) (\<lambda>proof.
               case cpo of
                 None \<Rightarrow> returnS proof
               | Some cp \<Rightarrow> if cp_merkle_root cp \<noteq> [] \<and> cp_merkle_root cp \<noteq> p_root proof
                             then raiseS proof_mismatch else returnS proof)) lg fs)"

text \<open>The root to check against: \<open>--root\<close>, or the one of the checkpoint if it covers what the proof covers.\<close>

definition trusted_root ::
  "platform \<Rightarrow> files \<Rightarrow> inclusion_proof \<Rightarrow> string option \<Rightarrow> string option \<Rightarrow> string option \<Rightarrow> key_arg option \<Rightarrow>
     string option result" where
  "trusted_root pf fs proof root_arg cp_file seal_key_file pk =
     (case (root_arg, cp_file) of
        (None, Some f) \<Rightarrow>
          bindE (read_seal_key fs seal_key_file) (\<lambda>sk.
          bindE (load_checkpoint_file pf fs f sk pk) (\<lambda>cp.
            if cp_merkle_root cp = [] then Inl (ValueError (f @ '' carries no merkle root to check against''))
            else if cp_seq cp < p_seq proof
            then Inl (ValueError (''the proof is for seq '' @ dec_int (p_seq proof) @ '', beyond the checkpoint (seq '' @
                   dec_int (cp_seq cp) @ '')''))
            else if p_size proof \<noteq> cp_seq cp + 1
            then Inl (ValueError (''the proof covers '' @ dec_int (p_size proof) @ '' record(s) but the checkpoint covers '' @
                   dec_int (cp_seq cp + 1)))
            else Inr (Some (cp_merkle_root cp))))
      | _ \<Rightarrow> Inr root_arg)"

definition load_proof_file :: "files \<Rightarrow> string \<Rightarrow> inclusion_proof result" where
  "load_proof_file fs p = bindE (read_text fs p) proof_load"

definition verify_proof_file ::
  "platform \<Rightarrow> files \<Rightarrow> string \<Rightarrow> string option \<Rightarrow> string option \<Rightarrow> string option \<Rightarrow> key_arg option \<Rightarrow> bool result" where
  "verify_proof_file pf fs proof_file root_arg cp_file seal_key_file pk =
     bindE (load_proof_file fs proof_file) (\<lambda>proof.
     bindE (trusted_root pf fs proof root_arg cp_file seal_key_file pk) (\<lambda>expected.
       case expected of
         None \<Rightarrow> Inl (ValueError ''pass --root HEX or --checkpoint to say which root to check against'')
       | Some r \<Rightarrow> verify_proof proof (Some r)))"

section \<open>The command line\<close>

text \<open>The exit code and the lines printed to the standard output and to the standard error.\<close>

record outcome =
  exit_code :: int
  printed :: "string list"
  complaints :: "string list"

definition failing :: "(exn \<Rightarrow> string) \<Rightarrow> exn \<Rightarrow> outcome" where
  "failing exn_str e = \<lparr>exit_code = 2, printed = [], complaints = [''error: '' @ exn_str e]\<rparr>"

definition missing :: "string \<Rightarrow> outcome" where
  "missing p = \<lparr>exit_code = 2, printed = [], complaints = [''error: '' @ p @ '' does not exist'']\<rparr>"

definition succeeding :: "string list \<Rightarrow> outcome" where
  "succeeding ls = \<lparr>exit_code = 0, printed = ls, complaints = []\<rparr>"

text \<open>\<open>seed\<close> is the private key that \<open>generate_keypair\<close> draws.\<close>

definition keygen :: "platform \<Rightarrow> bytes \<Rightarrow> string \<Rightarrow> string \<Rightarrow> bool \<Rightarrow> (files, outcome) action" where
  "keygen pf seed private_out public_out force fs =
     (case filter (\<lambda>p. fs p \<noteq> None \<and> \<not> force) [private_out, public_out] of
        p # _ \<Rightarrow> (Inr \<lparr>exit_code = 2, printed = [],
                     complaints = [''error: '' @ p @ '' already exists (pass --force to overwrite)'']\<rparr>, fs)
      | [] \<Rightarrow>
          (case generate_keypair (pf_lib pf) seed of
             Inl e \<Rightarrow> (Inl e, fs)
           | Inr (sk, pub) \<Rightarrow>
               (Inr (succeeding [''private key: '' @ private_out @ '' (keep it secret, mode 600)'',
                  ''public key:  '' @ public_out @ '' (give this to whoever verifies the log)'',
                  ''public key hex: '' @ hex pub]),
                fs(private_out := Some (text_of_bytes sk), public_out := Some (text_of_bytes pub)))))"

datatype command =
    Verify string string "int option" "string option" "string option" "string option" "string list"
  | Checkpoint string string "string option" "string option" "string option" string
  | Proof string int string "string option" "string option" "string option"
  | VerifyProof string "string option" "string option" "string option" "string option"
  | Keygen string string bool

definition report_lines :: "verify_report \<Rightarrow> signers option \<Rightarrow> string list" where
  "report_lines rep sgs =
     report_str rep #
     (case sgs of
        Some (s # ss) \<Rightarrow> if ok rep then [''signatures verified against: '' @ describe_signers (s # ss)] else []
      | _ \<Rightarrow> [])"

definition run_verify ::
  "platform \<Rightarrow> string \<Rightarrow> string \<Rightarrow> int option \<Rightarrow> string option \<Rightarrow> string option \<Rightarrow> string option \<Rightarrow> string list \<Rightarrow>
     (files, outcome) action" where
  "run_verify pf p fmt_arg expected cp_file pk_arg seal_key_file specs fs =
     (case detect_format p fmt_arg of
        Inl e \<Rightarrow> (Inl e, fs)
      | Inr fmt \<Rightarrow>
          if fs p = None then (Inr (missing p), fs)
          else case bindE (load_signer_args fs specs) (\<lambda>sgs.
                    bindE (read_public_key pf fs pk_arg) (\<lambda>pk. Inr (sgs, pk))) of
                 Inl e \<Rightarrow> (Inl e, fs)
               | Inr (sgs, pk) \<Rightarrow>
                   bindS (verify_file pf p fmt expected seal_key_file cp_file sgs pk) (\<lambda>rep.
                     returnS \<lparr>exit_code = (if ok rep then 0 else 1), printed = report_lines rep sgs, complaints = []\<rparr>) fs)"

text \<open>\<open>proof\<close> has no option for a public key.\<close>

definition run_proof ::
  "platform \<Rightarrow> string \<Rightarrow> int \<Rightarrow> string \<Rightarrow> string option \<Rightarrow> string option \<Rightarrow> string option \<Rightarrow> (files, outcome) action" where
  "run_proof pf p s fmt_arg cp_file seal_key_file output fs =
     (case detect_format p fmt_arg of
        Inl e \<Rightarrow> (Inl e, fs)
      | Inr fmt \<Rightarrow>
          if fs p = None then (Inr (missing p), fs)
          else case bindE (read_seal_key fs seal_key_file) (\<lambda>sk. load_anchor pf fs cp_file sk None) of
                 Inl e \<Rightarrow> (Inl e, fs)
               | Inr cpo \<Rightarrow>
                   bindS (proof_of_file pf p fmt s cpo seal_key_file) (\<lambda>proof.
                     case output of
                       Some out \<Rightarrow>
                         bindS (write_text out (proof_save proof)) (\<lambda>_.
                           returnS (succeeding [''proof for seq '' @ dec_int (p_seq proof) @ '' written to '' @ out]))
                     | None \<Rightarrow> bindS (liftS (proof_dumps proof True)) (\<lambda>t. returnS (succeeding [t]))) fs)"

definition run_verify_proof ::
  "platform \<Rightarrow> string \<Rightarrow> string option \<Rightarrow> string option \<Rightarrow> string option \<Rightarrow> string option \<Rightarrow> files \<Rightarrow> outcome result" where
  "run_verify_proof pf proof_file root_arg cp_file pk_arg seal_key_file fs =
     bindE (read_public_key pf fs pk_arg) (\<lambda>pk.
     bindE (verify_proof_file pf fs proof_file root_arg cp_file seal_key_file pk) (\<lambda>good.
     bindE (load_proof_file fs proof_file) (\<lambda>proof.
       Inr (if good
            then succeeding [''OK: record '' @ dec_int (p_seq proof) @ '' is part of the log of '' @
                   dec_int (p_size proof) @ '' record(s)'', ''merkle root: '' @ p_root proof]
            else \<lparr>exit_code = 1, printed = [],
                   complaints = [''FAILED: the proof does not match the trusted root'']\<rparr>))))"

definition run_checkpoint ::
  "platform \<Rightarrow> string \<Rightarrow> string \<Rightarrow> string option \<Rightarrow> string option \<Rightarrow> string option \<Rightarrow> string \<Rightarrow> (files, outcome) action" where
  "run_checkpoint pf p fmt_arg output seal_key_file signing signer fs =
     (case detect_format p fmt_arg of
        Inl e \<Rightarrow> (Inl e, fs)
      | Inr fmt \<Rightarrow>
          if fs p = None then (Inr (missing p), fs)
          else bindS (checkpoint_file pf p fmt output seal_key_file signing signer) (\<lambda>line.
                 returnS (succeeding [line])) fs)"

definition run_command :: "platform \<Rightarrow> bytes \<Rightarrow> command \<Rightarrow> (files, outcome) action" where
  "run_command pf seed cmd =
     (case cmd of
        Verify p fmt expected cp_file pk_arg seal_key_file specs \<Rightarrow>
          run_verify pf p fmt expected cp_file pk_arg seal_key_file specs
      | Checkpoint p fmt output seal_key_file signing signer \<Rightarrow>
          run_checkpoint pf p fmt output seal_key_file signing signer
      | Proof p s fmt cp_file seal_key_file output \<Rightarrow> run_proof pf p s fmt cp_file seal_key_file output
      | VerifyProof proof_file root_arg cp_file pk_arg seal_key_file \<Rightarrow>
          (\<lambda>fs. (run_verify_proof pf proof_file root_arg cp_file pk_arg seal_key_file fs, fs))
      | Keygen private_out public_out force \<Rightarrow> keygen pf seed private_out public_out force)"

definition cli_main :: "platform \<Rightarrow> bytes \<Rightarrow> command \<Rightarrow> files \<Rightarrow> outcome \<times> files" where
  "cli_main pf seed cmd fs =
     (case run_command pf seed cmd fs of
        (Inl e, fs') \<Rightarrow> (failing (pf_exn_str pf) e, fs')
      | (Inr res, fs') \<Rightarrow> (res, fs'))"

end
