(* ===== verification/Cli_Args.thy ===== *)
theory Cli_Args
  imports Cli
begin

text \<open>
  \<open>main\<close> in \<open>__main__.py\<close>: the parsers it declares, and how \<open>argparse\<close> reads a command line with them. The
  declarations are data (\<open>verify_options\<close> and so on), read by one parser as in CPython 3.10 to 3.13: options by
  their name or an unambiguous start of it, a value after \<open>=\<close> or as the next argument, options and operand in
  any order. \<open>Unsettled\<close> marks the few command lines on which these releases differ, or whose digits lie outside
  ASCII. The text of help and usage messages is left out.
\<close>

section \<open>Values\<close>

datatype 'a parse = Usage | Help | Unsettled | Parsed 'a

fun bindP :: "'a parse \<Rightarrow> ('a \<Rightarrow> 'b parse) \<Rightarrow> 'b parse" where
  "bindP (Parsed x) f = f x"
| "bindP Usage f = Usage"
| "bindP Help f = Help"
| "bindP Unsettled f = Unsettled"

text \<open>\<open>str(Path(s))\<close> on POSIX: empty components and \<open>.\<close> are dropped, two leading slashes are kept.\<close>

fun split_on :: "char \<Rightarrow> string \<Rightarrow> string list" where
  "split_on c [] = [[]]"
| "split_on c (d # s) =
     (if d = c then [] # split_on c s
      else case split_on c s of w # ws \<Rightarrow> (d # w) # ws | [] \<Rightarrow> [[d]])"

fun join_with :: "char \<Rightarrow> string list \<Rightarrow> string" where
  "join_with c [] = []"
| "join_with c [w] = w"
| "join_with c (w # v # ws) = w @ c # join_with c (v # ws)"

definition path_root :: "string \<Rightarrow> string" where
  "path_root s =
     (let k = length (takeWhile (\<lambda>c. c = CHR ''/'') s)
      in if k = 0 then [] else if k = 2 then ''//'' else ''/'')"

definition path_of :: "string \<Rightarrow> string" where
  "path_of s =
     (let t = path_root s @ join_with CHR ''/'' (filter (\<lambda>w. w \<noteq> [] \<and> w \<noteq> ''.'') (split_on CHR ''/'' s))
      in if t = [] then ''.'' else t)"

text \<open>
  \<open>int(s)\<close> on ASCII text: white space around, a sign, digits with single underscores between them. Later
  releases refuse more than 4300 digits.
\<close>

definition trim :: "string \<Rightarrow> string" where
  "trim s = rev (dropWhile is_ascii_space (rev (dropWhile is_ascii_space s)))"

definition grouped :: "string \<Rightarrow> bool" where
  "grouped s \<longleftrightarrow>
     s \<noteq> [] \<and> list_all (\<lambda>c. is_digit c \<or> c = CHR ''_'') s \<and> hd s \<noteq> CHR ''_'' \<and> last s \<noteq> CHR ''_'' \<and>
     list_all (\<lambda>(c, d). \<not> (c = CHR ''_'' \<and> d = CHR ''_'')) (zip s (tl s))"

definition int_of_text :: "string \<Rightarrow> int parse" where
  "int_of_text s =
     (if \<not> is_ascii s then Unsettled
      else
        let t = trim s;
            (negative, body) =
              (case t of
                 c # r \<Rightarrow> if c = CHR ''-'' then (True, r) else if c = CHR ''+'' then (False, r) else (False, t)
               | [] \<Rightarrow> (False, t));
            digits = filter is_digit body
        in if \<not> grouped body then Usage
           else if length digits > 4300 then Unsettled
           else Parsed (if negative then - int (nat_of_digits digits) else int (nat_of_digits digits)))"

section \<open>Declarations\<close>

text \<open>\<open>type\<close>, \<open>choices\<close> and \<open>action\<close> of an option.\<close>

datatype option_kind =
    Plain | PathName | Whole | OneOf "string list" | Repeated | Flag | ShowHelp

record option_decl =
  names :: "string list"
  kind :: option_kind
  required :: bool

record command_decl =
  operand :: bool
  options :: "option_decl list"

abbreviation opt :: "string \<Rightarrow> option_kind \<Rightarrow> option_decl" where
  "opt n k \<equiv> \<lparr>names = [n], kind = k, required = False\<rparr>"

definition help_option :: option_decl where
  "help_option = \<lparr>names = [''-h'', ''--help''], kind = ShowHelp, required = False\<rparr>"

definition formats :: option_kind where
  "formats = OneOf [''auto'', ''jsonl'', ''sqlite'']"

definition verify_options :: command_decl where
  "verify_options =
     \<lparr>operand = True,
      options =
        [help_option, opt ''--format'' formats, opt ''--expected-count'' Whole, opt ''--checkpoint'' PathName,
         opt ''--public-key'' Plain, opt ''--seal-key-file'' PathName, opt ''--signer'' Repeated]\<rparr>"

definition checkpoint_options :: command_decl where
  "checkpoint_options =
     \<lparr>operand = True,
      options =
        [help_option, opt ''--format'' formats, opt ''--output'' PathName, opt ''--seal-key-file'' PathName,
         opt ''--signing-key'' Plain, opt ''--signer-id'' Plain]\<rparr>"

definition proof_options :: command_decl where
  "proof_options =
     \<lparr>operand = True,
      options =
        [help_option, \<lparr>names = [''--seq''], kind = Whole, required = True\<rparr>, opt ''--format'' formats,
         opt ''--checkpoint'' PathName, opt ''--seal-key-file'' PathName, opt ''--output'' PathName]\<rparr>"

definition verify_proof_options :: command_decl where
  "verify_proof_options =
     \<lparr>operand = True,
      options =
        [help_option, opt ''--root'' Plain, opt ''--checkpoint'' PathName, opt ''--public-key'' Plain,
         opt ''--seal-key-file'' PathName]\<rparr>"

definition keygen_options :: command_decl where
  "keygen_options =
     \<lparr>operand = False,
      options =
        [help_option, opt ''--private-out'' PathName, opt ''--public-out'' PathName, opt ''--force'' Flag]\<rparr>"

section \<open>Reading the arguments\<close>

text \<open>What an argument is to a parser: an operand or value, an option with the value after its \<open>=\<close>, or neither.\<close>

datatype reading = Operand | Known option_decl "string option" | Ambiguous | Unknown

definition spellings :: "option_decl list \<Rightarrow> (string \<times> option_decl) list" where
  "spellings ds = concat (map (\<lambda>d. map (\<lambda>n. (n, d)) (names d)) ds)"

definition split_value :: "string \<Rightarrow> string \<times> string option" where
  "split_value a =
     (case dropWhile (\<lambda>c. c \<noteq> CHR ''='') a of
        [] \<Rightarrow> (a, None)
      | _ # v \<Rightarrow> (takeWhile (\<lambda>c. c \<noteq> CHR ''='') a, Some v))"

definition starts_with :: "string \<Rightarrow> string \<Rightarrow> bool" where
  "starts_with p s = (strip_prefix p s \<noteq> None)"

text \<open>The expression \<open>^-\d+$|^-\d*\.\d+$\<close>, whose \<open>$\<close> allows for a newline at the end.\<close>

definition negative_number :: "string \<Rightarrow> bool" where
  "negative_number a =
     (case a of
        [] \<Rightarrow> False
      | c # s \<Rightarrow>
          c = CHR ''-'' \<and>
          (let t = (if s \<noteq> [] \<and> last s = char_of (10 :: nat) then butlast s else s);
               r = dropWhile is_digit t
           in t \<noteq> [] \<and>
              (case r of [] \<Rightarrow> True | d # f \<Rightarrow> d = CHR ''.'' \<and> f \<noteq> [] \<and> list_all is_digit f)))"

definition classify :: "option_decl list \<Rightarrow> string \<Rightarrow> reading" where
  "classify ds a =
     (if \<not> starts_with ''-'' a then Operand
      else
        case map_of (spellings ds) a of
          Some d \<Rightarrow> Known d None
        | None \<Rightarrow>
            if a = ''-'' then Operand
            else
              let (n, v) = split_value a
              in case (v, map_of (spellings ds) n) of
                   (Some t, Some d) \<Rightarrow> Known d v
                 | _ \<Rightarrow>
                     (case filter (\<lambda>(m, d). starts_with ''--'' a \<and> starts_with n m) (spellings ds) of
                        [(m, d)] \<Rightarrow> Known d v
                      | _ # _ # _ \<Rightarrow> Ambiguous
                      | [] \<Rightarrow> if negative_number a \<or> CHR '' '' \<in> set a then Operand else Unknown))"

text \<open>Arguments that every release reads in this way.\<close>

definition settled :: "string \<Rightarrow> bool" where
  "settled a \<longleftrightarrow>
     a \<noteq> ''--'' \<and> \<not> (starts_with ''-h'' a \<and> a \<noteq> ''-h'') \<and>
     \<not> (starts_with ''-'' a \<and> \<not> starts_with ''--'' a \<and> \<not> is_ascii a)"

text \<open>What has been read: the operand, the values of the options in their order, and whether anything was left over.\<close>

datatype arg = ArgText string | ArgWhole int | ArgSet

record namespace =
  operand_given :: "string option"
  given :: "(string \<times> arg) list"
  left_over :: bool

definition nothing_given :: namespace where
  "nothing_given = \<lparr>operand_given = None, given = [], left_over = False\<rparr>"

definition option_name :: "option_decl \<Rightarrow> string" where
  "option_name d = last (names d)"

definition convert :: "option_kind \<Rightarrow> string \<Rightarrow> arg parse" where
  "convert k t =
     (case k of
        PathName \<Rightarrow> Parsed (ArgText (path_of t))
      | Whole \<Rightarrow> bindP (int_of_text t) (\<lambda>i. Parsed (ArgWhole i))
      | OneOf cs \<Rightarrow> if t \<in> set cs then Parsed (ArgText t) else Usage
      | _ \<Rightarrow> Parsed (ArgText t))"

definition store_value :: "option_decl \<Rightarrow> string \<Rightarrow> namespace \<Rightarrow> namespace parse" where
  "store_value d t g =
     bindP (convert (kind d) t) (\<lambda>v. Parsed (g\<lparr>given := given g @ [(option_name d, v)]\<rparr>))"

function read_args :: "command_decl \<Rightarrow> string list \<Rightarrow> namespace \<Rightarrow> namespace parse" where
  "read_args c [] g = Parsed g"
| "read_args c (a # as) g =
     (case classify (options c) a of
        Operand \<Rightarrow>
          if operand c \<and> operand_given g = None then read_args c as (g\<lparr>operand_given := Some (path_of a)\<rparr>)
          else read_args c as (g\<lparr>left_over := True\<rparr>)
      | Unknown \<Rightarrow> read_args c as (g\<lparr>left_over := True\<rparr>)
      | Ambiguous \<Rightarrow> Usage
      | Known d v \<Rightarrow>
          (case kind d of
             ShowHelp \<Rightarrow> if v = None then Help else Usage
           | Flag \<Rightarrow>
               if v = None then read_args c as (g\<lparr>given := given g @ [(option_name d, ArgSet)]\<rparr>) else Usage
           | _ \<Rightarrow>
               (case v of
                  Some t \<Rightarrow> bindP (store_value d t g) (read_args c as)
                | None \<Rightarrow>
                    (case as of
                       [] \<Rightarrow> Usage
                     | b # bs \<Rightarrow>
                         if classify (options c) b = Operand then bindP (store_value d b g) (read_args c bs)
                         else Usage))))"
  by pat_completeness auto
termination by (relation "measure (\<lambda>(c, as, g). length as)") auto

text \<open>At the end a required option or an operand may be missing, and an argument may be left over.\<close>

definition complete :: "command_decl \<Rightarrow> namespace \<Rightarrow> bool" where
  "complete c g \<longleftrightarrow>
     \<not> left_over g \<and> (operand c \<longrightarrow> operand_given g \<noteq> None) \<and>
     list_all (\<lambda>d. required d \<longrightarrow> option_name d \<in> set (map fst (given g))) (options c)"

definition parse_command :: "command_decl \<Rightarrow> string list \<Rightarrow> namespace parse" where
  "parse_command c as =
     (case read_args c as nothing_given of
        Parsed g \<Rightarrow> if complete c g then Parsed g else Usage
      | Help \<Rightarrow> if list_ex (\<lambda>a. classify (options c) a = Ambiguous) as then Unsettled else Help
      | r \<Rightarrow> r)"

section \<open>The commands\<close>

text \<open>Of an option given several times the last value counts, except for the repeated one.\<close>

definition texts_of :: "namespace \<Rightarrow> string \<Rightarrow> string list" where
  "texts_of g n = concat (map (\<lambda>(m, v). case v of ArgText t \<Rightarrow> if m = n then [t] else [] | _ \<Rightarrow> []) (given g))"

definition wholes_of :: "namespace \<Rightarrow> string \<Rightarrow> int list" where
  "wholes_of g n = concat (map (\<lambda>(m, v). case v of ArgWhole i \<Rightarrow> if m = n then [i] else [] | _ \<Rightarrow> []) (given g))"

definition final :: "'a list \<Rightarrow> 'a option" where
  "final xs = (if xs = [] then None else Some (last xs))"

definition or_else :: "'a option \<Rightarrow> 'a \<Rightarrow> 'a" where
  "or_else x d = (case x of None \<Rightarrow> d | Some y \<Rightarrow> y)"

definition text_of :: "namespace \<Rightarrow> string \<Rightarrow> string option" where
  "text_of g n = final (texts_of g n)"

definition whole_of :: "namespace \<Rightarrow> string \<Rightarrow> int option" where
  "whole_of g n = final (wholes_of g n)"

definition operand_of :: "namespace \<Rightarrow> string" where
  "operand_of g = or_else (operand_given g) []"

definition verify_args :: "namespace \<Rightarrow> command" where
  "verify_args g =
     Verify (operand_of g) (or_else (text_of g ''--format'') ''auto'') (whole_of g ''--expected-count'')
       (text_of g ''--checkpoint'') (text_of g ''--public-key'') (text_of g ''--seal-key-file'')
       (texts_of g ''--signer'')"

definition checkpoint_args :: "namespace \<Rightarrow> command" where
  "checkpoint_args g =
     Checkpoint (operand_of g) (or_else (text_of g ''--format'') ''auto'') (text_of g ''--output'')
       (text_of g ''--seal-key-file'') (text_of g ''--signing-key'') (or_else (text_of g ''--signer-id'') ''s0'')"

definition proof_args :: "namespace \<Rightarrow> command" where
  "proof_args g =
     Proof (operand_of g) (or_else (whole_of g ''--seq'') 0) (or_else (text_of g ''--format'') ''auto'')
       (text_of g ''--checkpoint'') (text_of g ''--seal-key-file'') (text_of g ''--output'')"

definition verify_proof_args :: "namespace \<Rightarrow> command" where
  "verify_proof_args g =
     VerifyProof (operand_of g) (text_of g ''--root'') (text_of g ''--checkpoint'') (text_of g ''--public-key'')
       (text_of g ''--seal-key-file'')"

definition keygen_args :: "namespace \<Rightarrow> command" where
  "keygen_args g =
     Keygen (or_else (text_of g ''--private-out'') ''auditchain-signing.key'')
       (or_else (text_of g ''--public-out'') ''auditchain-signing.pub'') (''--force'' \<in> set (map fst (given g)))"

definition subcommands :: "(string \<times> command_decl \<times> (namespace \<Rightarrow> command)) list" where
  "subcommands =
     [(''verify'', verify_options, verify_args), (''checkpoint'', checkpoint_options, checkpoint_args),
      (''proof'', proof_options, proof_args), (''verify-proof'', verify_proof_options, verify_proof_args),
      (''keygen'', keygen_options, keygen_args)]"

text \<open>The main parser has no option but help, and hands what follows the command to its parser.\<close>

fun read_command :: "string list \<Rightarrow> command parse" where
  "read_command [] = Usage"
| "read_command (a # as) =
     (case classify [help_option] a of
        Operand \<Rightarrow>
          (case map_of subcommands a of
             None \<Rightarrow> Usage
           | Some (c, build) \<Rightarrow> bindP (parse_command c as) (\<lambda>g. Parsed (build g)))
      | Known d v \<Rightarrow> if v = None then Help else Usage
      | Ambiguous \<Rightarrow> Usage
      | Unknown \<Rightarrow> (case read_command as of Parsed c \<Rightarrow> Usage | r \<Rightarrow> r))"

definition parse_args :: "string list \<Rightarrow> command parse" where
  "parse_args argv = (if list_all settled argv then read_command argv else Unsettled)"

text \<open>
  \<open>main\<close>: the exit code and the files afterwards. \<open>parse_args\<close> ends the program with code 2 when it cannot read
  the command line and with code 0 after help; nothing is known of an unsettled one.
\<close>

definition main :: "platform \<Rightarrow> bytes \<Rightarrow> string list \<Rightarrow> files \<Rightarrow> (int \<times> files) option" where
  "main pf seed argv fs =
     (case parse_args argv of
        Parsed cmd \<Rightarrow> (case cli_main pf seed cmd fs of (res, fs') \<Rightarrow> Some (exit_code res, fs'))
      | Usage \<Rightarrow> Some (2, fs)
      | Help \<Rightarrow> Some (0, fs)
      | Unsettled \<Rightarrow> None)"

end
