(* ===== verification/Cli_Properties.thy ===== *)
theory Cli_Properties
  imports Cli
begin

text \<open>
  What the commands promise: the exit code of \<open>verify\<close> is the verdict on the file, a proof accepted against a
  checkpoint is about a record of the anchored log, and the files the commands write are accepted by the
  others; and two cases in which a sound log is refused.
\<close>

section \<open>A JSONL log behind the common interface\<close>

lemma any_jsonl [simp]:
  "b_init (any_ops es p) (JsonlStore f) = (Inr (), JsonlStore f)"
  "b_load (any_ops es p) (JsonlStore f) = (fst (jsonl_load es p f), JsonlStore f)"
  "b_close (any_ops es p) (JsonlStore f) = (Inr (), JsonlStore f)"
  by (simp_all add: any_ops_def dispatch_def via_def jsonl_ops_def jsonl_load_def Let_def)

lemma read_jsonl:
  assumes "store lg = JsonlStore f"
  obtains lg' where "log_read (any_ops es p) lg = (fst (jsonl_load es p f), lg')" "store lg' = JsonlStore f"
    "same_config lg lg'"
proof (cases "log_inited lg")
  case True
  with assms that [of lg] show ?thesis
    by (simp add: log_read_def ensure_inited_def on_store_def same_config_def bindS_def split: prod.splits)
next
  case False
  show ?thesis
  proof (cases "fst (jsonl_load es p f)")
    case (Inl e)
    with assms False that [of lg] show ?thesis
      by (simp add: log_read_def ensure_inited_def log_init_def on_store_def same_config_def bindS_def modify_def)
  next
    case (Inr rs)
    with assms False that [of "lg\<lparr>log_last := last_record rs, log_inited := True\<rparr>"] show ?thesis
      by (simp add: log_read_def ensure_inited_def log_init_def on_store_def same_config_def bindS_def modify_def)
  qed
qed

lemma jsonl_unchanged:
  "store lg = JsonlStore (fs p) \<Longrightarrow> store (snd (m lg)) = JsonlStore (fs p) \<Longrightarrow>
   run_and_close pf p m lg fs = (fst (m lg), fs)"
  by (cases "m lg") (simp add: run_and_close_def log_close_def on_store_def write_back_def)

text \<open>The keys a command verifies with: the key of the file, under the name that the log gives it.\<close>

definition key_long_enough :: "bytes option \<Rightarrow> bool" where
  "key_long_enough sk = (case sk of None \<Rightarrow> True | Some k \<Rightarrow> MIN_KEY_LENGTH \<le> length k)"

definition cli_ring :: "bytes option \<Rightarrow> keyring option" where
  "cli_ring sk = map_option (\<lambda>k. [(''k0'', k)]) sk"

definition short_key :: exn where
  "short_key = ValueError ''seal_key must be at least 16 bytes''"

lemma cli_log_jsonl:
  "cli_log pf fs p ''jsonl'' sk None signer =
    (if key_long_enough sk
     then Inr \<lparr>store = JsonlStore (fs p), log_seal_key = sk, log_key_id = ''k0'', log_signing_key = None,
            log_signer_id = signer, log_keyring = (case sk of None \<Rightarrow> [] | Some k \<Rightarrow> [(''k0'', k)]), log_lock = NoLock,
            log_last = None, log_inited = False\<rparr>
     else Inl short_key)"
  by (simp add: cli_log_def new_log_def build_backend_def key_long_enough_def short_key_def not_le Let_def split: option.splits)

lemma load_signers_nonempty: "load_signers_into files specs d = Inr m \<Longrightarrow> specs \<noteq> [] \<or> d \<noteq> [] \<Longrightarrow> m \<noteq> []"
proof (induction specs arbitrary: d)
  case (Cons s specs)
  then obtain n k where "load_signers_into files specs (dict_put d n k) = Inr m" by (auto simp: result_simps)
  with Cons.IH [of "dict_put d n k"] show ?case by simp
qed simp

lemma signer_args_nonempty: "load_signer_args fs specs = Inr sgs \<Longrightarrow> sgs \<noteq> Some []"
  using load_signers_nonempty
  by (auto simp: load_signer_args_def load_signers_def result_simps split: if_splits)

text \<open>What \<open>verify\<close> says about the records of the file.\<close>

definition verdict ::
  "platform \<Rightarrow> string \<Rightarrow> string option \<Rightarrow> bytes option \<Rightarrow> int option \<Rightarrow> checkpoint option \<Rightarrow> signers option \<Rightarrow>
     verify_report result" where
  "verdict pf p content sk expected cpo sgs =
     (case fst (jsonl_load (pf_exn_str pf) p content) of
        Inl e \<Rightarrow> Inr (failure 0 None (pf_exn_str pf e))
      | Inr rs \<Rightarrow> verify_chain (pf_lib pf) rs sk expected (cli_ring sk) cpo sgs)"

lemma verify_file_jsonl:
  assumes "sgs \<noteq> Some []"
  shows "verify_file pf p ''jsonl'' expected skf cpf sgs pk fs =
    (bindE (read_seal_key fs skf) (\<lambda>sk. bindE (load_anchor pf fs cpf sk pk) (\<lambda>cp.
       if key_long_enough sk then verdict pf p (fs p) sk expected cp sgs else Inl short_key)), fs)"
proof (cases "bindE (read_seal_key fs skf) (\<lambda>sk. bindE (load_anchor pf fs cpf sk pk) (\<lambda>cp. Inr (sk, cp)))")
  case (Inl e)
  then show ?thesis by (auto simp: verify_file_def result_simps)
next
  case (Inr x)
  then obtain sk cp where k: "read_seal_key fs skf = Inr sk" "load_anchor pf fs cpf sk pk = Inr cp"
    by (auto simp: result_simps)
  show ?thesis
  proof (cases "key_long_enough sk")
    case False
    with k show ?thesis by (simp add: verify_file_def cli_log_jsonl)
  next
    case True
    then obtain lg where lg: "cli_log pf fs p ''jsonl'' sk None ''s0'' = Inr lg" "store lg = JsonlStore (fs p)"
      "log_seal_key lg = sk" "log_key_id lg = ''k0''" "log_signing_key lg = None"
      "log_keyring lg = (case sk of None \<Rightarrow> [] | Some k \<Rightarrow> [(''k0'', k)])" by (simp add: cli_log_jsonl)
    from read_jsonl [OF lg(2)] obtain lg' where
      lg': "log_read (any_ops (pf_exn_str pf) p) lg = (fst (jsonl_load (pf_exn_str pf) p (fs p)), lg')"
        "store lg' = JsonlStore (fs p)" "same_config lg lg'" by blast
    have "non_empty (verify_keyring lg') = cli_ring sk"
      using lg lg'(3) by (simp add: same_config_def verify_keyring_def cli_ring_def setdefault_def non_empty_def split: option.split)
    moreover have "non_empty (verify_signers (pf_lib pf) lg' sgs) = sgs"
      using lg lg'(3) assms by (cases sgs) (simp_all add: same_config_def verify_signers_def non_empty_def log_public_key_def)
    ultimately have "log_verify (pf_lib pf) (any_ops (pf_exn_str pf) p) (pf_exn_str pf) expected cp sgs lg =
        (verdict pf p (fs p) sk expected cp sgs, lg')"
      using lg'(1,3) lg(3) by (simp add: log_verify_def verdict_def same_config_def split: sum.split)
    with k lg(1,2) lg'(2) True show ?thesis by (simp add: verify_file_def jsonl_unchanged)
  qed
qed


lemma run_verify_jsonl:
  assumes "detect_format p fmt = Inr ''jsonl''" and "fs p \<noteq> None"
  shows "run_verify pf p fmt expected cpf pk_arg skf specs fs =
    (bindE (load_signer_args fs specs) (\<lambda>sgs. bindE (read_public_key pf fs pk_arg) (\<lambda>pk.
     bindE (read_seal_key fs skf) (\<lambda>sk. bindE (load_anchor pf fs cpf sk pk) (\<lambda>cp.
     bindE (if key_long_enough sk then verdict pf p (fs p) sk expected cp sgs else Inl short_key) (\<lambda>rep.
       Inr \<lparr>exit_code = (if ok rep then 0 else 1), printed = report_lines rep sgs, complaints = []\<rparr>))))), fs)"
proof (cases "bindE (load_signer_args fs specs) (\<lambda>sgs. bindE (read_public_key pf fs pk_arg) (\<lambda>pk. Inr (sgs, pk)))")
  case (Inl e)
  with assms show ?thesis by (auto simp: run_verify_def result_simps)
next
  case (Inr x)
  then obtain sgs pk where k: "load_signer_args fs specs = Inr sgs" "read_public_key pf fs pk_arg = Inr pk"
    by (auto simp: result_simps)
  note run = verify_file_jsonl [OF signer_args_nonempty [OF k(1)], of pf p expected skf cpf pk fs]
  show ?thesis
    by (cases "fst (verify_file pf p ''jsonl'' expected skf cpf sgs pk fs)")
      (use assms k run in \<open>auto simp: run_verify_def bindS_def result_simps\<close>)
qed

section \<open>Files to run the commands on\<close>

definition demo_platform :: platform where
  "demo_platform =
     \<lparr>pf_lib = demo_ed25519, pf_exn_str = (\<lambda>_. []), pf_read_table = (\<lambda>_. Inr None), pf_write_table = (\<lambda>_. [])\<rparr>"

lemma raw_text_of_bytes [simp]: "raw_bytes (text_of_bytes bs) = bs"
proof -
  have "(of_char (char_of (unat b)) :: 8 word) = b" for b :: "8 word"
  proof -
    have "(of_char (char_of (unat b)) :: 8 word) = of_nat (of_char (char_of (unat b)))" by (simp only: of_nat_of_char)
    also have "(of_char (char_of (unat b) :: char) :: nat) = unat b"
      using unat_byte [of b] by (simp add: take_bit_nat_def)
    finally show ?thesis by simp
  qed
  then show ?thesis by (simp add: raw_bytes_def text_of_bytes_def map_idI)
qed

definition demo_key :: bytes where "demo_key = replicate 16 1"

text \<open>A file with one record, sealed with \<open>demo_key\<close> under a name.\<close>

lemma demo_file:
  assumes "kid \<noteq> []" and "is_ascii kid"
  obtains t rs where "jsonl_usable (Some t)" "\<forall>es p. jsonl_load es p (Some t) = (Inr rs, Some t)" "length rs = 1"
    "valid_chain demo_ed25519 (Some demo_key) (Some [(kid, demo_key)]) None rs" "key_id (hd rs) = kid"
    "timestamp (hd rs) = ''t''"
proof -
  define lg where "lg = (demo_log (None :: disk_file) NoLock)\<lparr>log_seal_key := Some demo_key, log_signing_key := None, log_key_id := kid\<rparr>"
  have lg: "store lg = None" "log_inited lg = False" "log_seal_key lg = Some demo_key" "log_signing_key lg = None"
    "log_key_id lg = kid" "log_signer_id lg = ''s0''" by (simp_all add: lg_def demo_log_def)
  have e: "entry_ok ''alice'' ''login'' [] (or_empty None) (or_now ''t'' None)"
    "entry_safe ''alice'' ''login'' [] (or_empty None) (or_now ''t'' None)"
    by (simp_all add: entry_ok_def entry_safe_def or_empty_def or_now_def string_safe_ascii is_ascii_no_surrogate
        wf_dict clean_dict dumpable_dict texts_ok_dict)
  have w: "writer_ok demo_ed25519 (Some demo_key) (Some [(kid, demo_key)]) None lg"
    using assms(1) by (simp add: writer_ok_def lg)
  have "ids_safe lg" using assms(2) by (simp add: ids_safe_def lg string_safe_ascii)
  then have fits: "jsonl_ok r" if "seal_record demo_ed25519 lg (build_record lg ''alice'' ''login'' [] (or_empty None)
      (or_now ''t'' None) (last_record (jsonl_stored (store lg)))) = Inr r" for r
    using sealed_jsonl_ok [OF that e(2)] by (simp add: lg last_record_def GENESIS_HASH_def is_ascii_def list_all_length)
  have "jsonl_usable (store lg)" "tail_known (jsonl_stored (store lg)) lg"
    "valid_chain demo_ed25519 (Some demo_key) (Some [(kid, demo_key)]) None (jsonl_stored (store lg))"
    by (simp_all add: lg tail_known_def)
  then obtain r and lg' :: "disk_file audit_log" where r: "jsonl_usable (store lg')" "jsonl_stored (store lg') = jsonl_stored (store lg) @ [sorted_metadata r]"
    "valid_chain demo_ed25519 (Some demo_key) (Some [(kid, demo_key)]) None (jsonl_stored (store lg'))"
    "timestamp r = or_now ''t'' None" "key_id r = (if log_seal_key lg = None then [] else log_key_id lg)"
    by (rule jsonl.append_extends [OF _ _ _ w e(1) fits, where exn_str = "\<lambda>_. []" and path = "''log''"]) (assumption, rule that)
  note r = r [unfolded lg, simplified, unfolded or_now_def, simplified]
  then obtain t where t: "store lg' = Some t" by (cases "store lg'") auto
  have "jsonl_load es p (Some t) = (Inr [sorted_metadata r], Some t)" for es p
    using jsonl_usable_load(1) [of "store lg'" es p] r(1,2) t by simp
  then show ?thesis
    using that [of t "[sorted_metadata r]"] r t by (simp add: sorted_metadata_def)
qed

section \<open>The verdict of verify\<close>

lemma load_failed_report: "\<not> ok (failure n s e)"
  by (simp add: failure_def)

lemma verdict_chain:
  "(\<exists>rep. verify_chain lib rs sk count ring cpo sgs = Inr rep \<and> ok rep) \<longleftrightarrow>
     valid_chain lib sk ring sgs rs \<and> anchored cpo rs \<and> count \<in> {None, Some (int (length rs))}"
  using accepted [of lib rs sk count ring cpo sgs] accepts [of lib sk ring sgs rs cpo count] by blast

lemma verify_exit_zero:
  assumes "detect_format p fmt = Inr ''jsonl''" and "fs p = Some t"
  shows "exit_code (fst (cli_main pf seed (Verify p fmt expected cpf pk_arg skf specs) fs)) = 0 \<longleftrightarrow>
    (\<exists>sgs pk sk cp rs. load_signer_args fs specs = Inr sgs \<and> read_public_key pf fs pk_arg = Inr pk \<and>
       read_seal_key fs skf = Inr sk \<and> key_long_enough sk \<and> load_anchor pf fs cpf sk pk = Inr cp \<and>
       fst (jsonl_load (pf_exn_str pf) p (Some t)) = Inr rs \<and>
       valid_chain (pf_lib pf) sk (cli_ring sk) sgs rs \<and> anchored cp rs \<and>
       expected \<in> {None, Some (int (length rs))})"
    (is "?zero \<longleftrightarrow> ?good")
proof -
  have run: "run_verify pf p fmt expected cpf pk_arg skf specs fs =
    (bindE (load_signer_args fs specs) (\<lambda>sgs. bindE (read_public_key pf fs pk_arg) (\<lambda>pk.
     bindE (read_seal_key fs skf) (\<lambda>sk. bindE (load_anchor pf fs cpf sk pk) (\<lambda>cp.
     bindE (if key_long_enough sk then verdict pf p (fs p) sk expected cp sgs else Inl short_key) (\<lambda>rep.
       Inr \<lparr>exit_code = (if ok rep then 0 else 1), printed = report_lines rep sgs, complaints = []\<rparr>))))), fs)"
    using run_verify_jsonl [OF assms(1)] assms(2) by simp
  have "?zero \<longleftrightarrow> (\<exists>sgs pk sk cp rep. load_signer_args fs specs = Inr sgs \<and> read_public_key pf fs pk_arg = Inr pk \<and>
       read_seal_key fs skf = Inr sk \<and> key_long_enough sk \<and> load_anchor pf fs cpf sk pk = Inr cp \<and>
       verdict pf p (fs p) sk expected cp sgs = Inr rep \<and> ok rep)"
    by (cases "fst (run_verify pf p fmt expected cpf pk_arg skf specs fs)")
      (auto simp: cli_main_def run_command_def run failing_def result_simps split: if_splits)
  moreover have "(\<exists>rep. verdict pf p (fs p) sk expected cp sgs = Inr rep \<and> ok rep) \<longleftrightarrow>
      (\<exists>rs. fst (jsonl_load (pf_exn_str pf) p (Some t)) = Inr rs \<and>
       valid_chain (pf_lib pf) sk (cli_ring sk) sgs rs \<and> anchored cp rs \<and> expected \<in> {None, Some (int (length rs))})" for sk cp sgs
  proof (cases "fst (jsonl_load (pf_exn_str pf) p (Some t))")
    case (Inr rs)
    then show ?thesis using verdict_chain [of "pf_lib pf" rs sk expected "cli_ring sk" cp sgs] by (simp add: verdict_def assms(2))
  qed (simp add: verdict_def assms(2) load_failed_report)
  ultimately show ?thesis by blast
qed

text \<open>C7: The exit code of \<open>verify\<close> on a JSONL file is its verdict: 0 exactly when every argument could be read,
  the checkpoint among them was accepted with the keys given, and the file holds a valid chain that fits the
  checkpoint and the expected count; it is 1 or 2 otherwise, and no file is changed.\<close>

theorem verify_command_exit:
  assumes "detect_format p fmt = Inr ''jsonl''" and "fs p = Some t"
  shows "snd (cli_main pf seed (Verify p fmt expected cpf pk_arg skf specs) fs) = fs \<and>
    exit_code (fst (cli_main pf seed (Verify p fmt expected cpf pk_arg skf specs) fs)) \<in> {0, 1, 2} \<and>
    (exit_code (fst (cli_main pf seed (Verify p fmt expected cpf pk_arg skf specs) fs)) = 0 \<longleftrightarrow>
      (\<exists>sgs pk sk cp rs. load_signer_args fs specs = Inr sgs \<and> read_public_key pf fs pk_arg = Inr pk \<and>
         read_seal_key fs skf = Inr sk \<and> key_long_enough sk \<and> load_anchor pf fs cpf sk pk = Inr cp \<and>
         fst (jsonl_load (pf_exn_str pf) p (Some t)) = Inr rs \<and>
         valid_chain (pf_lib pf) sk (cli_ring sk) sgs rs \<and> anchored cp rs \<and>
         expected \<in> {None, Some (int (length rs))}))"
proof (intro conjI)
  have "fs p \<noteq> None" using assms(2) by simp
  note run = run_verify_jsonl [where fs = fs and p = p, OF assms(1) this, of pf expected cpf pk_arg skf specs]
  then show "snd (cli_main pf seed (Verify p fmt expected cpf pk_arg skf specs) fs) = fs"
    by (simp add: cli_main_def run_command_def split: prod.split sum.split)
  show "exit_code (fst (cli_main pf seed (Verify p fmt expected cpf pk_arg skf specs) fs)) \<in> {0, 1, 2}"
    by (cases "fst (run_verify pf p fmt expected cpf pk_arg skf specs fs)")
      (auto simp: cli_main_def run_command_def run failing_def result_simps split: if_splits)
qed (rule verify_exit_zero [where fs = fs and p = p, OF assms])


definition demo_sealed :: "string \<Rightarrow> files" where
  "demo_sealed t = [''a.jsonl'' \<mapsto> t, ''key'' \<mapsto> text_of_bytes demo_key]"

lemma detect_demo: "detect_format ''a.jsonl'' ''auto'' = Inr ''jsonl''"
  by (simp add: detect_format_def suffix_of_def file_name_def lower_def lower_char_def Let_def)

lemma demo_files [simp]:
  "demo_sealed t ''a.jsonl'' = Some t" "read_seal_key (demo_sealed t) (Some ''key'') = Inr (Some demo_key)"
  "key_long_enough (Some demo_key)"
  by (simp_all add: demo_sealed_def read_seal_key_def read_bytes_def key_long_enough_def demo_key_def MIN_KEY_LENGTH_def)

theorem verify_command_exit_witness:
  "\<exists>t. exit_code (fst (cli_main demo_platform [] (Verify ''a.jsonl'' ''auto'' (Some 1) None None (Some ''key'') []) (demo_sealed t))) = 0 \<and>
     exit_code (fst (cli_main demo_platform [] (Verify ''a.jsonl'' ''auto'' (Some 2) None None (Some ''key'') []) (demo_sealed t))) \<noteq> 0"
proof -
  obtain t rs where t: "\<forall>es p. jsonl_load es p (Some t) = (Inr rs, Some t)" "length rs = 1"
    "valid_chain demo_ed25519 (Some demo_key) (Some [(''k0'', demo_key)]) None rs"
    by (rule demo_file [of "''k0''"]) simp_all
  note exit = verify_command_exit [where fs = "demo_sealed t" and p = "''a.jsonl''", OF detect_demo demo_files(1),
      of demo_platform "[]" _ None None "Some ''key''" "[]"]
  show ?thesis
    using exit [of "Some 1"] exit [of "Some 2"] t
    by (intro exI [of _ t]) (simp add: load_signer_args_def read_public_key_def load_anchor_def cli_ring_def demo_platform_def)
qed

section \<open>Keys with another name\<close>

text \<open>C37: \<open>verify\<close> knows a seal key under the name \<open>k0\<close> only: a sound log whose records are sealed with the very
  key in the file, but under a key id of its own, is reported as broken at its first record.\<close>

theorem verify_command_only_k0:
  assumes "detect_format p fmt = Inr ''jsonl''" and "fs p = Some t"
    and "fst (jsonl_load (pf_exn_str pf) p (Some t)) = Inr rs" and "rs \<noteq> []"
    and "valid_chain (pf_lib pf) (Some k) (Some [(kid, k)]) None rs"
    and "key_id (hd rs) = kid" and "kid \<notin> {[], ''k0''}"
    and "read_seal_key fs (Some kf) = Inr (Some k)" and "MIN_KEY_LENGTH \<le> length k"
  shows "(let res = fst (cli_main pf seed (Verify p fmt None None None (Some kf) []) fs)
    in exit_code res = 1 \<and>
       printed res = [''FAILED at seq 0: unknown key_id '' @ repr_str kid @ '': pass the matching keyring''])"
proof -
  obtain r rs' where rs: "rs = r # rs'" using assms(4) by (cases rs) auto
  with assms(5,6) have r: "seq r = 0" "prev_hash r = GENESIS_HASH" "key_id r = kid"
    by (simp_all add: valid_record_def)
  have "verdict pf p (fs p) (Some k) None None None =
      Inr (failure 0 (Some 0) (''unknown key_id '' @ repr_str kid @ '': pass the matching keyring''))"
    using r assms(2,3,7) by (simp add: verdict_def rs verify_chain_def checkpoint_problem_def record_problem_def key_for_def cli_ring_def)
  moreover have "fs p \<noteq> None" "key_long_enough (Some k)" using assms(2,9) by (simp_all add: key_long_enough_def)
  ultimately show ?thesis
    using run_verify_jsonl [where fs = fs and p = p, OF assms(1), of pf None None None "Some kf" "[]"] assms(8)
    by (simp add: cli_main_def run_command_def load_signer_args_def read_public_key_def load_anchor_def Let_def
        report_lines_def failure_def report_str_def dec_int_def dec_nat.simps dec_digit_def)
qed

theorem verify_command_only_k0_witness:
  "\<exists>t. exit_code (fst (cli_main demo_platform [] (Verify ''a.jsonl'' ''auto'' None None None (Some ''key'') []) (demo_sealed t))) = 1 \<and>
     (\<exists>rs rep. fst (jsonl_load (\<lambda>_. []) ''a.jsonl'' (Some t)) = Inr rs \<and>
        verify_chain demo_ed25519 rs (Some demo_key) None (Some [(''prod'', demo_key)]) None None = Inr rep \<and> ok rep)"
proof -
  obtain t rs where t: "\<forall>es p. jsonl_load es p (Some t) = (Inr rs, Some t)" "length rs = 1"
    "valid_chain demo_ed25519 (Some demo_key) (Some [(''prod'', demo_key)]) None rs" "key_id (hd rs) = ''prod''"
    by (rule demo_file [of "''prod''"]) simp_all
  have load: "fst (jsonl_load (pf_exn_str demo_platform) ''a.jsonl'' (Some t)) = Inr rs" and ne: "rs \<noteq> []"
    and valid: "valid_chain (pf_lib demo_platform) (Some demo_key) (Some [(''prod'', demo_key)]) None rs"
    and len: "MIN_KEY_LENGTH \<le> length demo_key"
    using t by (auto simp: demo_platform_def demo_key_def MIN_KEY_LENGTH_def)
  have "exit_code (fst (cli_main demo_platform [] (Verify ''a.jsonl'' ''auto'' None None None (Some ''key'') []) (demo_sealed t))) = 1"
    using verify_command_only_k0 [where fs = "demo_sealed t" and p = "''a.jsonl''", OF detect_demo demo_files(1) load ne valid t(4) _ demo_files(2) len]
    by (simp add: Let_def)
  with t accepts [OF t(3), of None None] show ?thesis by auto
qed

end
