(* ===== verification/Cli_Workflow.thy ===== *)
theory Cli_Workflow
  imports Cli_Properties
begin

text \<open>
  The commands together: the files that \<open>keygen\<close>, \<open>checkpoint\<close> and \<open>proof\<close> write are read back as they were
  (\<open>read_plain\<close>), and \<open>verify-proof\<close> and \<open>verify\<close> accept them.
\<close>

section \<open>The files that are written\<close>

definition plain_text :: "string \<Rightarrow> bool" where
  "plain_text s = list_all (\<lambda>c. plain_char c \<or> c = LF) s"

lemma closed_plain_text: "text_closed plain_text"
  by (simp add: text_closed_def plain_text_def)

lemma pretty_closed: "style_closed plain_text pretty"
  by (simp add: style_closed_def plain_text_def newline_def pretty_def LF_def plain_char_def list_all_iff)

lemma escape_plain: "is_ascii s \<Longrightarrow> list_all plain_char (escape True s)"
proof (induction s)
  case (Cons c s)
  have "list_all plain_char (escape_char True c)"
    using Cons.prems by (auto simp: escape_char_def Let_def quote_def backslash_def u_escape_def hex_digit_plain)
      (auto simp: plain_char_def)
  with Cons show ?case by (simp add: cp_width_def)
qed simp

lemma dumps_plain:
  assumes "dumps pretty v = Inr s" and "texts_ok is_ascii v"
  shows "plain_text s"
proof -
  have "texts_ok (\<lambda>t. plain_text (escape (ensure_ascii pretty) t)) v"
    using assms(2) by (rule texts_ok_mono) (simp add: pretty_def closed_plain [OF closed_plain_text] escape_plain)
  then show ?thesis
    using assms(1) dump_closed_style [OF closed_plain_text pretty_closed, of v 0 s] by (auto simp: dumps_def split: option.splits)
qed

lemma read_plain:
  assumes "plain_text s" and "fs p = Some s"
  shows "read_text fs p = Inr s"
proof -
  have "is_ascii s"
    using assms(1) unfolding plain_text_def is_ascii_def
    by (rule list.pred_mono_strong) (elim disjE, simp_all add: plain_char_def LF_def)
  from utf8_chars_ascii [OF this] have chars: "utf8_chars s = Some (map (\<lambda>c. [c]) s)" .
  have "[CR] \<notin> set (map (\<lambda>c. [c]) s)"
    using assms(1) by (auto simp: plain_text_def list_all_iff plain_char_def LF_def CR_def)
  moreover have "concat (map (\<lambda>c. [c]) s) = s" by (induction s) simp_all
  ultimately show ?thesis using chars assms(2) by (simp add: read_text_def universal_id)
qed

lemma plain_text_line: "plain_text s \<Longrightarrow> plain_text (s @ [CHR 0x0A])"
  by (simp add: plain_text_def LF_def)

lemma saved_checkpoint_plain:
  assumes "save_checkpoint cp = Inr t" and "ascii_checkpoint cp"
  shows "plain_text t"
proof -
  have "texts_ok is_ascii (checkpoint_payload cp)"
    using assms(2) by (auto simp: checkpoint_payload_def texts_ok_dict ascii_checkpoint_def)
  with assms(1) show ?thesis
    by (auto simp: save_checkpoint_def result_simps intro!: plain_text_line dumps_plain)
qed

lemma saved_proof_plain:
  assumes "proof_save pr = Inr t" and "ascii_proof pr"
  shows "plain_text t"
proof -
  have "texts_ok is_ascii (step_to_json st)" if "st \<in> set (p_path pr)" for st
    using assms(2) that by (auto simp: step_to_json_def texts_ok_dict ascii_proof_def list_all_iff)
  then have "texts_ok is_ascii (to_json pr)"
    using assms(2) by (simp add: to_json_def texts_ok_dict texts_ok_list ascii_proof_def)
  with assms(1) show ?thesis
    by (auto simp: proof_save_def proof_dumps_def result_simps intro!: plain_text_line dumps_plain)
qed

text \<open>A checkpoint signed with a private key is loaded with the public key, without the seal key.\<close>

lemma signed_checkpoint_loads:
  assumes "make_checkpoint lib r k mroot (Some (PrivateKey seed)) sid = Inr cp" and "ed25519_ok lib" and "length seed = 32"
    and "is_ascii (hash r)" and "is_ascii (key_id r)" and "is_ascii (timestamp r)" and "is_ascii mroot" and "is_ascii sid"
  shows "\<exists>t. save_checkpoint cp = Inr t \<and> plain_text t \<and> cp_signature_ed25519 cp \<noteq> [] \<and>
    (\<forall>sk. load_checkpoint lib t sk (Some (PublicKey (public_key_of lib seed))) = Inr cp)"
proof -
  note keys = load_own_keys [OF assms(2,3)]
  from assms(1) obtain m where m: "message_of cp = Inr m" "sign_message lib m (PrivateKey seed) = Inr (cp_signature_ed25519 cp)"
    and cp: "cp_signer_id cp = (if cp_signature_ed25519 cp \<noteq> [] then sid else [])"
    by (auto simp: make_checkpoint_def result_simps message_of_def split: option.splits if_splits)
  have "cp_signature_ed25519 cp = hex (sign lib seed m)" using m(2) keys(1) by (simp add: sign_message_def)
  then have ne: "cp_signature_ed25519 cp \<noteq> []" "is_ascii (cp_signature_ed25519 cp)"
    using assms(2,3) by (simp_all add: ed25519_ok_def)
  then have auth: "authentic lib cp sk (Some (PublicKey (public_key_of lib seed)))" for sk
    using verify_sign_message [OF assms(2) keys(1) assms(3) keys(3) m(2)] m(1)
    by (simp add: authentic_iff verify_checkpoint_signature_def)
  note f = make_checkpoint_Inr [OF assms(1)]
  have "is_ascii (cp_signature cp)" using f(8) by (cases "cp_signature cp = []") auto
  then have ascii: "ascii_checkpoint cp"
    using assms(4-8) ne cp f(1-5) by (simp add: ascii_checkpoint_def)
  from parse_saved [OF ascii f(6)] auth saved_checkpoint_plain [OF _ ascii] ne(1) show ?thesis
    by (auto simp: load_checkpoint_Inr)
qed

section \<open>Each command\<close>

lemma same_seal_key: "skf \<noteq> Some x \<Longrightarrow> read_seal_key (fs(x := v)) skf = read_seal_key fs skf"
  by (auto simp: read_seal_key_def read_bytes_def split: option.split)

lemma public_key_file:
  assumes "ed25519_ok (pf_lib pf)" and "length seed = 32" and "fs pub = Some (text_of_bytes (public_key_of (pf_lib pf) seed))"
  shows "read_public_key pf fs (Some pub) = Inr (Some (PublicKey (public_key_of (pf_lib pf) seed)))"
  using assms(3) load_own_keys(4) [OF assms(1,2)] by (simp add: read_public_key_def key_value_def)

lemma keygen_run:
  assumes "fs priv = None" and "fs pub = None" and "available (pf_lib pf)"
  shows "\<exists>ls. cli_main pf seed (Keygen priv pub False) fs =
    (succeeding ls, fs(priv := Some (text_of_bytes seed), pub := Some (text_of_bytes (public_key_of (pf_lib pf) seed))))"
  using assms by (simp add: cli_main_def run_command_def keygen_def generate_keypair_def require_cryptography_def) blast

lemma signing_log:
  assumes "ed25519_ok (pf_lib pf)" and "length seed = 32" and "sid \<noteq> []" and "key_long_enough sk"
  obtains lg where "cli_log pf fs p ''jsonl'' sk (Some (BytesKey seed)) sid = Inr lg" "store lg = JsonlStore (fs p)"
    "log_seal_key lg = sk" "log_signing_key lg = Some seed" "log_signer_id lg = sid"
  using assms load_own_keys(2) [OF assms(1,2)]
  by (auto simp: cli_log_def new_log_def build_backend_def key_long_enough_def not_le Let_def split: option.splits)

lemma checkpoint_run:
  assumes "detect_format p fmt = Inr ''jsonl''" and "fs p = Some t" and "fst (jsonl_load (pf_exn_str pf) p (fs p)) = Inr rs"
    and "rs \<noteq> []" and "read_seal_key fs skf = Inr sk" and "key_long_enough sk" and "fs priv = Some (text_of_bytes sd)"
    and "ed25519_ok (pf_lib pf)" and "length sd = 32" and "sid \<noteq> []"
    and "merkle_root (map hash rs) = Inr mroot"
    and "make_checkpoint (pf_lib pf) (last rs) sk mroot (Some (PrivateKey sd)) sid = Inr cp" and "save_checkpoint cp = Inr u"
  shows "cli_main pf seed (Checkpoint p fmt (Some c) skf (Some priv) sid) fs =
    (succeeding [checkpoint_line c cp], fs(c := Some u))"
proof -
  obtain lg where lg: "cli_log pf fs p ''jsonl'' sk (Some (BytesKey sd)) sid = Inr lg" "store lg = JsonlStore (fs p)"
    "log_seal_key lg = sk" "log_signing_key lg = Some sd" "log_signer_id lg = sid"
    using signing_log [OF assms(8,9,10,6)] by blast
  obtain lg' where lg': "log_read (any_ops (pf_exn_str pf) p) lg = (Inr rs, lg')" "store lg' = JsonlStore (fs p)"
    "same_config lg lg'"
    using read_jsonl [OF lg(2), where es = "pf_exn_str pf" and p = p] unfolding assms(3) .
  have "log_checkpoint (pf_lib pf) (any_ops (pf_exn_str pf) p) lg = (Inr cp, lg')"
    using lg'(1,3) lg(3-5) assms(4,11,12) by (simp add: log_checkpoint_def same_config_def)
  moreover have "read_private_key fs (Some priv) = Some (BytesKey sd)"
    using assms(7) by (simp add: read_private_key_def key_value_def)
  ultimately have "checkpoint_file pf p ''jsonl'' (Some c) skf (Some priv) sid fs = (Inr (checkpoint_line c cp), fs(c := Some u))"
    using lg(1,2) lg'(2) assms(5,13) by (simp add: checkpoint_file_def jsonl_unchanged bindS_def write_text_def)
  with assms(1,2) show ?thesis by (simp add: cli_main_def run_command_def run_checkpoint_def bindS_def)
qed

lemma proof_run:
  assumes "detect_format p fmt = Inr ''jsonl''" and "fs p = Some t" and "fst (jsonl_load (pf_exn_str pf) p (fs p)) = Inr rs"
    and "read_seal_key fs skf = Inr sk" and "key_long_enough sk"
    and "merkle_proof (map hash rs) i = Inr pr" and "proof_save pr = Inr u"
  shows "\<exists>ls. cli_main pf seed (Proof p i fmt None skf (Some q)) fs = (succeeding ls, fs(q := Some u))"
proof -
  obtain lg where lg: "cli_log pf fs p ''jsonl'' sk None ''s0'' = Inr lg" "store lg = JsonlStore (fs p)"
    using assms(5) by (simp add: cli_log_jsonl)
  obtain lg' where lg': "log_read (any_ops (pf_exn_str pf) p) lg = (Inr rs, lg')" "store lg' = JsonlStore (fs p)"
    using read_jsonl [OF lg(2), where es = "pf_exn_str pf" and p = p] unfolding assms(3) .
  have "log_inclusion_proof (any_ops (pf_exn_str pf) p) i lg = (Inr pr, lg')"
    using lg'(1) assms(6) by (simp add: log_inclusion_proof_def)
  then have "proof_of_file pf p ''jsonl'' i None skf fs = (Inr pr, fs)"
    using lg lg'(2) assms(4) by (simp add: proof_of_file_def jsonl_unchanged)
  with assms(1,2,4,7) show ?thesis
    by (simp add: cli_main_def run_command_def run_proof_def load_anchor_def bindS_def write_text_def) blast
qed

lemma verify_proof_run:
  assumes "load_proof_file fs q = Inr pr" and "read_public_key pf fs pk_arg = Inr pk" and "read_seal_key fs skf = Inr sk"
    and "load_checkpoint_file pf fs c sk pk = Inr cp" and "cp_merkle_root cp \<noteq> []" and "p_seq pr \<le> cp_seq cp"
    and "p_size pr = cp_seq cp + 1" and "verify_proof pr (Some (cp_merkle_root cp)) = Inr True"
  shows "\<exists>ls. cli_main pf seed (VerifyProof q None (Some c) pk_arg skf) fs = (succeeding ls, fs)"
  using assms by (simp add: cli_main_def run_command_def run_verify_proof_def verify_proof_file_def trusted_root_def) blast

section \<open>The commands together\<close>

text \<open>The verifier's keys name the keys of the records.\<close>

lemma cli_key_ids:
  assumes "valid_chain lib sk (cli_ring sk) sgs rs" and "rs \<noteq> []"
  shows "key_id (last rs) \<in> {[], ''k0''}"
proof -
  have "valid_record lib sk (cli_ring sk) sgs (length rs - 1) (prev_of GENESIS_HASH rs (length rs - 1)) (last rs)"
    using assms by (simp add: valid_from_def last_conv_nth)
  then show ?thesis by (auto simp: valid_record_def key_for_def cli_ring_def split: option.splits if_splits)
qed

lemma digest_nonempty: "sha256 m \<noteq> []"
  using sha.digest_length [of m] by (metis list.size(3) zero_neq_numeral)

lemma merkle_root_nonempty: "merkle_root hs = Inr r \<Longrightarrow> r \<noteq> []"
proof -
  assume r: "merkle_root hs = Inr r"
  have "subtree_root (leaves_of (map hash_bytes hs)) \<noteq> []" if "hs \<noteq> []"
    using length_subtree_root [of "map hash_bytes hs"] that by auto
  then show "r \<noteq> []" using r by (auto simp: merkle_root_Inr digest_nonempty split: if_splits)
qed

text \<open>What the commands write for a sound log: a signed checkpoint and a proof, and how they are read back.\<close>

lemma workflow_anchors:
  assumes "ed25519_ok lib" and "length seed = 32" and "is_ascii sid" and "valid_chain lib sk (cli_ring sk) None rs"
    and "i < length rs" and "is_ascii (timestamp (last rs))"
  obtains mroot cp u pr w where "merkle_root (map hash rs) = Inr mroot"
    and "make_checkpoint lib (last rs) sk mroot (Some (PrivateKey seed)) sid = Inr cp"
    and "verify_chain lib rs sk (Some (int (length rs))) (cli_ring sk) (Some cp) None = Inr (ok_report None rs mroot)"
    and "save_checkpoint cp = Inr u" and "plain_text u"
    and "\<And>sk. load_checkpoint lib u sk (Some (PublicKey (public_key_of lib seed))) = Inr cp"
    and "merkle_proof (map hash rs) (int i) = Inr pr" and "verify_proof pr (Some mroot) = Inr True"
    and "proof_save pr = Inr w" and "proof_load w = Inr pr" and "plain_text w"
    and "p_size pr = cp_seq cp + 1" and "p_seq pr \<le> cp_seq cp"
proof -
  have ne: "rs \<noteq> []" using assms(5) by auto
  have kid: "is_ascii (key_id (last rs))" using cli_key_ids [OF assms(4) ne] by auto
  have key: "ed25519_ok lib \<and> length sd = 32" if "Some seed = Some sd" for sd using that assms(1,2) by simp
  obtain mroot cp where a: "merkle_root (map hash rs) = Inr mroot" "is_ascii mroot" "is_ascii (hash (last rs))"
    "make_checkpoint lib (last rs) sk mroot (map_option PrivateKey (Some seed)) sid = Inr cp"
    "verify_chain lib rs sk (Some (int (length rs))) (cli_ring sk) (Some cp) None = Inr (ok_report None rs mroot)"
    "cp_seq cp = int (length rs) - 1"
    "\<forall>i < length rs. \<exists>p. merkle_proof (map hash rs) (int i) = Inr p \<and> p_leaf p = hash (rs ! i) \<and>
       p_root p = mroot \<and> verify_proof p (Some mroot) = Inr True"
    by (rule anchors_of_chain [OF assms(4) ne is_ascii_no_surrogate [OF kid] key]) (assumption, rule that)
  have mk: "make_checkpoint lib (last rs) sk mroot (Some (PrivateKey seed)) sid = Inr cp" using a(4) by simp
  from signed_checkpoint_loads [OF mk assms(1,2) a(3) kid assms(6) a(2) assms(3)] obtain u where
    u: "save_checkpoint cp = Inr u" "plain_text u"
      "\<And>sk. load_checkpoint lib u sk (Some (PublicKey (public_key_of lib seed))) = Inr cp" by blast
  from a(7) assms(5) obtain pr where pr: "merkle_proof (map hash rs) (int i) = Inr pr" "verify_proof pr (Some mroot) = Inr True" by blast
  obtain w where w: "proof_save pr = Inr w" "proof_load w = Inr pr" "plain_text w"
    using proof_roundtrip saved_proof_plain merkle_proof_ascii [OF pr(1)] by blast
  have "p_size pr = cp_seq cp + 1" "p_seq pr \<le> cp_seq cp"
    using pr(1) a(6) assms(5) by (auto simp: merkle_proof_Inr)
  from that [OF a(1) mk a(5) u pr w this] show thesis .
qed

text \<open>The checking half: on files with a proof, a checkpoint and a public key that fit the log, nothing is written.\<close>

lemma anchors_accepted:
  assumes "read_public_key pf fs (Some pub) = Inr (Some k)" and cpf: "\<And>sk. load_checkpoint_file pf fs c sk (Some k) = Inr cp"
    and "load_proof_file fs q = Inr pr" and "verify_proof pr (Some (cp_merkle_root cp)) = Inr True"
    and "p_size pr = cp_seq cp + 1" and "p_seq pr \<le> cp_seq cp" and "cp_merkle_root cp \<noteq> []"
    and "detect_format p fmt = Inr ''jsonl''" and t: "fs p = Some t" and "fst (jsonl_load (pf_exn_str pf) p (Some t)) = Inr rs"
    and "read_seal_key fs skf = Inr sk" and "key_long_enough sk" and "valid_chain (pf_lib pf) sk (cli_ring sk) None rs"
    and "anchored (Some cp) rs"
  shows "\<exists>ls. cli_main pf seed (VerifyProof q None (Some c) (Some pub) None) fs = (succeeding ls, fs)" (is ?proof)
    and "cli_main pf seed (Verify p fmt (Some (int (length rs))) (Some c) (Some pub) skf []) fs = (o5, fs5) \<Longrightarrow>
      exit_code o5 = 0 \<and> fs5 = fs"
proof -
  have "read_seal_key fs None = Inr None" by (simp add: read_seal_key_def)
  from verify_proof_run [OF assms(3,1) this cpf assms(7,6,5,4)] show ?proof .
next
  assume run: "cli_main pf seed (Verify p fmt (Some (int (length rs))) (Some c) (Some pub) skf []) fs = (o5, fs5)"
  have "load_anchor pf fs (Some c) sk (Some k) = Inr (Some cp)" using cpf by (simp add: load_anchor_def)
  moreover have "load_signer_args fs [] = Inr None" by (simp add: load_signer_args_def)
  ultimately have "exit_code o5 = 0"
    using verify_exit_zero [where fs = fs and p = p, OF assms(8) t, of pf seed "Some (int (length rs))" "Some c" "Some pub" skf "[]"]
      assms(1,10-14) run by auto
  moreover have "fs5 = fs"
    using run_verify_jsonl [where fs = fs and p = p, OF assms(8), of pf "Some (int (length rs))" "Some c" "Some pub" skf "[]"] t run
    by (simp add: cli_main_def run_command_def split: prod.splits sum.splits)
  ultimately show "exit_code o5 = 0 \<and> fs5 = fs" by simp
qed

text \<open>C6: The commands fit together: with the keys that \<open>keygen\<close> writes, \<open>checkpoint\<close> anchors a sound log,
  \<open>proof\<close> proves any of its records, \<open>verify-proof\<close> accepts the proof against the checkpoint and \<open>verify\<close> the log,
  both with the public key; the log itself is not touched.\<close>

theorem anchored_workflow:
  assumes "cli_main pf seed (Keygen priv pub False) fs = (o1, fs1)"
    and "cli_main pf seed (Checkpoint p fmt (Some c) skf (Some priv) sid) fs1 = (o2, fs2)"
    and "cli_main pf seed (Proof p (int i) fmt None skf (Some q)) fs2 = (o3, fs3)"
    and "cli_main pf seed (VerifyProof q None (Some c) (Some pub) None) fs3 = (o4, fs4)"
    and "cli_main pf seed (Verify p fmt (Some (int (length rs))) (Some c) (Some pub) skf []) fs4 = (o5, fs5)"
    and "ed25519_ok (pf_lib pf)" and "length seed = 32" and "sid \<noteq> []" and "is_ascii sid"
    and "detect_format p fmt = Inr ''jsonl''" and "fs p = Some t" and "fst (jsonl_load (pf_exn_str pf) p (Some t)) = Inr rs"
    and "read_seal_key fs skf = Inr sk" and "key_long_enough sk" and "valid_chain (pf_lib pf) sk (cli_ring sk) None rs"
    and "i < length rs" and "is_ascii (timestamp (last rs))"
    and "fs priv = None" and "fs pub = None" and "distinct [p, priv, pub, c, q]" and "skf \<notin> {Some priv, Some pub, Some c, Some q}"
  shows "map exit_code [o1, o2, o3, o4, o5] = [0, 0, 0, 0, 0] \<and> fs5 p = Some t"
proof -
  let ?lib = "pf_lib pf" and ?pub = "public_key_of (pf_lib pf) seed"
  have ne: "rs \<noteq> []" using assms(16) by auto
  obtain mroot cp u pr w where a: "merkle_root (map hash rs) = Inr mroot"
      "verify_chain ?lib rs sk (Some (int (length rs))) (cli_ring sk) (Some cp) None = Inr (ok_report None rs mroot)"
    and mk: "make_checkpoint ?lib (last rs) sk mroot (Some (PrivateKey seed)) sid = Inr cp"
    and u: "save_checkpoint cp = Inr u" "plain_text u" "\<And>sk. load_checkpoint ?lib u sk (Some (PublicKey ?pub)) = Inr cp"
    and pr: "merkle_proof (map hash rs) (int i) = Inr pr" "verify_proof pr (Some mroot) = Inr True"
    and w: "proof_save pr = Inr w" "proof_load w = Inr pr" "plain_text w"
    and size: "p_size pr = cp_seq cp + 1" "p_seq pr \<le> cp_seq cp"
    using workflow_anchors [OF assms(6,7,9,15,16,17)] by metis
  define f1 where "f1 = fs(priv := Some (text_of_bytes seed), pub := Some (text_of_bytes ?pub))"
  define f2 where "f2 = f1(c := Some u)"
  define f3 where "f3 = f2(q := Some w)"
  note fs_defs = f1_def f2_def f3_def
  have files: "f1 p = Some t" "f2 p = Some t" "f3 p = Some t" "f1 priv = Some (text_of_bytes seed)"
    "f3 pub = Some (text_of_bytes ?pub)" "f3 c = Some u" "f3 q = Some w"
    using assms(11,20) by (auto simp: fs_defs)
  have seal: "read_seal_key f1 skf = Inr sk" "read_seal_key f2 skf = Inr sk" "read_seal_key f3 skf = Inr sk"
    using assms(13,21) by (simp_all add: fs_defs same_seal_key)
  have lib: "available ?lib" using assms(6) by (simp add: ed25519_ok_def)
  obtain ls where gen: "o1 = succeeding ls" "fs1 = f1"
    using keygen_run [of fs priv pub pf seed] assms(1,18,19) lib unfolding f1_def by auto
  have cpt: "o2 = succeeding [checkpoint_line c cp]" "fs2 = f2"
    using checkpoint_run [where fs = f1 and p = p, OF assms(10) files(1) _ ne seal(1) assms(14) files(4) assms(6,7,8) a(1) mk u(1)]
      assms(2,12) files(1) gen(2) by (simp_all add: f2_def)
  obtain ls' where made: "o3 = succeeding ls'" "fs3 = f3"
    using proof_run [where fs = f2 and p = p, OF assms(10) files(2) _ seal(2) assms(14) pr(1) w(1), of pf seed q]
      assms(3,12) files(2) cpt(2) unfolding f3_def by auto
  have pk: "read_public_key pf f3 (Some pub) = Inr (Some (PublicKey ?pub))"
    using public_key_file [OF assms(6,7), of f3 pub] files(5) by blast
  have cpf: "load_checkpoint_file pf f3 c sk' (Some (PublicKey ?pub)) = Inr cp" for sk'
    using read_plain [OF u(2), of f3 c] files(6) u(3) by (simp add: load_checkpoint_file_def)
  have saved: "load_proof_file f3 q = Inr pr" using read_plain [OF w(3), of f3 q] files(7) w(2) by (simp add: load_proof_file_def)
  have root: "cp_merkle_root cp = mroot" "mroot \<noteq> []" using make_checkpoint_Inr(4) [OF mk] merkle_root_nonempty [OF a(1)] .
  have anch: "anchored (Some cp) rs" using accepted(2) [OF a(2)] by (simp add: ok_report_def)
  note acc = anchors_accepted [where fs = f3 and p = p, OF pk cpf saved _ size _ assms(10) files(3) assms(12) seal(3) assms(14,15) anch,
      of seed, unfolded root(1), OF pr(2) root(2)]
  obtain ms where vpr: "o4 = succeeding ms" "fs4 = f3" using acc(1) assms(4) made(2) by auto
  then show ?thesis using acc(2) assms(5) gen(1) cpt(1) made(1) files(3) by (simp add: succeeding_def)
qed

text \<open>A seal key, a sealed log of one record, and the name of a signer.\<close>

theorem anchored_workflow_witness:
  "\<exists>t o1 o2 o3 o4 o5 fs1 fs2 fs3 fs4 fs5.
     cli_main demo_platform sample_seed (Keygen ''priv'' ''pub'' False) (demo_sealed t) = (o1, fs1) \<and>
     cli_main demo_platform sample_seed (Checkpoint ''a.jsonl'' ''auto'' (Some ''cp'') (Some ''key'') (Some ''priv'') ''s0'') fs1 = (o2, fs2) \<and>
     cli_main demo_platform sample_seed (Proof ''a.jsonl'' 0 ''auto'' None (Some ''key'') (Some ''proof'')) fs2 = (o3, fs3) \<and>
     cli_main demo_platform sample_seed (VerifyProof ''proof'' None (Some ''cp'') (Some ''pub'') None) fs3 = (o4, fs4) \<and>
     cli_main demo_platform sample_seed (Verify ''a.jsonl'' ''auto'' (Some 1) (Some ''cp'') (Some ''pub'') (Some ''key'') []) fs4 = (o5, fs5) \<and>
     map exit_code [o1, o2, o3, o4, o5] = [0, 0, 0, 0, 0]"
proof -
  obtain t rs where t: "\<forall>es p. jsonl_load es p (Some t) = (Inr rs, Some t)" "length rs = 1"
    "valid_chain demo_ed25519 (Some demo_key) (Some [(''k0'', demo_key)]) None rs" "timestamp (hd rs) = ''t''"
    by (rule demo_file [of "''k0''"]) simp_all
  let ?fs = "demo_sealed t"
  obtain o1 fs1 where 1: "cli_main demo_platform sample_seed (Keygen ''priv'' ''pub'' False) ?fs = (o1, fs1)" by fastforce
  obtain o2 fs2 where 2: "cli_main demo_platform sample_seed
      (Checkpoint ''a.jsonl'' ''auto'' (Some ''cp'') (Some ''key'') (Some ''priv'') ''s0'') fs1 = (o2, fs2)" by fastforce
  obtain o3 fs3 where 3: "cli_main demo_platform sample_seed
      (Proof ''a.jsonl'' (int 0) ''auto'' None (Some ''key'') (Some ''proof'')) fs2 = (o3, fs3)" by fastforce
  obtain o4 fs4 where 4: "cli_main demo_platform sample_seed
      (VerifyProof ''proof'' None (Some ''cp'') (Some ''pub'') None) fs3 = (o4, fs4)" by fastforce
  obtain o5 fs5 where 5: "cli_main demo_platform sample_seed
      (Verify ''a.jsonl'' ''auto'' (Some (int (length rs))) (Some ''cp'') (Some ''pub'') (Some ''key'') []) fs4 = (o5, fs5)" by fastforce
  have lib: "ed25519_ok (pf_lib demo_platform)" using demo_ed25519_ok by (simp add: demo_platform_def)
  have load: "fst (jsonl_load (pf_exn_str demo_platform) ''a.jsonl'' (Some t)) = Inr rs" using t(1) by simp
  have v: "valid_chain (pf_lib demo_platform) (Some demo_key) (cli_ring (Some demo_key)) None rs"
    using t(3) by (simp add: demo_platform_def cli_ring_def)
  have ts: "is_ascii (timestamp (last rs))" using t(2,4) by (cases rs) auto
  have free: "?fs ''priv'' = None" "?fs ''pub'' = None" by (simp_all add: demo_sealed_def)
  have pos: "0 < length rs" using t(2) by simp
  have sid: "''s0'' \<noteq> []" "is_ascii ''s0''" by simp_all
  have apart: "distinct [''a.jsonl'', ''priv'', ''pub'', ''cp'', ''proof'']"
    "Some ''key'' \<notin> {Some ''priv'', Some ''pub'', Some ''cp'', Some ''proof''}" by simp_all
  from anchored_workflow [where fs = ?fs and p = "''a.jsonl''", OF 1 2 3 4 5 lib length_sample_seed sid detect_demo demo_files(1) load
      demo_files(2,3) v pos ts free apart] 1 2 3 4 5 t(2)
  show ?thesis by (intro exI [of _ t]) simp
qed

section \<open>What an accepted proof says\<close>

text \<open>C8: When \<open>verify-proof\<close> accepts a proof against a checkpoint, the checkpoint was accepted with the keys
  given, and the proof is about a record it covers: in every log of the anchored length that has the Merkle
  root of the checkpoint, the record at the position of the proof has the hash the proof names, or a collision
  of SHA-256 is at hand.\<close>

theorem verify_proof_command_sound:
  assumes "exit_code (fst (cli_main pf seed (VerifyProof q None (Some c) pk_arg skf) fs)) = 0"
  shows "\<exists>pr cp sk pk. load_proof_file fs q = Inr pr \<and> read_seal_key fs skf = Inr sk \<and>
    read_public_key pf fs pk_arg = Inr pk \<and> load_checkpoint_file pf fs c sk pk = Inr cp \<and>
    authentic (pf_lib pf) cp sk pk \<and> 0 \<le> p_seq pr \<and> p_seq pr \<le> cp_seq cp \<and>
    (\<forall>hs. merkle_root hs = Inr (cp_merkle_root cp) \<longrightarrow> int (length hs) = cp_seq cp + 1 \<longrightarrow>
       hash_bytes (hs ! nat (p_seq pr)) = hash_bytes (p_leaf pr) \<or> colliding (proof_inputs pr) (tree_inputs hs))"
proof -
  obtain pr cp sk pk where r: "load_proof_file fs q = Inr pr" "read_seal_key fs skf = Inr sk"
    "read_public_key pf fs pk_arg = Inr pk" "load_checkpoint_file pf fs c sk pk = Inr cp" "p_seq pr \<le> cp_seq cp"
    "p_size pr = cp_seq cp + 1" "verify_proof pr (Some (cp_merkle_root cp)) = Inr True"
    using assms
    by (cases "run_verify_proof pf q None (Some c) pk_arg skf fs")
      (auto simp: cli_main_def run_command_def failing_def run_verify_proof_def verify_proof_file_def trusted_root_def
        result_simps split: if_splits)
  have pos: "0 \<le> p_seq pr" "p_seq pr < p_size pr" using r(7) by (auto simp: verify_proof_True fold_Inr)
  have "hash_bytes (hs ! nat (p_seq pr)) = hash_bytes (p_leaf pr) \<or> colliding (proof_inputs pr) (tree_inputs hs)"
    if hs: "merkle_root hs = Inr (cp_merkle_root cp)" "int (length hs) = cp_seq cp + 1" for hs
  proof -
    have "hs \<noteq> []" using pos r(6) hs(2) by auto
    from verify_sound [OF r(7) hs(1) this] pos r(6) hs(2) show ?thesis by (auto simp: proved_leaf_def)
  qed
  moreover have "authentic (pf_lib pf) cp sk pk"
    using r(4) by (auto simp: load_checkpoint_file_def result_simps load_checkpoint_Inr)
  ultimately show ?thesis using r(1-5) pos(1) by blast
qed

theorem verify_proof_command_sound_witness:
  "\<exists>u w. exit_code (fst (cli_main demo_platform [] (VerifyProof ''proof'' None (Some ''cp'') None None)
       [''cp'' \<mapsto> u, ''proof'' \<mapsto> w])) = 0 \<and>
     (\<exists>pr cp. load_proof_file [''cp'' \<mapsto> u, ''proof'' \<mapsto> w] ''proof'' = Inr pr \<and>
        load_checkpoint_file demo_platform [''cp'' \<mapsto> u, ''proof'' \<mapsto> w] ''cp'' None None = Inr cp \<and> p_seq pr \<le> cp_seq cp)"
proof -
  let ?root = "hex (sha256 [0, 7])"
  let ?cp = "\<lparr>cp_seq = 0, cp_hash = hex [7], cp_key_id = [], cp_timestamp = [], cp_signature = [], cp_merkle_root = ?root,
    cp_signer_id = [], cp_signature_ed25519 = []\<rparr>"
  let ?pr = "\<lparr>p_seq = 0, p_size = 1, p_leaf = hex [7], p_root = ?root, p_path = []\<rparr>"
  have cp: "ascii_checkpoint ?cp" by (simp add: ascii_checkpoint_def)
  have pr: "ascii_proof ?pr" by (simp add: ascii_proof_def)
  obtain u where u: "save_checkpoint ?cp = Inr u" "load_checkpoint demo_ed25519 u None None = Inr ?cp"
    using load_saved [OF cp, of demo_ed25519 None None] by (auto simp: authentic_iff)
  obtain w where w: "proof_save ?pr = Inr w" "proof_load w = Inr ?pr" using proof_roundtrip [OF pr] by blast
  let ?fs = "[''cp'' \<mapsto> u, ''proof'' \<mapsto> w]"
  have l: "load_checkpoint_file demo_platform ?fs ''cp'' None None = Inr ?cp"
    using read_plain [OF saved_checkpoint_plain [OF u(1) cp], of ?fs "''cp''"] u(2)
    by (simp add: load_checkpoint_file_def demo_platform_def)
  have lp: "load_proof_file ?fs ''proof'' = Inr ?pr"
    using read_plain [OF saved_proof_plain [OF w(1) pr], of ?fs "''proof''"] w(2) by (simp add: load_proof_file_def)
  have keys: "read_public_key demo_platform ?fs None = Inr None" "read_seal_key ?fs None = Inr None"
    by (simp_all add: read_public_key_def read_seal_key_def)
  have root: "?root \<noteq> []" by (simp add: digest_nonempty)
  have ok: "verify_proof ?pr (Some ?root) = Inr True"
    by (simp add: verify_proof_True fold_Inr fold_path_leaf hash_bytes_def leaf_text_def LEAF_PREFIX_def)
  have exit: "exit_code (fst (cli_main demo_platform [] (VerifyProof ''proof'' None (Some ''cp'') None None) ?fs)) = 0"
    using verify_proof_run [where fs = ?fs and seed = "[]", OF lp keys l] root ok by (auto simp: succeeding_def)
  from verify_proof_command_sound [where fs = ?fs, OF exit] exit show ?thesis
    unfolding keys by (intro exI [of _ u] exI [of _ w]) auto
qed

section \<open>A checkpoint that proof cannot open\<close>

text \<open>\<open>proof\<close> cannot be given a public key, so that it refuses every checkpoint with an Ed25519 signature,
  also the ones that \<open>verify\<close> and \<open>verify-proof\<close> accept, whatever the log, the other keys and the record; no proof is
  written.\<close>

lemma proof_command_refuses_signed:
  assumes "load_checkpoint_file pf fs c sk pk = Inr cp" and "cp_signature_ed25519 cp \<noteq> []"
  shows "exit_code (fst (cli_main pf seed (Proof p i fmt (Some c) skf output) fs)) = 2 \<and>
    snd (cli_main pf seed (Proof p i fmt (Some c) skf output) fs) = fs"
proof -
  from assms(1) obtain t v where t: "read_text fs c = Inr t" "loads t = Inr v" "parse_checkpoint v = Inr cp"
    by (auto simp: load_checkpoint_file_def load_checkpoint_Inr result_simps)
  have "\<exists>e. load_anchor pf fs (Some c) sk' None = Inl e" for sk'
    using t assms(2) by (simp add: load_anchor_def load_checkpoint_file_def load_checkpoint_def check_ed25519_def)
  then have "\<exists>e. bindE (read_seal_key fs skf) (\<lambda>sk'. load_anchor pf fs (Some c) sk' None) = Inl e"
    by (cases "read_seal_key fs skf") simp_all
  then obtain e where e: "bindE (read_seal_key fs skf) (\<lambda>sk'. load_anchor pf fs (Some c) sk' None) = Inl e" by blast
  show ?thesis
    by (cases "detect_format p fmt") (auto simp: cli_main_def run_command_def run_proof_def e failing_def missing_def)
qed

text \<open>A checkpoint that the public key opens.\<close>

lemma signed_checkpoint_opens:
  obtains u cp where "load_checkpoint_file demo_platform [''cp'' \<mapsto> u] ''cp'' None
      (Some (PublicKey (public_key_of demo_ed25519 sample_seed))) = Inr cp" "cp_signature_ed25519 cp \<noteq> []"
proof -
  have r: "is_ascii (hash sample_record)" "is_ascii (key_id sample_record)" "is_ascii (timestamp sample_record)"
    by (simp_all add: sample_record_def)
  have key: "ed25519_ok demo_ed25519 \<and> length sd = 32" if "Some sample_seed = Some sd" for sd
    using that demo_ed25519_ok length_sample_seed by simp
  obtain cp where "make_checkpoint demo_ed25519 sample_record None (hex [7]) (map_option PrivateKey (Some sample_seed)) ''s0'' = Inr cp"
    using make_checkpoint_defined [OF r(1) is_ascii_hex is_ascii_no_surrogate [OF r(2)] key] by blast
  then have "make_checkpoint demo_ed25519 sample_record None (hex [7]) (Some (PrivateKey sample_seed)) ''s0'' = Inr cp" by simp
  from signed_checkpoint_loads [OF this demo_ed25519_ok length_sample_seed r(1-3) is_ascii_hex] obtain u where
    u: "plain_text u" "cp_signature_ed25519 cp \<noteq> []"
      "load_checkpoint demo_ed25519 u None (Some (PublicKey (public_key_of demo_ed25519 sample_seed))) = Inr cp" by auto
  then have "load_checkpoint_file demo_platform [''cp'' \<mapsto> u] ''cp'' None
      (Some (PublicKey (public_key_of demo_ed25519 sample_seed))) = Inr cp"
    using read_plain [OF u(1), of "[''cp'' \<mapsto> u]" "''cp''"] by (simp add: load_checkpoint_file_def demo_platform_def)
  then show thesis using that u(2) by blast
qed

end
