(* ===== verification/Cli_Args_Properties.thy ===== *)
theory Cli_Args_Properties
  imports Cli_Args Cli_Workflow
begin

text \<open>
  What the parsers of \<open>main\<close> accept: a command comes back from every way to write it, and which options a command
  does not take.
\<close>

section \<open>Options and their abbreviations\<close>

lemma starts_with_iff: "starts_with p s \<longleftrightarrow> (\<exists>r. s = p @ r)"
  by (cases "strip_prefix p s") (auto simp: starts_with_def strip_prefix_Some [symmetric])

lemma starts_with_refl [simp]: "starts_with p p"
  by (simp add: starts_with_iff)

lemma starts_with_append [simp]: "starts_with p q \<Longrightarrow> starts_with p (q @ r)"
  by (auto simp: starts_with_iff)

definition abbreviates :: "option_decl list \<Rightarrow> string \<Rightarrow> option_decl \<Rightarrow> bool" where
  "abbreviates ds m d \<longleftrightarrow>
     starts_with ''--'' m \<and> m \<noteq> ''--'' \<and>
     filter (\<lambda>(n, _). starts_with m n) (spellings ds) = [(option_name d, d)]"

definition plain_names :: "option_decl list \<Rightarrow> bool" where
  "plain_names ds \<longleftrightarrow> list_all (\<lambda>(n, _). CHR ''='' \<notin> set n) (spellings ds)"

lemma split_value_plain: "CHR ''='' \<notin> set m \<Longrightarrow> split_value m = (m, None)"
  unfolding split_value_def by (subst dropWhile_eq_Nil_conv [THEN iffD2]) auto

lemma split_value_joined: "CHR ''='' \<notin> set m \<Longrightarrow> split_value (m @ CHR ''='' # v) = (m, Some v)"
proof -
  assume "CHR ''='' \<notin> set m"
  then have "\<And>c. c \<in> set m \<Longrightarrow> c \<noteq> CHR ''=''" by auto
  then show ?thesis by (simp add: split_value_def dropWhile_append2 takeWhile_append2)
qed

lemma abbreviates_facts:
  assumes "abbreviates ds m d" and "plain_names ds"
  shows "starts_with ''--'' m" and "starts_with ''-'' m" and "CHR ''='' \<notin> set m"
    and "map_of (spellings ds) m \<in> {None, Some d}"
proof -
  have only: "filter (\<lambda>(n, _). starts_with m n) (spellings ds) = [(option_name d, d)]"
    and m: "starts_with ''--'' m" using assms(1) by (simp_all add: abbreviates_def)
  show "starts_with ''--'' m" by (fact m)
  then show "starts_with ''-'' m" by (auto simp: starts_with_iff)
  have "(option_name d, d) \<in> set (filter (\<lambda>(n, _). starts_with m n) (spellings ds))" using only by simp
  then have "(option_name d, d) \<in> set (spellings ds)" "starts_with m (option_name d)" by auto
  then show "CHR ''='' \<notin> set m"
    using assms(2) by (auto simp: plain_names_def list_all_iff starts_with_iff)
  show "map_of (spellings ds) m \<in> {None, Some d}"
  proof (cases "map_of (spellings ds) m")
    case (Some d')
    then have "(m, d') \<in> set (filter (\<lambda>(n, _). starts_with m n) (spellings ds))"
      by (auto dest: map_of_SomeD)
    then show ?thesis using Some only by simp
  qed simp
qed

lemma joined_no_name:
  assumes "plain_names ds"
  shows "map_of (spellings ds) (m @ CHR ''='' # v) = None"
  using assms by (force simp: plain_names_def list_all_iff map_of_eq_None_iff)

lemma classify_abbreviation:
  assumes "abbreviates ds m d" and "plain_names ds"
  shows "classify ds m = Known d None" and "classify ds (m @ CHR ''='' # v) = Known d (Some v)"
proof -
  note m = abbreviates_facts [OF assms]
  have only: "filter (\<lambda>(n, _). starts_with m n) (spellings ds) = [(option_name d, d)]"
    using assms(1) by (simp add: abbreviates_def)
  have long: "m \<noteq> ''-''" "m @ CHR ''='' # v \<noteq> ''-''" using m(1) by (auto simp: starts_with_iff)
  show "classify ds m = Known d None"
    using m(1,2,4) only long(1)
    by (auto simp: classify_def split_value_plain [OF m(3)] case_prod_beta')
  show "classify ds (m @ CHR ''='' # v) = Known d (Some v)"
    using m(1,2,4) only long(2)
    by (auto simp: classify_def split_value_joined [OF m(3)] joined_no_name [OF assms(2)] case_prod_beta')
qed

lemma classify_operand: "\<not> starts_with ''-'' a \<Longrightarrow> classify ds a = Operand"
  by (simp add: classify_def)

section \<open>Settings of a command, and how they are written\<close>

datatype setting = OperandIs string | OptionIs string arg

definition takes_value :: "option_kind \<Rightarrow> bool" where
  "takes_value k \<longleftrightarrow> k \<noteq> Flag \<and> k \<noteq> ShowHelp"

fun written :: "command_decl \<Rightarrow> setting \<Rightarrow> string list \<Rightarrow> bool" where
  "written c (OperandIs p) ws \<longleftrightarrow>
     operand c \<and> (\<exists>q. ws = [q] \<and> path_of q = p \<and> \<not> starts_with ''-'' q)"
| "written c (OptionIs n v) ws \<longleftrightarrow>
     (\<exists>d m. abbreviates (options c) m d \<and> option_name d = n \<and>
        (if takes_value (kind d)
         then \<exists>t. convert (kind d) t = Parsed v \<and>
                (ws = [m @ CHR ''='' # t] \<or> ws = [m, t] \<and> \<not> starts_with ''-'' t)
         else kind d = Flag \<and> v = ArgSet \<and> ws = [m]))"

fun add_setting :: "setting \<Rightarrow> namespace \<Rightarrow> namespace" where
  "add_setting (OperandIs p) g = g\<lparr>operand_given := Some p\<rparr>"
| "add_setting (OptionIs n v) g = g\<lparr>given := given g @ [(n, v)]\<rparr>"

lemma read_value:
  assumes "takes_value (kind d)" and "convert (kind d) t = Parsed v"
    and "classify (options c) m = Known d None" and "classify (options c) (m @ CHR ''='' # t) = Known d (Some t)"
  shows "read_args c ((m @ CHR ''='' # t) # rest) g = read_args c rest (add_setting (OptionIs (option_name d) v) g)"
    and "\<not> starts_with ''-'' t \<Longrightarrow>
      read_args c (m # t # rest) g = read_args c rest (add_setting (OptionIs (option_name d) v) g)"
  using assms by (auto simp: takes_value_def store_value_def classify_operand split: option_kind.splits)

lemma read_setting:
  assumes "written c s ws" and "plain_names (options c)"
    and "\<And>p. s = OperandIs p \<Longrightarrow> operand_given g = None"
  shows "read_args c (ws @ rest) g = read_args c rest (add_setting s g)"
proof (cases s)
  case (OperandIs p)
  then show ?thesis using assms by (auto simp: classify_operand)
next
  case (OptionIs n v)
  then obtain d m where d: "abbreviates (options c) m d" "option_name d = n"
    and w: "if takes_value (kind d)
            then \<exists>t. convert (kind d) t = Parsed v \<and> (ws = [m @ CHR ''='' # t] \<or> ws = [m, t] \<and> \<not> starts_with ''-'' t)
            else kind d = Flag \<and> v = ArgSet \<and> ws = [m]"
    using assms(1) by auto
  note reads = classify_abbreviation [OF d(1) assms(2)]
  show ?thesis
  proof (cases "takes_value (kind d)")
    case True
    then show ?thesis using w d(2) OptionIs read_value [OF True _ reads] by (auto simp del: read_args.simps)
  next
    case False
    then show ?thesis using w d(2) OptionIs reads(1) by simp
  qed
qed

definition about :: "string option \<Rightarrow> setting list \<Rightarrow> setting list" where
  "about n ss = filter (\<lambda>s. (case s of OperandIs p \<Rightarrow> None | OptionIs m v \<Rightarrow> Some m) = n) ss"

lemma about_simps [simp]:
  "about n [] = []"
  "about n (OperandIs p # ss) = (if n = None then OperandIs p # about n ss else about n ss)"
  "about n (OptionIs m v # ss) = (if n = Some m then OptionIs m v # about n ss else about n ss)"
  "about n (ss @ ts) = about n ss @ about n ts"
  by (auto simp: about_def)

lemma read_settings:
  assumes "list_all2 (written c) ss wss" and "plain_names (options c)"
    and "length (about None ss) + (if operand_given g = None then 0 else 1) \<le> 1"
  shows "read_args c (concat wss) g = Parsed (List.fold add_setting ss g)"
  using assms(1,3)
proof (induction ss wss arbitrary: g rule: list_all2_induct)
  case (Cons s ss ws wss)
  have "read_args c (ws @ concat wss) g = read_args c (concat wss) (add_setting s g)"
    using Cons.hyps(1) assms(2) Cons.prems by (intro read_setting) (auto split: if_splits)
  moreover have "read_args c (concat wss) (add_setting s g) = Parsed (List.fold add_setting ss (add_setting s g))"
    using Cons.prems by (intro Cons.IH, cases s) (auto split: if_splits)
  ultimately show ?case by simp
qed simp

lemma written_settled: "written c s ws \<Longrightarrow> plain_names (options c) \<Longrightarrow> list_all settled ws"
proof -
  have dash: "settled a" if "\<not> starts_with ''-'' a" for a
    using that by (auto simp: settled_def starts_with_iff)
  have option_word: "settled m" "settled (m @ CHR ''='' # t)" if "abbreviates ds m d" for ds m d t
    using that by (auto simp: abbreviates_def settled_def starts_with_iff)
  show "written c s ws \<Longrightarrow> ?thesis"
    by (cases s) (auto simp: dash split: if_splits intro: option_word)
qed


text \<open>What remains of a list of settings, option by option.\<close>

fun texts :: "setting list \<Rightarrow> string list" where
  "texts [] = []"
| "texts (OptionIs n (ArgText t) # ss) = t # texts ss"
| "texts (s # ss) = texts ss"

fun wholes :: "setting list \<Rightarrow> int list" where
  "wholes [] = []"
| "wholes (OptionIs n (ArgWhole i) # ss) = i # wholes ss"
| "wholes (s # ss) = wholes ss"

definition read_from :: "setting list \<Rightarrow> namespace" where
  "read_from ss = List.fold add_setting ss nothing_given"

lemma read_from_snoc:
  "read_from [] = nothing_given" "read_from (ss @ [s]) = add_setting s (read_from ss)"
  by (simp_all add: read_from_def)

lemma texts_append [simp]: "texts (ss @ ts) = texts ss @ texts ts"
  by (induction ss rule: texts.induct) auto

lemma wholes_append [simp]: "wholes (ss @ ts) = wholes ss @ wholes ts"
  by (induction ss rule: wholes.induct) auto

lemma read_from_facts:
  "texts_of (read_from ss) n = texts (about (Some n) ss)"
  "wholes_of (read_from ss) n = wholes (about (Some n) ss)"
  "n \<in> set (map fst (given (read_from ss))) \<longleftrightarrow> about (Some n) ss \<noteq> []"
  "\<not> left_over (read_from ss)"
proof (induction ss rule: rev_induct)
  case Nil
  show 1: "texts_of (read_from []) n = texts (about (Some n) [])"
    and "wholes_of (read_from []) n = wholes (about (Some n) [])"
    and "n \<in> set (map fst (given (read_from []))) \<longleftrightarrow> about (Some n) [] \<noteq> []"
    and "\<not> left_over (read_from [])"
    by (simp_all add: read_from_def nothing_given_def texts_of_def wholes_of_def)
next
  case (snoc s ss)
  case 1 then show ?case using snoc(1)
    by (cases s) (auto simp: read_from_snoc texts_of_def split: arg.splits)
  case 2 then show ?case using snoc(2)
    by (cases s) (auto simp: read_from_snoc wholes_of_def split: arg.splits)
  case 3 then show ?case using snoc(3) by (cases s) (auto simp: read_from_snoc)
  case 4 then show ?case using snoc(4) by (cases s) (auto simp: read_from_snoc)
qed

lemma read_from_operand:
  "about None ss = [OperandIs p] \<Longrightarrow> operand_given (read_from ss) = Some p"
  "about None ss = [] \<Longrightarrow> operand_given (read_from ss) = None"
proof -
  have "operand_given (read_from ss) =
    (if about None ss = [] then None else case last (about None ss) of OperandIs p \<Rightarrow> Some p | _ \<Rightarrow> None)"
  proof (induction ss rule: rev_induct)
    case (snoc s ss) then show ?case by (cases s) (simp_all add: read_from_snoc)
  qed (simp add: read_from_snoc nothing_given_def)
  then show "about None ss = [OperandIs p] \<Longrightarrow> operand_given (read_from ss) = Some p"
    and "about None ss = [] \<Longrightarrow> operand_given (read_from ss) = None" by simp_all
qed

section \<open>A command from its settings\<close>

definition text_setting :: "string \<Rightarrow> string option \<Rightarrow> setting list" where
  "text_setting n x = (case x of None \<Rightarrow> [] | Some t \<Rightarrow> [OptionIs n (ArgText t)])"

definition whole_setting :: "string \<Rightarrow> int option \<Rightarrow> setting list" where
  "whole_setting n x = (case x of None \<Rightarrow> [] | Some i \<Rightarrow> [OptionIs n (ArgWhole i)])"

fun command_name :: "command \<Rightarrow> string" where
  "command_name (Verify p fmt e cp pk sk sgs) = ''verify''"
| "command_name (Checkpoint p fmt out sk key signer) = ''checkpoint''"
| "command_name (Proof p s fmt cp sk out) = ''proof''"
| "command_name (VerifyProof p root cp pk sk) = ''verify-proof''"
| "command_name (Keygen a b force) = ''keygen''"

fun command_options :: "command \<Rightarrow> command_decl" where
  "command_options (Verify p fmt e cp pk sk sgs) = verify_options"
| "command_options (Checkpoint p fmt out sk key signer) = checkpoint_options"
| "command_options (Proof p s fmt cp sk out) = proof_options"
| "command_options (VerifyProof p root cp pk sk) = verify_proof_options"
| "command_options (Keygen a b force) = keygen_options"

fun settings :: "command \<Rightarrow> setting list" where
  "settings (Verify p fmt e cp pk sk sgs) =
     OperandIs p # OptionIs ''--format'' (ArgText fmt) # whole_setting ''--expected-count'' e @
     text_setting ''--checkpoint'' cp @ text_setting ''--public-key'' pk @ text_setting ''--seal-key-file'' sk @
     map (\<lambda>s. OptionIs ''--signer'' (ArgText s)) sgs"
| "settings (Checkpoint p fmt out sk key signer) =
     OperandIs p # OptionIs ''--format'' (ArgText fmt) # text_setting ''--output'' out @
     text_setting ''--seal-key-file'' sk @ text_setting ''--signing-key'' key @
     [OptionIs ''--signer-id'' (ArgText signer)]"
| "settings (Proof p s fmt cp sk out) =
     OperandIs p # OptionIs ''--seq'' (ArgWhole s) # OptionIs ''--format'' (ArgText fmt) #
     text_setting ''--checkpoint'' cp @ text_setting ''--seal-key-file'' sk @ text_setting ''--output'' out"
| "settings (VerifyProof p root cp pk sk) =
     OperandIs p # text_setting ''--root'' root @ text_setting ''--checkpoint'' cp @
     text_setting ''--public-key'' pk @ text_setting ''--seal-key-file'' sk"
| "settings (Keygen a b force) =
     OptionIs ''--private-out'' (ArgText a) # OptionIs ''--public-out'' (ArgText b) #
     (if force then [OptionIs ''--force'' ArgSet] else [])"

text \<open>The settings that apply when nothing is said.\<close>

fun default_settings :: "command \<Rightarrow> setting list" where
  "default_settings (Verify p fmt e cp pk sk sgs) = [OptionIs ''--format'' (ArgText ''auto'')]"
| "default_settings (Checkpoint p fmt out sk key signer) =
     [OptionIs ''--format'' (ArgText ''auto''), OptionIs ''--signer-id'' (ArgText ''s0'')]"
| "default_settings (Proof p s fmt cp sk out) = [OptionIs ''--format'' (ArgText ''auto'')]"
| "default_settings (VerifyProof p root cp pk sk) = []"
| "default_settings (Keygen a b force) =
     [OptionIs ''--private-out'' (ArgText ''auditchain-signing.key''),
      OptionIs ''--public-out'' (ArgText ''auditchain-signing.pub'')]"

definition describes :: "setting list \<Rightarrow> command \<Rightarrow> bool" where
  "describes ss cmd \<longleftrightarrow>
     (\<forall>n. about n ss = about n (settings cmd) \<or>
          about n ss = [] \<and> about n (settings cmd) = about n (default_settings cmd))"

lemma about_setting [simp]:
  "about n (text_setting m x) = (if n = Some m then text_setting m x else [])"
  "about n (whole_setting m y) = (if n = Some m then whole_setting m y else [])"
  "about n (map (\<lambda>s. OptionIs m (ArgText s)) xs) = (if n = Some m then map (\<lambda>s. OptionIs m (ArgText s)) xs else [])"
  "texts (text_setting m x) = (case x of None \<Rightarrow> [] | Some t \<Rightarrow> [t])"
  "wholes (whole_setting m y) = (case y of None \<Rightarrow> [] | Some i \<Rightarrow> [i])"
  "texts (map (\<lambda>s. OptionIs m (ArgText s)) xs) = xs"
  by (auto simp: text_setting_def whole_setting_def about_def split: option.splits) (induction xs; simp)+

lemma plain_options: "plain_names (options (command_options cmd))"
  by (cases cmd) (simp_all add: plain_names_def spellings_def verify_options_def checkpoint_options_def
    proof_options_def verify_proof_options_def keygen_options_def help_option_def)


fun command_builder :: "command \<Rightarrow> namespace \<Rightarrow> command" where
  "command_builder (Verify p fmt e cp pk sk sgs) = verify_args"
| "command_builder (Checkpoint p fmt out sk key signer) = checkpoint_args"
| "command_builder (Proof p s fmt cp sk out) = proof_args"
| "command_builder (VerifyProof p root cp pk sk) = verify_proof_args"
| "command_builder (Keygen a b force) = keygen_args"

lemma subcommand_of: "map_of subcommands (command_name cmd) = Some (command_options cmd, command_builder cmd)"
  by (cases cmd) (simp_all add: subcommands_def)

lemmas option_tables =
  verify_options_def checkpoint_options_def proof_options_def verify_proof_options_def keygen_options_def
  help_option_def

lemmas builders =
  verify_args_def checkpoint_args_def proof_args_def verify_proof_args_def keygen_args_def

lemma described_operand:
  assumes "describes ss cmd"
  shows "about None ss = about None (settings cmd)"
proof -
  have "about None (default_settings cmd) = []" by (cases cmd) simp_all
  then show ?thesis using assms [unfolded describes_def, THEN spec, of None] by auto
qed

lemma described_option:
  assumes "describes ss cmd" and "about (Some n) (default_settings cmd) = []"
  shows "about (Some n) ss = about (Some n) (settings cmd)"
  using assms(1) [unfolded describes_def, THEN spec, of "Some n"] assms(2) by auto

lemma described_default:
  assumes "describes ss cmd" and "about (Some n) (default_settings cmd) = [OptionIs n (ArgText d)]"
    and "texts (about (Some n) (settings cmd)) \<noteq> []"
  shows "or_else (text_of (read_from ss) n) d = last (texts (about (Some n) (settings cmd)))"
  using assms(1) [unfolded describes_def, THEN spec, of "Some n"] assms(2,3)
  by (auto simp: text_of_def read_from_facts or_else_def final_def)

lemma read_values:
  "text_of (read_from ss) n = final (texts (about (Some n) ss))"
  "whole_of (read_from ss) n = final (wholes (about (Some n) ss))"
  by (simp_all add: text_of_def whole_of_def read_from_facts)

lemma final_simps [simp]: "final [] = None" "final [x] = Some x" "final (case y of None \<Rightarrow> [] | Some z \<Rightarrow> [z]) = y"
  by (simp_all add: final_def split: option.splits)

lemma described_command:
  assumes d: "describes ss cmd"
  shows "complete (command_options cmd) (read_from ss)" and "command_builder cmd (read_from ss) = cmd"
proof -
  note operand = described_operand [OF d] and option = described_option [OF d] and default = described_default [OF d]
  show "complete (command_options cmd) (read_from ss)"
    using operand option [of "''--seq''"] read_from_facts(3) [of "''--seq''" ss]
    by (cases cmd) (simp_all add: complete_def option_tables option_name_def read_from_facts(4) read_from_operand)
  show "command_builder cmd (read_from ss) = cmd"
  proof (cases cmd)
    case (Verify p fmt e cp pk sk sgs)
    then show ?thesis using operand
      by (simp add: verify_args_def operand_of_def read_from_operand default)
         (simp add: or_else_def read_values read_from_facts option)
  next
    case (Checkpoint p fmt out sk key signer)
    then show ?thesis using operand
      by (simp add: checkpoint_args_def operand_of_def read_from_operand default)
         (simp add: or_else_def read_values read_from_facts option)
  next
    case (Proof p s fmt cp sk out)
    then show ?thesis using operand
      by (simp add: proof_args_def operand_of_def read_from_operand default)
         (simp add: or_else_def read_values read_from_facts option)
  next
    case (VerifyProof p root cp pk sk)
    then show ?thesis using operand
      by (simp add: verify_proof_args_def operand_of_def read_from_operand)
         (simp add: or_else_def read_values read_from_facts option)
  next
    case (Keygen a b force)
    then show ?thesis
      using read_from_facts(3) [of "''--force''" ss] option [of "''--force''"]
      by (simp add: keygen_args_def default)
  qed
qed

section \<open>Command lines\<close>

text \<open>C31: A command comes back from every way to write it on the command line: its settings in any order, each option
  by its name or an unambiguous start of it, its value joined by \<open>=\<close> or in the next argument (unless that looks like
  an option), integers and paths in any form that denotes them, and settings that equal the default left out.\<close>

theorem command_line_roundtrip:
  assumes "describes ss cmd" and "list_all2 (written (command_options cmd)) ss wss"
  shows "parse_args (command_name cmd # concat wss) = Parsed cmd"
proof -
  let ?c = "command_options cmd"
  have settled: "list_all settled (concat wss)"
    using assms(2) written_settled [OF _ plain_options]
    by (induction ss wss rule: list_all2_induct) (auto simp: list_all_append)
  have "length (about None ss) \<le> 1"
    using described_operand [OF assms(1)] by (cases cmd) simp_all
  then have "read_args ?c (concat wss) nothing_given = Parsed (read_from ss)"
    using read_settings [OF assms(2) plain_options, of nothing_given]
    by (simp add: read_from_def nothing_given_def)
  then have parsed: "parse_command ?c (concat wss) = Parsed (read_from ss)"
    using described_command(1) [OF assms(1)] by (simp add: parse_command_def)
  have "\<not> starts_with ''-'' (command_name cmd)" by (cases cmd) (simp_all add: starts_with_def)
  then have "settled (command_name cmd)" and "classify [help_option] (command_name cmd) = Operand"
    by (auto simp: settled_def starts_with_iff classify_operand)
  then show ?thesis
    using settled parsed described_command(2) [OF assms(1)] by (simp add: parse_args_def subcommand_of)
qed


lemma written_value:
  assumes "abbreviates (options c) m d" and "option_name d = n"
    and "takes_value (kind d)" and "convert (kind d) t = Parsed v"
    and "ws = [m @ CHR ''='' # t] \<or> ws = [m, t] \<and> \<not> starts_with ''-'' t"
  shows "written c (OptionIs n v) ws"
  using assms by auto

lemma verify_spellings:
  "spellings (options verify_options) =
     [(''-h'', help_option), (''--help'', help_option), (''--format'', opt ''--format'' formats),
      (''--expected-count'', opt ''--expected-count'' Whole), (''--checkpoint'', opt ''--checkpoint'' PathName),
      (''--public-key'', opt ''--public-key'' Plain), (''--seal-key-file'', opt ''--seal-key-file'' PathName),
      (''--signer'', opt ''--signer'' Repeated)]"
  by (simp add: spellings_def verify_options_def help_option_def)

theorem command_line_roundtrip_witness:
  "parse_args [''verify'', ''--pub=signing.pub'', ''--signer'', ''s0=a.pub'', ''logs//audit.sqlite'', ''--expected-count'', ''+12'',
       ''--signer=s1=b.pub''] =
     Parsed (Verify ''logs/audit.sqlite'' ''auto'' (Some 12) None (Some ''signing.pub'') None [''s0=a.pub'', ''s1=b.pub''])"
proof -
  let ?cmd = "Verify ''logs/audit.sqlite'' ''auto'' (Some 12) None (Some ''signing.pub'') None [''s0=a.pub'', ''s1=b.pub'']"
  let ?ss = "[OptionIs ''--public-key'' (ArgText ''signing.pub''), OptionIs ''--signer'' (ArgText ''s0=a.pub''),
    OperandIs ''logs/audit.sqlite'', OptionIs ''--expected-count'' (ArgWhole 12), OptionIs ''--signer'' (ArgText ''s1=b.pub'')]"
  let ?wss = "[[''--pub=signing.pub''], [''--signer'', ''s0=a.pub''], [''logs//audit.sqlite''],
    [''--expected-count'', ''+12''], [''--signer=s1=b.pub'']]"
  have "describes ?ss ?cmd"
    by (auto simp: describes_def text_setting_def whole_setting_def)
  moreover have "path_of ''logs//audit.sqlite'' = ''logs/audit.sqlite''" "convert Whole ''+12'' = Parsed (ArgWhole 12)"
    "operand verify_options" by code_simp+
  then have "list_all2 (written verify_options) ?ss ?wss"
    by (simp add: written_value [where d = "opt ''--public-key'' Plain" and m = "''--pub''" and t = "''signing.pub''"]
      written_value [where d = "opt ''--signer'' Repeated" and m = "''--signer''" and t = "''s0=a.pub''"]
      written_value [where d = "opt ''--signer'' Repeated" and m = "''--signer''" and t = "''s1=b.pub''"]
      written_value [where d = "opt ''--expected-count'' Whole" and m = "''--expected-count''" and t = "''+12''"]
      verify_spellings starts_with_def abbreviates_def option_name_def takes_value_def
      convert_def [of Plain] convert_def [of Repeated] del: written.simps(2))
  ultimately show ?thesis using command_line_roundtrip [of ?ss ?cmd ?wss] by simp
qed

section \<open>Signed anchors and proof\<close>

lemma bindP_Parsed_iff: "bindP m f = Parsed y \<longleftrightarrow> (\<exists>x. m = Parsed x \<and> f x = Parsed y)"
  by (cases m) auto

lemma read_known:
  assumes "classify (options c) a = Known d v" and "takes_value (kind d)"
  shows "read_args c (a # as) g =
    (case (v, as) of
       (Some t, _) \<Rightarrow> bindP (store_value d t g) (read_args c as)
     | (None, b # bs) \<Rightarrow>
         if classify (options c) b = Operand then bindP (store_value d b g) (read_args c bs) else Usage
     | _ \<Rightarrow> Usage)"
  using assms by (cases "kind d") (auto simp: takes_value_def split: option.splits list.splits)

lemma store_left_over: "store_value d t g = Parsed h \<Longrightarrow> left_over h = left_over g"
  by (cases "convert (kind d) t") (auto simp: store_value_def)

text \<open>An argument that no parser knows is never taken for a value.\<close>

lemma value_step:
  assumes "classify (options c) a = Known d v" and "takes_value (kind d)" and "read_args c (a # rest) g = Parsed g'"
  obtains ys h where "read_args c ys h = Parsed g'" "left_over h = left_over g" "length ys \<le> length rest"
    and "\<forall>x \<in> set rest. classify (options c) x = Unknown \<longrightarrow> x \<in> set ys"
proof (cases v)
  case None
  then obtain b bs where "rest = b # bs" "classify (options c) b = Operand"
    and "bindP (store_value d b g) (read_args c bs) = Parsed g'"
    using assms(3) read_known [OF assms(1,2), of rest g]
    by (auto simp del: read_args.simps split: list.splits if_splits)
  then show ?thesis using that [of bs] by (auto simp: bindP_Parsed_iff dest: store_left_over)
next
  case (Some t)
  then show ?thesis using that [of rest] assms(3) read_known [OF assms(1,2), of rest g]
    by (auto simp: bindP_Parsed_iff simp del: read_args.simps dest: store_left_over)
qed

lemma unknown_left_over:
  assumes "read_args c as g = Parsed g'" and "left_over g \<or> (\<exists>a \<in> set as. classify (options c) a = Unknown)"
  shows "left_over g'"
  using assms
proof (induction "length as" arbitrary: as g rule: less_induct)
  case less
  show ?case
  proof (cases as)
    case Nil
    then show ?thesis using less.prems by simp
  next
    case (Cons a rest)
    note IH = less.hyps [of rest]
    show ?thesis
    proof (cases "classify (options c) a")
      case (Known d v)
      show ?thesis
      proof (cases "takes_value (kind d)")
        case True
        obtain ys h where ys: "read_args c ys h = Parsed g'" "left_over h = left_over g" "length ys \<le> length rest"
          and kept: "\<forall>x \<in> set rest. classify (options c) x = Unknown \<longrightarrow> x \<in> set ys"
          using value_step [OF Known True] less.prems(1) Cons by metis
        then have "left_over h \<or> (\<exists>x \<in> set ys. classify (options c) x = Unknown)"
          using less.prems(2) Cons Known by auto
        with ys Cons show ?thesis by (intro less.hyps [of ys h]) auto
      next
        case False
        then show ?thesis using less.prems Known Cons IH by (fastforce simp: takes_value_def split: if_splits)
      qed
    qed (use less.prems Cons IH in \<open>auto split: if_splits\<close>)
  qed
qed

lemma proof_public_key_unknown:
  assumes "starts_with ''--p'' a" and "CHR '' '' \<notin> set a"
  shows "classify (options proof_options) a = Unknown"
proof -
  from assms(1) obtain r where a: "a = ''--p'' @ r" by (auto simp: starts_with_iff)
  obtain r' v where split: "split_value a = (''--p'' @ r', v)"
    by (cases "dropWhile (\<lambda>c. c \<noteq> CHR ''='') r") (auto simp: a split_value_def)
  show ?thesis
    using assms(2) split
    by (auto simp: classify_def a proof_options_def help_option_def spellings_def starts_with_def negative_number_def
      is_digit_minus split: option.splits)
qed

text \<open>C32: A checkpoint with an Ed25519 signature, such as \<open>checkpoint --signing-key\<close> writes and the documentation passes to
  \<open>proof\<close>, stops \<open>proof\<close>: every command line that names it ends with exit code 2 and writes nothing, although \<open>verify\<close> and
  \<open>verify-proof\<close> open it with the public key; and no command line of \<open>proof\<close> may say \<open>--public-key\<close>, in full or abbreviated.\<close>

theorem signed_anchor_stops_proof:
  assumes "load_checkpoint_file pf fs c sk pk = Inr cp" and "cp_signature_ed25519 cp \<noteq> []"
  shows "(parse_args argv = Parsed (Proof p i fmt (Some c) skf output) \<longrightarrow> main pf seed argv fs = Some (2, fs)) \<and>
    (a \<in> set as \<and> starts_with ''--p'' a \<and> CHR '' '' \<notin> set a \<longrightarrow> parse_args (''proof'' # as) \<noteq> Parsed cmd)"
proof (intro conjI impI)
  assume "parse_args argv = Parsed (Proof p i fmt (Some c) skf output)"
  then show "main pf seed argv fs = Some (2, fs)"
    using proof_command_refuses_signed [OF assms, of seed p i fmt skf "output"]
    by (auto simp: main_def split: prod.splits)
next
  assume a: "a \<in> set as \<and> starts_with ''--p'' a \<and> CHR '' '' \<notin> set a"
  show "parse_args (''proof'' # as) \<noteq> Parsed cmd"
  proof
    assume "parse_args (''proof'' # as) = Parsed cmd"
    then obtain g where "read_args proof_options as nothing_given = Parsed g" "complete proof_options g"
      by (auto simp: parse_args_def subcommands_def classify_operand starts_with_def parse_command_def
          split: if_splits parse.splits)
    then show False
      using unknown_left_over [of proof_options as] a proof_public_key_unknown by (auto simp: complete_def)
  qed
qed


theorem signed_anchor_stops_proof_witness:
  "\<exists>u. main demo_platform []
       [''proof'', ''audit.sqlite'', ''--seq'', ''7341'', ''--checkpoint'', ''cp'', ''--seal-key-file'', ''seal.key'',
        ''--output'', ''7341.proof''] [''cp'' \<mapsto> u] = Some (2, [''cp'' \<mapsto> u]) \<and>
     parse_args [''proof'', ''audit.sqlite'', ''--seq'', ''7341'', ''--checkpoint'', ''cp'', ''--public-key'', ''signing.pub'']
       \<notin> range Parsed"
proof -
  let ?argv = "[''proof'', ''audit.sqlite'', ''--seq'', ''7341'', ''--checkpoint'', ''cp'', ''--seal-key-file'',
    ''seal.key'', ''--output'', ''7341.proof'']"
  obtain u cp where u: "load_checkpoint_file demo_platform [''cp'' \<mapsto> u] ''cp'' None
      (Some (PublicKey (public_key_of demo_ed25519 sample_seed))) = Inr cp" "cp_signature_ed25519 cp \<noteq> []"
    by (rule signed_checkpoint_opens)
  have docs: "parse_args ?argv =
      Parsed (Proof ''audit.sqlite'' 7341 ''auto'' (Some ''cp'') (Some ''seal.key'') (Some ''7341.proof''))"
    by code_simp
  note stops = signed_anchor_stops_proof [OF u]
  have "main demo_platform [] ?argv [''cp'' \<mapsto> u] = Some (2, [''cp'' \<mapsto> u])"
    using stops [THEN conjunct1] docs by blast
  moreover have "parse_args
      (''proof'' # [''audit.sqlite'', ''--seq'', ''7341'', ''--checkpoint'', ''cp'', ''--public-key'', ''signing.pub'']) \<noteq>
      Parsed cmd" for cmd
    by (rule stops [THEN conjunct2, rule_format, where a = "''--public-key''"]) (simp add: starts_with_def)
  ultimately show ?thesis by auto
qed

end
