(* ===== verification/Spec2Isabelle.thy ===== *)
theory Spec2Isabelle
  imports Sha256_Vector Timestamps_Properties Lock_Owner Locked_Log_Properties Sync_Properties Loaded_Records Handler_Properties Cli_Args_Properties
begin

text \<open>
  \<^bold>\<open>auditchain\<close>: tamper-evident, hash-chained audit logs (Python, \<open>src/src/auditchain\<close>).

  \<^bold>\<open>The program.\<close> A record (\<open>records.py\<close>) is hashed over a canonical JSON payload (\<open>hash.py\<close>), together with the
  hash of its predecessor, and optionally sealed with HMAC and signed with Ed25519 (\<open>signing.py\<close>). \<open>AuditLog\<close>
  (\<open>log.py\<close>) builds the records and stores them through a backend (\<open>backends/\<close>), under a lock when several
  processes write (\<open>locks.py\<close>). \<open>verify_chain\<close> (\<open>verify.py\<close>) checks a whole log, against a saved checkpoint
  (\<open>checkpoint.py\<close>) if there is one; Merkle trees (\<open>merkle.py\<close>) give the log a root and single records an inclusion
  proof. \<open>handlers.py\<close> feeds the log from Python's \<open>logging\<close>, \<open>sync.py\<close> wraps it for code without an event loop, and
  \<open>__main__.py\<close> is the command line.

  \<^bold>\<open>How it is modelled.\<close> Functions are HOL functions; an exception is the left value of a sum (\<open>exn\<close>, \<open>result\<close> in
  \<open>Prelude\<close>); a method with effects is a function from its object to a result and the object afterwards
  (\<open>action\<close> in \<open>Backends\<close>). Python's integers are \<open>int\<close>, dictionaries association lists in insertion order,
  strings their UTF-8 form (see \<open>Prelude\<close>), bytes 8-bit words, and SHA-256 is computed on 32-bit words with
  wrap-around. Threads, processes and callers that interleave are step relations with reachable states.

  \<^item> \<open>Prelude\<close>: exceptions and results, bytes, text, hexadecimal and decimal forms.
  \<^item> \<open>Sha256\<close>, \<open>Sha256_Vector\<close>: SHA-256 and HMAC in full, checked on a published vector. No property assumes that
    the hash has no collisions: where one would break a promise, the theorem exhibits it.
  \<^item> \<open>Json\<close>, \<open>Json_Roundtrip\<close>, \<open>Json_Encode\<close>: what \<open>json.dumps\<close> and \<open>json.loads\<close> do, in the styles the package uses:
    printing is parsed back, and the canonical form determines the value. The parser has fuel that grows with the text;
    \<open>loads_fuel\<close> shows that more never changes its result.
  \<^item> \<open>Records\<close>, \<open>Hash\<close>, \<open>Signing\<close>, \<open>Checkpoint\<close>, \<open>Verify\<close>, \<open>Verify_Properties\<close>: the files of these names. \<open>valid_chain\<close>
    is the abstract description of a good log; \<open>verify_chain\<close> accepts exactly these, a change, a removal and a cut are
    noticed or a collision is found, and what a checkpoint with and without a Merkle root pins.
  \<^item> \<open>Merkle\<close>, \<open>Merkle_Properties\<close>: trees and proofs; proofs are complete, sound up to collisions, and total.
  \<^item> \<open>Backends\<close>: the interface as a record of operations and its contract as the locale \<open>storage\<close>, with the memory
    backend; \<open>Lines\<close>, \<open>Jsonl\<close>, \<open>Jsonl_Properties\<close>: the JSONL file, its encoding and the backward scan for its last line;
    \<open>Sqlite\<close>, \<open>Sqlite_Properties\<close>: the table and the transaction of the connection; \<open>Postgres\<close>: the statements and calls
    of the PostgreSQL backend, \<open>Postgres_Server\<close>: what they do on a server, \<open>Postgres_Storage\<close> and \<open>Postgres_Properties\<close>:
    what follows. Each backend keeps the promises of \<open>storage\<close>. \<open>Loaded_Records\<close>: the type of what they load.
  \<^item> \<open>Log\<close>: \<open>AuditLog\<close>; \<open>Log_Chain\<close>: what each method does to the chain, proved once for every \<open>storage\<close>; \<open>Log_System\<close>
    and \<open>Shared_Log\<close>: several logs on one storage as a step relation, whose invariant keeps the chain valid;
    \<open>Log_Properties\<close>, \<open>Log_Anchors\<close>: appends, rotation, checkpoints and proofs of one log. \<open>Timestamps\<close>,
    \<open>Timestamps_Properties\<close>: the text of time stamps, and that it sorts like the moments.
  \<^item> \<open>Sync\<close>, \<open>Sync_Properties\<close>: \<open>SyncAuditLog\<close>, and programs that use it one after the other on one SQLite log.
  \<^item> \<open>Locks\<close>, \<open>Lock_Invariant\<close>, \<open>Lock_Properties\<close>: threads of several processes step through \<open>acquire\<close> and \<open>release\<close> of file
    locks, time out and die; at most one is inside, and the lock is never lost. \<open>Lock_Owner\<close>: the note in the lock file,
    which names the process inside. \<open>Overlap\<close>: two tasks of one thread, which the lock lets in together. \<open>Locked_Log\<close>, \<open>Locked_Log_Properties\<close>: logs and file locks composed, with the stages of
    all threads and processes interleaved; what is acknowledged is what the file holds, as if the calls were atomic.
  \<^item> \<open>Handlers\<close>, \<open>Handler_Properties\<close>: the logging handler with its queue and worker thread.
  \<^item> \<open>Cli\<close>, \<open>Cli_Properties\<close>, \<open>Cli_Workflow\<close>: the commands over a map of files, with their exit codes and printed lines.
    \<open>Cli_Args\<close>, \<open>Cli_Args_Properties\<close>: the options that \<open>main\<close> declares, how \<open>argparse\<close> reads a command line with them,
    and what \<open>main\<close> then does.

  \<^bold>\<open>Parameters.\<close> The package \<open>cryptography\<close> is the record \<open>ed25519\<close>, of which some theorems assume \<open>ed25519_ok\<close>: what its
  documentation promises of keys and signatures. The package \<open>asyncpg\<close>, with the PostgreSQL server behind it, is the record
  \<open>asyncpg\<close>, of which some theorems assume \<open>asyncpg_ok\<close>: what pools, connections and transactions do, and what the
  statements of the backend do, for one table that nobody else writes to. Each assumption is shown to be possible by an
  instance (\<open>demo_ed25519\<close>, \<open>demo_pg\<close>). The clock, the text of exceptions, the random seed of a key pair, the
  files lock paths lead to, and the format of a SQLite file are arguments.

  \<^bold>\<open>Not modelled.\<close> Failures of disk and database files (full, read-only, damaged or busy), directories and file
  permissions; Python's recursion limit and memory; metadata that a caller changes while it is being written; the text
  of messages that the standard library raises; help and usage messages, and the few command
  lines on which CPython 3.10 to 3.13 differ (\<open>settled\<close> in \<open>Cli_Args\<close>); how the clock is rounded to
  microseconds, and the text of years before 1000, which depends on the platform. The event loop is no part of the model beyond the refusal of \<open>asyncio.run\<close> inside a running one and the interleavings of \<open>Overlap\<close>; that
  \<open>asyncpg\<close> ties a pool to the loop that opened it is left out. \<open>__init__.py\<close> only re-exports names.
\<close>

end
